(* ===== verification/Uv_Prelude.thy ===== *)
theory Uv_Prelude
  imports Main "HOL-Library.Word"
begin

text \<open>
  Prelude of the development: the machine types, the effects an operation of the program
  has on its surroundings, and the lemma collections the component theories share.

  The program is a layer between two pieces of foreign code. Below it is libuv: every call
  it makes is recorded as a \<open>uv_call\<close>, and the integer it returns is given by an environment
  (\<open>uvenv\<close>) that is an argument of the definitions. Above it are stdexec receivers:
  a receiver is completed by one of the three channels, recorded as a \<open>completion\<close>.
  The record \<open>world\<close> holds the trace of these effects in the order they happen;
  the operation states of the components extend it with their own fields.
\<close>

type_synonym size_t = "64 word"
type_synonym u64 = "64 word"

text \<open>An address: of a handle, of an operation state, of a request. 0 is not special here;
  pointers that can be null are \<open>ptr option\<close>.\<close>

type_synonym ptr = nat

text \<open>libuv's status codes, C \<open>int\<close>s that the code passes on unchanged.\<close>

type_synonym TUvError = int

text \<open>A socket address: its family, and the bytes of the whole structure (the family among them).\<close>

record sockaddr =
  sa_family :: nat
  sa_bytes :: "8 word list"

text \<open>A buffer descriptor \<open>uv_buf_t\<close>: base address and length.\<close>

record uv_buf_t =
  base :: ptr
  len :: size_t

text \<open>The callbacks the code hands to libuv, by the names they have in the source.\<close>

datatype uv_cb =
    AfterCallback | SignalCallback | CloseCallback | ReadCallback | ReceiveCallback
  | WriteCallback | SendCallback | SendToCallback | ShutdownCallback | ConnectCallback
  | ConnectionCallback | ApplyOperationsCallback

text \<open>The libuv functions the code calls, with the arguments it passes.\<close>

datatype uv_call =
    uv_loop_init ptr
  | uv_loop_close ptr
  | uv_run ptr nat
  | uv_stop ptr
  | uv_async_init ptr ptr uv_cb
  | uv_async_send ptr
  | uv_timer_init ptr ptr
  | uv_timer_start ptr uv_cb u64 u64
  | uv_timer_stop ptr
  | uv_signal_init ptr ptr
  | uv_signal_start_oneshot ptr uv_cb int
  | uv_signal_stop ptr
  | uv_tcp_init ptr ptr
  | uv_udp_init ptr ptr
  | uv_tcp_bind ptr sockaddr nat
  | uv_udp_bind ptr sockaddr nat
  | uv_listen ptr int uv_cb
  | uv_accept ptr ptr
  | uv_tcp_connect ptr ptr sockaddr uv_cb
  | uv_udp_connect ptr sockaddr
  | uv_shutdown ptr ptr uv_cb
  | uv_tcp_close_reset ptr "uv_cb option"
  | uv_read_start ptr uv_cb
  | uv_read_stop ptr
  | uv_udp_recv_start ptr uv_cb
  | uv_udp_recv_stop ptr
  | uv_write ptr ptr "uv_buf_t list" "32 word" uv_cb
  | uv_udp_send ptr ptr "uv_buf_t list" "32 word" "sockaddr option" uv_cb
  | uv_close ptr "uv_cb option"

text \<open>
  The environment: the status each call returns. A handler of the code makes no call twice
  with the same arguments, so a function of the call is as general as any answer of the
  library during that handler; different handlers of one run get different environments.
\<close>

type_synonym uvenv = "uv_call \<Rightarrow> TUvError"

text \<open>\<open>enum class EErrc\<close> has the underlying type \<open>int\<close> and is made by the cast \<open>EErrc{err}\<close>.\<close>

datatype EErrc = EErrc int

text \<open>The three completion channels of a receiver. The values the code sends are none
  (\<open>set_value()\<close>) or one \<open>std::size_t\<close>; an error is an \<open>EErrc\<close> or an \<open>exception_ptr\<close>.\<close>

datatype completion =
    SetValue "size_t list"
  | SetError EErrc
  | SetException string
  | SetStopped

text \<open>
  What happens, in the order it happens: a libuv call with the status it returned (0 for the
  functions that return none), a completion of the receiver, \<open>TLoop::Schedule\<close> of an operation
  (Operation_List has its details), the ways the code is entered: a callback of a handle or
  request, \<open>Apply\<close> of a scheduled operation, the completion of a child operation that was
  started with \<open>stdexec::start\<close>; and undefined behaviour of C++ (reading an empty
  \<open>std::optional\<close>, a list or variant in the wrong state), which ends what can be said.
\<close>

datatype effect =
    UvCall uv_call TUvError
  | Signal completion
  | Scheduled ptr
  | Callback uv_cb ptr
  | Applied ptr
  | Started ptr
  | ChildDone ptr
  | Undefined string

record world =
  trace :: "effect list"

definition emit :: "effect \<Rightarrow> 'a world_scheme \<Rightarrow> 'a world_scheme" where
  "emit e w = w\<lparr>trace := trace w @ [e]\<rparr>"

text \<open>A call with a status, and a call without one.\<close>

definition uv :: "uvenv \<Rightarrow> uv_call \<Rightarrow> 'a world_scheme \<Rightarrow> TUvError \<times> 'a world_scheme" where
  "uv env c w = (env c, emit (UvCall c (env c)) w)"

definition uv_void :: "uv_call \<Rightarrow> 'a world_scheme \<Rightarrow> 'a world_scheme" where
  "uv_void c w = emit (UvCall c 0) w"

text \<open>The three ways to complete the receiver.\<close>

abbreviation set_value :: "size_t list \<Rightarrow> 'a world_scheme \<Rightarrow> 'a world_scheme" where
  "set_value vs \<equiv> emit (Signal (SetValue vs))"

abbreviation set_error :: "EErrc \<Rightarrow> 'a world_scheme \<Rightarrow> 'a world_scheme" where
  "set_error e \<equiv> emit (Signal (SetError e))"

abbreviation set_stopped :: "'a world_scheme \<Rightarrow> 'a world_scheme" where
  "set_stopped \<equiv> emit (Signal SetStopped)"

text \<open>\<open>TLoop::Schedule\<close>, as the operation states see it.\<close>

definition Schedule :: "ptr \<Rightarrow> 'a world_scheme \<Rightarrow> 'a world_scheme" where
  "Schedule op w = emit (Scheduled op) w"

text \<open>The completions of a trace, in order.\<close>

definition completions :: "effect list \<Rightarrow> completion list" where
  "completions tr = concat (map (\<lambda>e. case e of Signal c \<Rightarrow> [c] | _ \<Rightarrow> []) tr)"

named_theorems handler_defs "definitions of the handlers, to unfold in the step lemmas"

lemma trace_emit [simp]: "trace (emit e w) = trace w @ [e]"
  by (simp add: emit_def)

lemma emit_more [simp]: "world.more (emit e w) = world.more w"
  by (simp add: emit_def)

lemma completions_Nil [simp]: "completions [] = []"
  by (simp add: completions_def)

lemma completions_append [simp]: "completions (xs @ ys) = completions xs @ completions ys"
  by (simp add: completions_def)

lemma completions_Cons [simp]:
  "completions (e # es) = (case e of Signal c \<Rightarrow> [c] | _ \<Rightarrow> []) @ completions es"
  by (simp add: completions_def)

section \<open>Runs of handlers\<close>

text \<open>
  The loop, the other threads and libuv decide which handler runs next. A component's
  run is a list of such events: \<open>enabled\<close> says when the surroundings may deliver an
  event (their documented behaviour, stated on the trace), \<open>step\<close> is the handler it enters.
\<close>

primrec admissible :: "('e \<Rightarrow> 's \<Rightarrow> bool) \<Rightarrow> ('e \<Rightarrow> 's \<Rightarrow> 's) \<Rightarrow> 's \<Rightarrow> 'e list \<Rightarrow> bool" where
  "admissible enabled step s [] = True"
| "admissible enabled step s (e # es) =
     (enabled e s \<and> admissible enabled step (step e s) es)"

abbreviation run_events :: "('e \<Rightarrow> 's \<Rightarrow> 's) \<Rightarrow> 's \<Rightarrow> 'e list \<Rightarrow> 's" where
  "run_events step s es \<equiv> fold step es s"

locale guarded_steps =
  fixes enabled :: "'e \<Rightarrow> 's \<Rightarrow> bool"
    and step :: "'e \<Rightarrow> 's \<Rightarrow> 's"
    and Inv :: "'s \<Rightarrow> bool"
  assumes step_Inv: "Inv s \<Longrightarrow> enabled e s \<Longrightarrow> Inv (step e s)"
begin

lemma run_Inv: "Inv s \<Longrightarrow> admissible enabled step s es \<Longrightarrow> Inv (fold step es s)"
  by (induction es arbitrary: s) (auto intro: step_Inv)

end

end
