(* ===== verification/Intrusive_List.thy ===== *)
theory Intrusive_List
  imports Uv_Prelude
begin

text \<open>
  \<open>TIntrusiveList<T>\<close> of include/uvexec/util/intrusive_list.hpp: a doubly linked list whose
  links are stored in the nodes. The model keeps the pointers: \<open>NodeNext\<close> and \<open>NodePrev\<close> are
  the fields of every node of the heap, \<open>Head\<close> the field of the list. \<open>dll l xs\<close> says that
  the pointers of \<open>l\<close> represent the abstract list \<open>xs\<close>; each operation is proved to refine
  the corresponding list operation. The locale \<open>waiting_list\<close> is the interface the clients
  (the runners queue and the accept list) rely on.
\<close>

section \<open>The code\<close>

record 'a ilist =
  Head :: "'a option"
  NodeNext :: "'a \<Rightarrow> 'a option"
  NodePrev :: "'a \<Rightarrow> 'a option"

definition TIntrusiveList :: "'a ilist" where
  "TIntrusiveList = \<lparr>Head = None, NodeNext = (\<lambda>_. None), NodePrev = (\<lambda>_. None)\<rparr>"

definition TIntrusiveList_Add :: "'a \<Rightarrow> 'a ilist \<Rightarrow> 'a ilist" where
  "TIntrusiveList_Add node l =
     (let l = l\<lparr>NodeNext := (NodeNext l)(node := Head l)\<rparr>;
          l = (case Head l of
                 None \<Rightarrow> l
               | Some h \<Rightarrow> l\<lparr>NodePrev := (NodePrev l)(h := Some node)\<rparr>)
      in l\<lparr>Head := Some node\<rparr>)"

definition TIntrusiveList_Erase :: "'a \<Rightarrow> 'a ilist \<Rightarrow> 'a ilist" where
  "TIntrusiveList_Erase node l =
     (let l = (case NodeNext l node of
                 None \<Rightarrow> l
               | Some n \<Rightarrow> l\<lparr>NodePrev := (NodePrev l)(n := NodePrev l node)\<rparr>);
          l = (case NodePrev l node of
                 None \<Rightarrow> l
               | Some p \<Rightarrow> l\<lparr>NodeNext := (NodeNext l)(p := NodeNext l node)\<rparr>);
          l = (if Head l = Some node then l\<lparr>Head := NodeNext l node\<rparr> else l)
      in l\<lparr>NodeNext := (NodeNext l)(node := None), NodePrev := (NodePrev l)(node := None)\<rparr>)"

text \<open>\<open>Pop\<close> dereferences \<open>Head\<close> without a test; \<open>None\<close> is the null dereference.\<close>

definition TIntrusiveList_Pop :: "'a ilist \<Rightarrow> ('a \<times> 'a ilist) option" where
  "TIntrusiveList_Pop l =
     (case Head l of None \<Rightarrow> None | Some h \<Rightarrow> Some (h, TIntrusiveList_Erase h l))"

definition TIntrusiveList_Empty :: "'a ilist \<Rightarrow> bool" where
  "TIntrusiveList_Empty l \<longleftrightarrow> Head l = None"

section \<open>The abstraction\<close>

definition first_of :: "'a list \<Rightarrow> 'a option \<Rightarrow> 'a option" where
  "first_of xs e = (case xs of [] \<Rightarrow> e | x # _ \<Rightarrow> Some x)"

definition last_of :: "'a option \<Rightarrow> 'a list \<Rightarrow> 'a option" where
  "last_of p xs = (if xs = [] then p else Some (last xs))"

lemma first_of_simps [simp]:
  "first_of [] e = e" "first_of (x # xs) e = Some x"
  by (simp_all add: first_of_def)

lemma last_of_simps [simp]:
  "last_of p [] = p" "last_of p (xs @ [x]) = Some x" "last_of p (x # xs) = last_of (Some x) xs"
  by (simp_all add: last_of_def)

lemma first_of_append [simp]: "first_of (xs @ ys) e = first_of xs (first_of ys e)"
  by (cases xs) simp_all

text \<open>\<open>chain nx pv p xs e\<close>: the nodes \<open>xs\<close> are linked in this order, \<open>p\<close> before the first
  and \<open>e\<close> after the last.\<close>

fun chain :: "('a \<Rightarrow> 'a option) \<Rightarrow> ('a \<Rightarrow> 'a option) \<Rightarrow> 'a option \<Rightarrow> 'a list \<Rightarrow> 'a option \<Rightarrow> bool" where
  "chain nx pv p [] e = True"
| "chain nx pv p (x # xs) e =
     (pv x = p \<and> nx x = first_of xs e \<and> chain nx pv (Some x) xs e)"

lemma chain_append:
  "chain nx pv p (xs @ ys) e \<longleftrightarrow>
     chain nx pv p xs (first_of ys e) \<and> chain nx pv (last_of p xs) ys e"
  by (induction xs arbitrary: p) auto

lemma chain_upd_other [simp]:
  "x \<notin> set xs \<Longrightarrow> chain (nx(x := v)) pv p xs e = chain nx pv p xs e"
  "x \<notin> set xs \<Longrightarrow> chain nx (pv(x := v)) p xs e = chain nx pv p xs e"
  by (induction xs arbitrary: p) auto

definition dll :: "'a ilist \<Rightarrow> 'a list \<Rightarrow> bool" where
  "dll l xs \<longleftrightarrow>
     distinct xs \<and> Head l = first_of xs None \<and> chain (NodeNext l) (NodePrev l) None xs None \<and>
     (\<forall>x. x \<notin> set xs \<longrightarrow> NodeNext l x = None \<and> NodePrev l x = None)"

lemma dll_unique: "dll l xs \<Longrightarrow> dll l ys \<Longrightarrow> xs = ys"
proof -
  have chain_unique: "xs = ys"
    if "chain nx pv p xs None" "chain nx pv p ys None" "first_of xs None = first_of ys None"
    for nx pv and p :: "'a option" and xs ys
    using that
  proof (induction xs arbitrary: p ys)
    case Nil
    then show ?case by (cases ys) auto
  next
    case (Cons x xs)
    then show ?case by (cases ys) auto
  qed
  assume "dll l xs" "dll l ys"
  then show ?thesis unfolding dll_def by (auto intro: chain_unique)
qed

lemma dll_empty_list: "dll TIntrusiveList []"
  by (simp add: dll_def TIntrusiveList_def)

lemma dll_Empty: "dll l xs \<Longrightarrow> TIntrusiveList_Empty l \<longleftrightarrow> xs = []"
  by (cases xs) (auto simp: dll_def TIntrusiveList_Empty_def)

lemma dll_Add:
  assumes "dll l xs" "n \<notin> set xs"
  shows "dll (TIntrusiveList_Add n l) (n # xs)"
  using assms by (cases xs) (auto simp: dll_def TIntrusiveList_Add_def)

lemma dll_Erase_absent:
  assumes "dll l xs" "n \<notin> set xs"
  shows "TIntrusiveList_Erase n l = l"
proof -
  have "NodeNext l n = None" "NodePrev l n = None" "Head l \<noteq> Some n"
    using assms by (auto simp: dll_def first_of_def split: list.splits)
  then show ?thesis
    by (simp add: TIntrusiveList_Erase_def fun_upd_idem)
qed

text \<open>What \<open>Erase\<close> does to the pointers of a node that is in the list: its neighbours (if
  any) are linked to each other and its own links become null.\<close>

lemma Erase_present_eq:
  assumes "dll l (as @ n # bs)"
  shows "TIntrusiveList_Erase n l =
    \<lparr>Head = first_of (as @ bs) None,
     NodeNext = (case last_of None as of None \<Rightarrow> NodeNext l
                 | Some p \<Rightarrow> (NodeNext l)(p := first_of bs None))(n := None),
     NodePrev = (case first_of bs None of None \<Rightarrow> NodePrev l
                 | Some b \<Rightarrow> (NodePrev l)(b := last_of None as))(n := None)\<rparr>"
proof -
  have nx: "NodeNext l n = first_of bs None" and pv: "NodePrev l n = last_of None as"
    and hd: "Head l = first_of as (Some n)"
    using assms by (simp_all add: dll_def chain_append)
  have n: "n \<notin> set as" "n \<notin> set bs" using assms by (auto simp: dll_def)
  have fb: "first_of bs None \<noteq> Some n" using n by (cases bs) auto
  show ?thesis
  proof (cases as)
    case Nil
    then show ?thesis
      using nx pv hd fb unfolding TIntrusiveList_Erase_def Let_def
      by (cases "first_of bs None") simp_all
  next
    case (Cons a as')
    then have lp: "last_of None as = Some (last as)" and "last as \<noteq> n" and "a \<noteq> n"
      using n last_in_set [of as] by (auto simp: last_of_def)
    moreover have "Head l = Some a" using hd Cons by simp
    ultimately show ?thesis
      using nx pv fb Cons unfolding TIntrusiveList_Erase_def Let_def lp
      by (cases "first_of bs None") (simp_all del: last.simps last_of_simps)
  qed
qed

lemma chain_upd_last:
  assumes "chain nx pv p xs e" "distinct xs"
  shows "chain (case last_of None xs of None \<Rightarrow> nx | Some z \<Rightarrow> nx(z := e')) pv p xs e'"
  using assms
proof (cases xs rule: rev_cases)
  case (snoc ys y)
  then show ?thesis using assms by (simp add: chain_append)
qed simp

lemma chain_upd_first:
  assumes "chain nx pv p xs e" "distinct xs"
  shows "chain nx (case first_of xs None of None \<Rightarrow> pv | Some z \<Rightarrow> pv(z := p')) p' xs e"
  using assms by (cases xs) simp_all

lemma dll_Erase_present:
  assumes "dll l (as @ n # bs)"
  shows "dll (TIntrusiveList_Erase n l) (as @ bs)"
proof -
  define nx where "nx = (case last_of None as of None \<Rightarrow> NodeNext l
                 | Some p \<Rightarrow> (NodeNext l)(p := first_of bs None))"
  define pv where "pv = (case first_of bs None of None \<Rightarrow> NodePrev l
                 | Some b \<Rightarrow> (NodePrev l)(b := last_of None as))"
  have d: "distinct (as @ n # bs)" and out: "\<And>x. x \<notin> set (as @ n # bs) \<Longrightarrow>
      NodeNext l x = None \<and> NodePrev l x = None"
    and ca: "chain (NodeNext l) (NodePrev l) None as (Some n)"
    and cb: "chain (NodeNext l) (NodePrev l) (Some n) bs None"
    using assms by (simp_all add: dll_def chain_append)
  have last_in: "last_of None as = Some z \<Longrightarrow> z \<in> set as" for z
    by (auto simp: last_of_def split: if_splits)
  have first_in: "first_of bs None = Some z \<Longrightarrow> z \<in> set bs" for z
    by (cases bs) auto
  have dj: "x \<in> set bs \<Longrightarrow> x \<notin> set as" "x \<in> set as \<Longrightarrow> x \<notin> set bs" for x
    using d by auto
  have "chain nx (NodePrev l) None as (first_of bs None)"
    unfolding nx_def using chain_upd_last [OF ca] d by simp
  then have "chain (nx(n := None)) (pv(n := None)) None as (first_of bs None)"
    using d first_in dj by (auto simp: pv_def split: option.splits)
  moreover have "chain (NodeNext l) pv (last_of None as) bs None"
    unfolding pv_def using chain_upd_first [OF cb] d by simp
  then have "chain (nx(n := None)) (pv(n := None)) (last_of None as) bs None"
    using d last_in dj by (auto simp: nx_def split: option.splits)
  moreover have "(nx(n := None)) x = None \<and> (pv(n := None)) x = None" if "x \<notin> set (as @ bs)" for x
    using that out [of x] last_in first_in by (auto simp: nx_def pv_def split: option.splits)
  ultimately show ?thesis
    using d by (simp add: dll_def Erase_present_eq [OF assms] chain_append nx_def pv_def)
qed

lemma dll_Erase:
  assumes "dll l xs"
  shows "dll (TIntrusiveList_Erase n l) (remove1 n xs)"
proof (cases "n \<in> set xs")
  case True
  then obtain as bs where "xs = as @ n # bs" "n \<notin> set as"
    by (meson split_list_first)
  then show ?thesis
    using assms dll_Erase_present [of l as n bs] by (simp add: remove1_append)
next
  case False
  then show ?thesis using assms dll_Erase_absent [OF assms False] by (simp add: remove1_idem)
qed

lemma dll_Pop:
  assumes "dll l (x # xs)"
  obtains l' where "TIntrusiveList_Pop l = Some (x, l')" "dll l' xs"
proof
  have "Head l = Some x" using assms by (simp add: dll_def)
  then show "TIntrusiveList_Pop l = Some (x, TIntrusiveList_Erase x l)"
    by (simp add: TIntrusiveList_Pop_def)
  show "dll (TIntrusiveList_Erase x l) xs"
    using dll_Erase [OF assms, of x] by simp
qed

section \<open>The interface the clients rely on\<close>

locale waiting_list =
  fixes rep :: "'l \<Rightarrow> 'a list \<Rightarrow> bool"
    and add :: "'a \<Rightarrow> 'l \<Rightarrow> 'l"
    and erase :: "'a \<Rightarrow> 'l \<Rightarrow> 'l"
    and pop :: "'l \<Rightarrow> ('a \<times> 'l) option"
    and is_empty :: "'l \<Rightarrow> bool"
  assumes rep_unique: "rep l xs \<Longrightarrow> rep l ys \<Longrightarrow> xs = ys"
    and rep_distinct: "rep l xs \<Longrightarrow> distinct xs"
    and rep_add: "rep l xs \<Longrightarrow> x \<notin> set xs \<Longrightarrow> rep (add x l) (x # xs)"
    and rep_erase: "rep l xs \<Longrightarrow> rep (erase x l) (remove1 x xs)"
    and rep_pop: "rep l xs \<Longrightarrow> \<not> is_empty l \<Longrightarrow> \<exists>l'. pop l = Some (hd xs, l') \<and> rep l' (tl xs)"
    and rep_is_empty: "rep l xs \<Longrightarrow> is_empty l \<longleftrightarrow> xs = []"
begin

text \<open>A node that was added last is the first to be popped, and its removal, by
  \<open>pop\<close> or by \<open>erase\<close>, gives back the list before it was added.\<close>

lemma pop_add:
  assumes "rep l xs" "x \<notin> set xs"
  shows "\<exists>l'. pop (add x l) = Some (x, l') \<and> rep l' xs"
  using rep_pop [OF rep_add [OF assms]] rep_is_empty [OF rep_add [OF assms]] by simp

lemma erase_add:
  assumes "rep l xs" "x \<notin> set xs"
  shows "rep (erase x (add x l)) xs"
  using rep_erase [OF rep_add [OF assms], of x] by simp

lemma erase_absent: "rep l xs \<Longrightarrow> x \<notin> set xs \<Longrightarrow> rep (erase x l) xs"
  using rep_erase [of l xs x] by (simp add: remove1_idem)

text \<open>After an \<open>erase\<close> the node is not in the list, so a second \<open>erase\<close> changes nothing.\<close>

lemma erase_removes: "rep l xs \<Longrightarrow> rep (erase x l) ys \<Longrightarrow> set ys = set xs - {x}"
  using rep_erase [of l xs x] rep_unique [of "erase x l" ys "remove1 x xs"] rep_distinct [of l xs]
  by simp

lemma erase_twice: "rep l xs \<Longrightarrow> rep (erase x (erase x l)) (remove1 x xs)"
  using rep_erase [OF rep_erase, of l xs x x] rep_distinct [of l xs]
  by (simp add: remove1_idem)

end

interpretation il: waiting_list dll TIntrusiveList_Add TIntrusiveList_Erase TIntrusiveList_Pop
    TIntrusiveList_Empty
proof (unfold_locales, goal_cases)
  case (1 l xs ys)
  then show ?case by (rule dll_unique)
next
  case (2 l xs)
  then show ?case by (simp add: dll_def)
next
  case (3 l xs x)
  then show ?case by (rule dll_Add)
next
  case (4 l xs x)
  then show ?case by (rule dll_Erase)
next
  case (5 l xs)
  then show ?case
    by (cases xs) (auto simp: dll_Empty elim: dll_Pop)
next
  case (6 l xs)
  then show ?case by (rule dll_Empty)
qed

section \<open>Properties\<close>

text \<open>
  C24: on a list that holds the nodes \<open>xs\<close> each operation does what it does on the sequence: \<open>Add\<close> puts a
  new node in front, \<open>Erase\<close> removes its node wherever it stands and does nothing for a
  node that is not in the list (so a runner that was popped may be erased again), \<open>Pop\<close>
  takes the front and fails on the empty list only, \<open>Empty\<close> tells it. In each case all
  links, forward and backward, are again those of the sequence.
\<close>

theorem TIntrusiveList_refines_sequence:
  assumes "dll l xs"
  shows "(n \<notin> set xs \<longrightarrow> dll (TIntrusiveList_Add n l) (n # xs)) \<and>
    dll (TIntrusiveList_Erase n l) (remove1 n xs) \<and>
    (TIntrusiveList_Empty l \<longleftrightarrow> xs = []) \<and>
    (case xs of
       [] \<Rightarrow> TIntrusiveList_Pop l = None
     | x # ys \<Rightarrow> \<exists>l'. TIntrusiveList_Pop l = Some (x, l') \<and> dll l' ys)"
proof -
  have "TIntrusiveList_Pop l = None" if "xs = []"
    using assms that by (simp add: dll_def TIntrusiveList_Pop_def)
  moreover have "\<exists>l'. TIntrusiveList_Pop l = Some (x, l') \<and> dll l' ys" if "xs = x # ys" for x ys
    using dll_Pop [of l x ys] assms that by metis
  ultimately show ?thesis
    using il.rep_add [OF assms] il.rep_erase [OF assms] il.rep_is_empty [OF assms]
    by (simp split: list.split)
qed

theorem TIntrusiveList_refines_sequence_witness:
  "dll (TIntrusiveList_Erase 1 (TIntrusiveList_Add 2 (TIntrusiveList_Add 1 (TIntrusiveList_Add (0::nat)
    TIntrusiveList)))) [2, 0]"
proof -
  have "dll (TIntrusiveList_Add 2 (TIntrusiveList_Add 1 (TIntrusiveList_Add (0::nat)
      TIntrusiveList))) [2, 1, 0]"
    by (simp add: dll_Add dll_empty_list)
  from TIntrusiveList_refines_sequence [OF this, of 1] show ?thesis by simp
qed

end
