(* ===== verification/Runner.thy ===== *)
theory Runner
  imports Intrusive_List
begin

text \<open>
  \<open>TRunner\<close> and \<open>TRunnersQueue\<close> of src/execution/runner.cpp: a thread that wants to run the
  loop while another one is running it. \<open>Awakenings\<close> is the atomic word the thread waits on:
  0 means that the operation it waits for has completed (\<open>Finish\<close>), any other value that it has
  not; \<open>Wakeup\<close> adds one. The queue is the intrusive list of Intrusive_List; \<open>WakeupNext\<close> is
  the loop that pops runners up to the first unfinished one, proved for every waiting list
  and used through the interpretation on the code's list.
\<close>

section \<open>TRunner\<close>

record TRunner =
  Awakenings :: "64 word"
  Acq :: bool

definition TRunner_new :: TRunner where
  "TRunner_new = \<lparr>Awakenings = 1, Acq = False\<rparr>"

definition TRunner_Finished :: "TRunner \<Rightarrow> bool" where
  "TRunner_Finished r \<longleftrightarrow> Awakenings r = 0"

definition TRunner_AcquireIfNotFinished :: "TRunner \<Rightarrow> bool \<times> TRunner" where
  "TRunner_AcquireIfNotFinished r =
     (let r = (if Awakenings r \<noteq> 0 then r\<lparr>Acq := True\<rparr> else r) in (Acq r, r))"

definition TRunner_Acquired :: "TRunner \<Rightarrow> bool" where
  "TRunner_Acquired r = Acq r"

definition TRunner_Wakeup :: "TRunner \<Rightarrow> TRunner" where
  "TRunner_Wakeup r = r\<lparr>Awakenings := Awakenings r + 1\<rparr>"

definition TRunner_Finish :: "TRunner \<Rightarrow> TRunner" where
  "TRunner_Finish r = r\<lparr>Awakenings := 0\<rparr>"

text \<open>\<open>Wait\<close>: the first load, and the condition of its loop. While the condition holds
  the thread blocks in \<open>std::atomic::wait\<close>, which returns when the value is another one.\<close>

definition TRunner_Wait_load :: "TRunner \<Rightarrow> 64 word" where
  "TRunner_Wait_load r = Awakenings r"

definition TRunner_Wait_blocks :: "64 word \<Rightarrow> TRunner \<Rightarrow> bool" where
  "TRunner_Wait_blocks wakeups r \<longleftrightarrow> wakeups \<noteq> 0 \<and> Awakenings r = wakeups"

lemmas TRunner_defs = TRunner_new_def TRunner_Finished_def TRunner_AcquireIfNotFinished_def
  TRunner_Acquired_def TRunner_Wakeup_def TRunner_Finish_def TRunner_Wait_load_def
  TRunner_Wait_blocks_def

section \<open>TRunnersQueue\<close>

definition TRunnersQueue_Add :: "'t \<Rightarrow> 't ilist \<Rightarrow> 't ilist" where
  "TRunnersQueue_Add runner q = TIntrusiveList_Add runner q"

definition TRunnersQueue_Erase :: "'t \<Rightarrow> 't ilist \<Rightarrow> 't ilist" where
  "TRunnersQueue_Erase runner q = TIntrusiveList_Erase runner q"

text \<open>The loop of \<open>WakeupNext\<close> over any list: pop until an element is not \<open>skip\<close>ped. The result is
  \<open>None\<close> when \<open>pop\<close> dereferences null or the loop does not end.\<close>

partial_function (option) pop_until ::
    "('l \<Rightarrow> ('a \<times> 'l) option) \<Rightarrow> ('l \<Rightarrow> bool) \<Rightarrow> ('a \<Rightarrow> bool) \<Rightarrow> 'l \<Rightarrow> ('a option \<times> 'l) option" where
  "pop_until pop is_empty skip l =
     (if is_empty l then Some (None, l)
      else case pop l of
        None \<Rightarrow> None
      | Some (x, l') \<Rightarrow>
          if \<not> skip x then Some (Some x, l') else pop_until pop is_empty skip l')"

definition TRunnersQueue_WakeupNext ::
    "'t ilist \<Rightarrow> ('t \<Rightarrow> TRunner) \<Rightarrow> ('t ilist \<times> ('t \<Rightarrow> TRunner)) option" where
  "TRunnersQueue_WakeupNext q rs =
     (case pop_until TIntrusiveList_Pop TIntrusiveList_Empty (\<lambda>t. TRunner_Finished (rs t)) q of
        None \<Rightarrow> None
      | Some (None, q) \<Rightarrow> Some (q, rs)
      | Some (Some nxt, q) \<Rightarrow> Some (q, rs(nxt := TRunner_Wakeup (rs nxt))))"

context waiting_list begin

lemma pop_until_spec:
  assumes "rep l xs"
  shows "\<exists>l'. pop_until pop is_empty skip l = Some (find (\<lambda>x. \<not> skip x) xs, l') \<and>
    rep l' (tl (dropWhile skip xs))"
  using assms
proof (induction xs arbitrary: l)
  case Nil
  then show ?case
    by (subst pop_until.simps) (simp add: rep_is_empty)
next
  case (Cons x xs)
  then have ne: "\<not> is_empty l" by (simp add: rep_is_empty)
  then obtain l' where l': "pop l = Some (x, l')" "rep l' xs"
    using rep_pop [OF Cons.prems] by auto
  show ?case
    using ne l' Cons.IH [OF l'(2)] by (subst pop_until.simps) simp
qed

end

text \<open>
  \<open>WakeupNext\<close> returns on every list of runners: it drops the finished runners before the
  first unfinished one, removes and wakes that one and no other, and leaves the rest of
  the list as it was.
\<close>

theorem WakeupNext_wakes_first_unfinished:
  assumes "dll q xs"
  shows "\<exists>q'. TRunnersQueue_WakeupNext q rs =
      Some (q', case find (\<lambda>t. \<not> TRunner_Finished (rs t)) xs of
                  None \<Rightarrow> rs
                | Some t \<Rightarrow> rs(t := TRunner_Wakeup (rs t))) \<and>
    dll q' (tl (dropWhile (\<lambda>t. TRunner_Finished (rs t)) xs))"
  using il.pop_until_spec [OF assms, of "\<lambda>t. TRunner_Finished (rs t)"]
  by (auto simp: TRunnersQueue_WakeupNext_def split: option.splits)

theorem WakeupNext_wakes_first_unfinished_witness:
  "\<exists>q'. TRunnersQueue_WakeupNext
      (TRunnersQueue_Add 2 (TRunnersQueue_Add 1 (TRunnersQueue_Add (0::nat) TIntrusiveList)))
      ((\<lambda>_. TRunner_new)(2 := TRunner_Finish TRunner_new)) =
    Some (q', (\<lambda>_. TRunner_new)(2 := TRunner_Finish TRunner_new, 1 := TRunner_Wakeup TRunner_new)) \<and>
    dll q' [0]"
proof -
  have "dll (TRunnersQueue_Add 2 (TRunnersQueue_Add 1 (TRunnersQueue_Add (0::nat) TIntrusiveList)))
      [2, 1, 0]"
    by (simp add: TRunnersQueue_Add_def dll_Add dll_empty_list)
  from WakeupNext_wakes_first_unfinished
      [OF this, of "(\<lambda>_. TRunner_new)(2 := TRunner_Finish TRunner_new)"]
  show ?thesis by (simp add: TRunner_defs)
qed

text \<open>
  a runner that \<open>Finish\<close>ed stays finished only as long as nobody wakes it: \<open>Wakeup\<close> on a finished
  runner makes it unfinished again, and \<open>Wakeup\<close> on an unfinished one keeps it unfinished
  unless the 64-bit counter wraps at its last value.
\<close>

theorem Wakeup_Finished_iff:
  "TRunner_Finished (TRunner_Wakeup r) \<longleftrightarrow> Awakenings r = - 1"
  by (simp add: TRunner_defs eq_neg_iff_add_eq_0)

end
