(* ===== verification/Loop_Protocol.thy ===== *)
theory Loop_Protocol
  imports Runner
begin

text \<open>
  The threads that want to run one loop: \<open>TLoop::run\<close>, \<open>run_once\<close>, \<open>drain\<close>, \<open>RunnerSteal\<close> and
  \<open>RunLocked\<close> of src/execution/loop.cpp, with the wake-up lambda of \<open>sync_wait\<close> in
  include/uvexec/execution/loop.hpp. Every thread has its own \<open>TRunner\<close> on its stack and is
  called by its number, so the runner of thread \<open>t\<close> is \<open>rn s t\<close> and the waiting list holds thread
  numbers. A step of the system is a step of one thread: a lock operation with the accesses
  to lock-protected data that follow it, or one access to an atomic.

  \<open>uv_run\<close> is foreign: while a thread is in it, it may complete the operation of any \<open>sync_wait\<close> (the
  completion runs on the loop's thread), and it may return at any time.
\<close>

section \<open>The threads\<close>

datatype client = Run | RunOnce | Drain | StealRunner

datatype uv_run_mode = UV_RUN_DEFAULT | UV_RUN_ONCE | UV_RUN_NOWAIT

text \<open>The mode each client hands to \<open>RunLocked\<close>.\<close>

fun client_mode :: "client \<Rightarrow> uv_run_mode" where
  "client_mode Run = UV_RUN_DEFAULT"
| "client_mode RunOnce = UV_RUN_ONCE"
| "client_mode Drain = UV_RUN_NOWAIT"
| "client_mode StealRunner = UV_RUN_DEFAULT"

text \<open>
  Where a thread is: at the test of \<open>RunnerSteal\<close>'s loop, before the lock, at the test of \<open>Running\<close>
  with the lock held, in \<open>uv_run\<close>, between the two halves of a completion's wake-up, before the
  lock after \<open>uv_run\<close>, in the loop of \<open>WakeupNext\<close> (at its head, after a \<open>Pop\<close>, after the test of the
  popped runner), in \<open>Wait\<close> (before the first load, at its condition, asleep), before the
  lock after \<open>Wait\<close>, with that lock, and returned.
\<close>

datatype lpcs = Head | Start | Test | InUv uv_run_mode | FinStore uv_run_mode nat | Relock
  | WakeLoop | WakeTest nat | WakeFire nat
  | WaitLoad | WaitCheck "64 word" | Blocked "64 word" | EraseLock | EraseNow | Returned

text \<open>What \<open>uv_run\<close> does next: complete the operation of a \<open>sync_wait\<close>, or return a status.\<close>

datatype choice = Complete nat | UvReturn bool

text \<open>
  \<open>StopFlag\<close> is the flag that \<open>uv_stop\<close> sets, \<open>Result\<close> what \<open>run\<close> and its kind return. Two ghosts:
  \<open>Sent\<close>, the operations whose completion has begun, and \<open>Finished\<close>, those whose runner has
  been told.
\<close>

record lsys =
  Locked :: "nat option"
  Running :: bool
  Runners :: "nat ilist"
  StopFlag :: bool
  rn :: "nat \<Rightarrow> TRunner"
  lpos :: "nat \<Rightarrow> lpcs"
  Result :: "nat \<Rightarrow> bool"
  Sent :: "nat set"
  Finished :: "nat set"

definition goto :: "nat \<Rightarrow> lpcs \<Rightarrow> lsys \<Rightarrow> lsys" where
  "goto t p s = s\<lparr>lpos := (lpos s)(t := p)\<rparr>"

definition lock :: "nat \<Rightarrow> lsys \<Rightarrow> lsys option" where
  "lock t s = (if Locked s = None then Some (s\<lparr>Locked := Some t\<rparr>) else None)"

definition unlock :: "lsys \<Rightarrow> lsys" where
  "unlock s = s\<lparr>Locked := None\<rparr>"

text \<open>\<open>RunLocked\<close> up to \<open>uv_run\<close>, and from its return on.\<close>

definition RunLocked_enter :: "nat \<Rightarrow> uv_run_mode \<Rightarrow> lsys \<Rightarrow> lsys" where
  "RunLocked_enter t mode s = goto t (InUv mode) (unlock (s\<lparr>Running := True\<rparr>))"

definition RunLocked_leave :: "nat \<Rightarrow> lsys \<Rightarrow> lsys option" where
  "RunLocked_leave t s =
     map_option (\<lambda>s. goto t WakeLoop (s\<lparr>Running := False\<rparr>)) (lock t s)"

text \<open>The waiting branch: into the list and out of the lock; and, with the lock, out of the list.\<close>

definition wait_add :: "nat \<Rightarrow> lsys \<Rightarrow> lsys" where
  "wait_add t s = goto t WaitLoad (unlock (s\<lparr>Runners := TRunnersQueue_Add t (Runners s)\<rparr>))"

definition wait_erase :: "client \<Rightarrow> nat \<Rightarrow> lsys \<Rightarrow> lsys" where
  "wait_erase c t s =
     goto t (if c = StealRunner then Head else Start)
       (unlock (s\<lparr>Runners := TRunnersQueue_Erase t (Runners s)\<rparr>))"

text \<open>The first test with the lock held, in \<open>run\<close>, \<open>run_once\<close> and \<open>drain\<close>, and in \<open>RunnerSteal\<close>.\<close>

definition run_test :: "client \<Rightarrow> nat \<Rightarrow> lsys \<Rightarrow> lsys" where
  "run_test c t s =
     (if \<not> Running s then RunLocked_enter t (client_mode c) s else wait_add t s)"

definition RunnerSteal_test :: "nat \<Rightarrow> lsys \<Rightarrow> lsys" where
  "RunnerSteal_test t s =
     (if \<not> Running s then
        let (acq, r) = TRunner_AcquireIfNotFinished (rn s t);
            s = s\<lparr>rn := (rn s)(t := r)\<rparr>
        in if acq then RunLocked_enter t UV_RUN_DEFAULT s else goto t WakeLoop s
      else wait_add t s)"

text \<open>The end of a critical section after \<open>WakeupNext\<close>.\<close>

definition leave :: "client \<Rightarrow> nat \<Rightarrow> lsys \<Rightarrow> lsys" where
  "leave c t s = goto t (if c = StealRunner then Head else Returned) (unlock s)"

text \<open>The wake-up lambda of \<open>sync_wait\<close>: stop the loop if the waiting thread has acquired it, then
  finish its runner.\<close>

definition wakeup_stop :: "nat \<Rightarrow> lsys \<Rightarrow> lsys" where
  "wakeup_stop u s = (if TRunner_Acquired (rn s u) then s\<lparr>StopFlag := True\<rparr> else s)"

definition wakeup_finish :: "nat \<Rightarrow> lsys \<Rightarrow> lsys" where
  "wakeup_finish u s = s\<lparr>rn := (rn s)(u := TRunner_Finish (rn s u)), Finished := insert u (Finished s)\<rparr>"

text \<open>One step of thread \<open>t\<close>; \<open>None\<close> when it cannot move.\<close>

definition tstep :: "(nat \<Rightarrow> client) \<Rightarrow> nat \<Rightarrow> choice \<Rightarrow> lsys \<Rightarrow> lsys option" where
  "tstep cl t c s =
     (case lpos s t of
        Head \<Rightarrow> Some (goto t (if TRunner_Finished (rn s t) then Returned else Start) s)
      | Start \<Rightarrow> map_option (goto t Test) (lock t s)
      | Test \<Rightarrow> Some (if cl t = StealRunner then RunnerSteal_test t s else run_test (cl t) t s)
      | InUv mode \<Rightarrow>
          (case c of
             Complete u \<Rightarrow>
               if cl u = StealRunner \<and> u \<notin> Sent s
               then Some (goto t (FinStore mode u) (wakeup_stop u (s\<lparr>Sent := insert u (Sent s)\<rparr>)))
               else None
           | UvReturn b \<Rightarrow>
               Some (goto t Relock (s\<lparr>StopFlag := False, Result := (Result s)(t := b)\<rparr>)))
      | FinStore mode u \<Rightarrow> Some (goto t (InUv mode) (wakeup_finish u s))
      | Relock \<Rightarrow> RunLocked_leave t s
      | WakeLoop \<Rightarrow>
          if TIntrusiveList_Empty (Runners s) then Some (leave (cl t) t s)
          else map_option (\<lambda>(u, q). goto t (WakeTest u) (s\<lparr>Runners := q\<rparr>))
                 (TIntrusiveList_Pop (Runners s))
      | WakeTest u \<Rightarrow>
          Some (goto t (if \<not> TRunner_Finished (rn s u) then WakeFire u else WakeLoop) s)
      | WakeFire u \<Rightarrow> Some (leave (cl t) t (s\<lparr>rn := (rn s)(u := TRunner_Wakeup (rn s u))\<rparr>))
      | WaitLoad \<Rightarrow> Some (goto t (WaitCheck (TRunner_Wait_load (rn s t))) s)
      | WaitCheck w \<Rightarrow>
          Some (goto t (if TRunner_Wait_blocks w (rn s t) then Blocked w else EraseLock) s)
      | Blocked w \<Rightarrow>
          if TRunner_Wait_blocks w (rn s t) then None else Some (goto t (WaitCheck w) s)
      | EraseLock \<Rightarrow> map_option (goto t EraseNow) (lock t s)
      | EraseNow \<Rightarrow> Some (wait_erase (cl t) t s)
      | Returned \<Rightarrow> None)"

text \<open>
  The start: \<open>act\<close> are the threads that call the loop; \<open>pre\<close> those whose operation has completed
  inside \<open>stdexec::start\<close>, before \<open>RunnerSteal\<close> is called. Threads that do not take part have
  no operation to complete.
\<close>

definition lsys_init :: "(nat \<Rightarrow> client) \<Rightarrow> nat set \<Rightarrow> nat set \<Rightarrow> lsys" where
  "lsys_init cl act pre =
     \<lparr>Locked = None, Running = False, Runners = TIntrusiveList, StopFlag = False,
      rn = (\<lambda>t. if t \<in> pre then TRunner_Finish TRunner_new else TRunner_new),
      lpos = (\<lambda>t. if t \<notin> act then Returned else if cl t = StealRunner then Head else Start),
      Result = (\<lambda>_. False), Sent = pre \<union> (- act), Finished = pre\<rparr>"

fun lrun :: "(nat \<Rightarrow> client) \<Rightarrow> (nat \<times> choice) list \<Rightarrow> lsys \<Rightarrow> lsys option" where
  "lrun cl [] s = Some s"
| "lrun cl ((t, c) # sched) s = Option.bind (tstep cl t c s) (lrun cl sched)"

lemmas loop_defs = tstep_def goto_def lock_def unlock_def RunLocked_enter_def RunLocked_leave_def
  wait_add_def wait_erase_def run_test_def RunnerSteal_test_def leave_def wakeup_stop_def
  wakeup_finish_def

section \<open>The invariant\<close>

fun holds_lock :: "lpcs \<Rightarrow> bool" where
  "holds_lock Test = True"
| "holds_lock WakeLoop = True"
| "holds_lock (WakeTest u) = True"
| "holds_lock (WakeFire u) = True"
| "holds_lock EraseNow = True"
| "holds_lock _ = False"

fun in_uv :: "lpcs \<Rightarrow> bool" where
  "in_uv (InUv m) = True"
| "in_uv (FinStore m u) = True"
| "in_uv Relock = True"
| "in_uv _ = False"

fun waking :: "lpcs \<Rightarrow> bool" where
  "waking WakeLoop = True"
| "waking (WakeTest u) = True"
| "waking (WakeFire u) = True"
| "waking _ = False"

fun waiting :: "lpcs \<Rightarrow> bool" where
  "waiting WaitLoad = True"
| "waiting (WaitCheck w) = True"
| "waiting (Blocked w) = True"
| "waiting EraseLock = True"
| "waiting EraseNow = True"
| "waiting _ = False"

fun popped :: "lpcs \<Rightarrow> nat option" where
  "popped (WakeTest u) = Some u"
| "popped (WakeFire u) = Some u"
| "popped _ = None"

text \<open>A thread that will come to run the loop or find it running: not in the queue, not waiting for
  anyone but itself, its operation not finished.\<close>

fun on_its_way :: "lpcs \<Rightarrow> bool" where
  "on_its_way Head = True"
| "on_its_way Start = True"
| "on_its_way Test = True"
| "on_its_way p = waiting p"

text \<open>Mutual exclusion of the lock and of \<open>uv_run\<close>; nobody is in \<open>uv_run\<close> while the waiting list is
  being served.\<close>

definition mutex_inv :: "lsys \<Rightarrow> bool" where
  "mutex_inv s \<longleftrightarrow>
     (\<forall>t. holds_lock (lpos s t) \<longrightarrow> Locked s = Some t) \<and>
     (\<forall>t. Locked s = Some t \<longrightarrow> holds_lock (lpos s t)) \<and>
     (\<forall>t. in_uv (lpos s t) \<longrightarrow> Running s) \<and>
     (Running s \<longrightarrow> (\<exists>t. in_uv (lpos s t))) \<and>
     (\<forall>t u. in_uv (lpos s t) \<longrightarrow> in_uv (lpos s u) \<longrightarrow> t = u) \<and>
     (\<forall>t. waking (lpos s t) \<longrightarrow> \<not> Running s)"

definition queue_inv :: "lsys \<Rightarrow> nat list \<Rightarrow> bool" where
  "queue_inv s q \<longleftrightarrow> dll (Runners s) q \<and> (\<forall>t \<in> set q. waiting (lpos s t)) \<and>
     (\<forall>t u. popped (lpos s t) = Some u \<longrightarrow> waiting (lpos s u) \<and> u \<notin> set q)"

definition runner_inv :: "nat \<Rightarrow> lsys \<Rightarrow> bool" where
  "runner_inv n s \<longleftrightarrow>
     (\<forall>t. t \<in> Finished s \<longrightarrow> Awakenings (rn s t) = 0) \<and>
     (\<forall>t. t \<notin> Finished s \<longrightarrow>
        0 < unat (Awakenings (rn s t)) \<and> unat (Awakenings (rn s t)) \<le> Suc n) \<and>
     (\<forall>t u. lpos s t = WakeFire u \<longrightarrow> u \<notin> Finished s)"

definition client_inv :: "(nat \<Rightarrow> client) \<Rightarrow> nat set \<Rightarrow> lsys \<Rightarrow> bool" where
  "client_inv cl act s \<longleftrightarrow>
     (\<forall>t. lpos s t = Head \<longrightarrow> cl t = StealRunner) \<and>
     (\<forall>t \<in> act. lpos s t = Returned \<and> cl t = StealRunner \<longrightarrow> t \<in> Finished s) \<and>
     (\<forall>t \<in> Finished s. cl t = StealRunner) \<and>
     (\<forall>t m u. lpos s t = FinStore m u \<longrightarrow> cl u = StealRunner)"

definition token_inv :: "lsys \<Rightarrow> nat list \<Rightarrow> bool" where
  "token_inv s q \<longleftrightarrow> q = [] \<or> Running s \<or> (\<exists>t. waking (lpos s t)) \<or>
     (\<exists>u. on_its_way (lpos s u) \<and> u \<notin> set q \<and> u \<notin> Finished s)"

lemma tstep_cases:
  assumes "tstep cl t c s = Some s'"
  shows "lpos s' = (lpos s)(t := lpos s' t)"
    and "(if holds_lock (lpos s t)
          then Locked s' = (if holds_lock (lpos s' t) then Locked s else None)
          else if holds_lock (lpos s' t) then Locked s = None \<and> Locked s' = Some t
          else Locked s' = Locked s)"
    and "(if in_uv (lpos s t) \<and> \<not> in_uv (lpos s' t)
          then lpos s t = Relock \<and> \<not> Running s' \<and> waking (lpos s' t) \<and> Locked s = None
          else if in_uv (lpos s' t) \<and> \<not> in_uv (lpos s t) then lpos s t = Test \<and> \<not> Running s \<and> Running s'
          else Running s' = Running s)"
    and "waking (lpos s' t) \<Longrightarrow> waking (lpos s t) \<or> lpos s t = Relock \<or> lpos s t = Test \<and> \<not> Running s"
  using assms
  by (cases "lpos s t";
      auto simp: loop_defs Let_def TRunner_AcquireIfNotFinished_def split: if_splits choice.splits)+

lemma waking_holds_lock: "waking p \<Longrightarrow> holds_lock p"
  by (cases p) simp_all

lemma waking_not_in_uv: "waking p \<Longrightarrow> \<not> in_uv p"
  by (cases p) simp_all

lemma mutex_inv_step:
  assumes "mutex_inv s" "tstep cl t c s = Some s'"
  shows "mutex_inv s'"
proof -
  note st = tstep_cases [OF assms(2)]
  have other: "lpos s' u = lpos s u" if "u \<noteq> t" for u
    using fun_cong [OF st(1), of u] that by simp
  note inv = assms(1) [unfolded mutex_inv_def]
  have 1: "\<forall>u. holds_lock (lpos s' u) \<longrightarrow> Locked s' = Some u"
    using inv st(2) other by (metis option.inject option.distinct(1))
  have 2: "\<forall>u. Locked s' = Some u \<longrightarrow> holds_lock (lpos s' u)"
    using inv st(2) other by (metis option.inject option.distinct(1))
  have 3: "\<forall>u. in_uv (lpos s' u) \<longrightarrow> Running s'"
    using inv st(3) other by (metis (full_types))
  have 4: "Running s' \<longrightarrow> (\<exists>u. in_uv (lpos s' u))"
    using inv st(3) other by (metis (full_types))
  have 5: "\<forall>u v. in_uv (lpos s' u) \<longrightarrow> in_uv (lpos s' v) \<longrightarrow> u = v"
    using inv st(3) other by (metis (full_types))
  have 6: "\<forall>u. waking (lpos s' u) \<longrightarrow> \<not> Running s'"
  proof (intro allI impI)
    fix u assume w: "waking (lpos s' u)"
    show "\<not> Running s'"
    proof (cases "u = t")
      case True
      then show ?thesis
        using st(3,4) inv w waking_not_in_uv by (auto split: if_splits)
    next
      case False
      then have wu: "waking (lpos s u)" using other w by simp
      then have "Locked s = Some u" "\<not> Running s" using inv waking_holds_lock by blast+
      then have "\<not> holds_lock (lpos s t)" using inv False by (metis option.inject)
      then have "lpos s t \<noteq> Test" by auto
      then show ?thesis using st(3) \<open>\<not> Running s\<close> by metis
    qed
  qed
  show ?thesis unfolding mutex_inv_def using 1 2 3 4 5 6 by blast
qed

lemma mutex_invD:
  assumes "mutex_inv s"
  shows "holds_lock (lpos s t) \<Longrightarrow> holds_lock (lpos s u) \<Longrightarrow> t = u"
    and "waking (lpos s t) \<Longrightarrow> \<not> Running s"
    and "in_uv (lpos s t) \<Longrightarrow> Running s"
    and "in_uv (lpos s t) \<Longrightarrow> in_uv (lpos s u) \<Longrightarrow> t = u"
    and "holds_lock (lpos s t) \<Longrightarrow> Locked s = Some t"
    and "Locked s = Some t \<Longrightarrow> holds_lock (lpos s t)"
  using assms unfolding mutex_inv_def by (metis option.inject, blast+)

lemma tstep_queue:
  assumes "tstep cl t c s = Some s'"
  shows "Runners s' =
      (case lpos s t of
         Test \<Rightarrow> if Running s then TIntrusiveList_Add t (Runners s) else Runners s
       | EraseNow \<Rightarrow> TIntrusiveList_Erase t (Runners s)
       | WakeLoop \<Rightarrow> if TIntrusiveList_Empty (Runners s) then Runners s
                    else snd (the (TIntrusiveList_Pop (Runners s)))
       | _ \<Rightarrow> Runners s)"
    and "waiting (lpos s' t) \<longleftrightarrow>
      waiting (lpos s t) \<and> lpos s t \<noteq> EraseNow \<or> lpos s t = Test \<and> Running s"
    and "popped (lpos s' t) = Some u \<Longrightarrow>
      popped (lpos s t) = Some u \<or>
      lpos s t = WakeLoop \<and> TIntrusiveList_Pop (Runners s) = Some (u, Runners s')"
  using assms
  by (cases "lpos s t";
      auto simp: loop_defs Let_def TRunner_AcquireIfNotFinished_def TRunnersQueue_Add_def
        TRunnersQueue_Erase_def split: if_splits choice.splits)+

fun queue_next :: "bool \<Rightarrow> nat \<Rightarrow> lpcs \<Rightarrow> nat list \<Rightarrow> nat list" where
  "queue_next run t Test q = (if run then t # q else q)"
| "queue_next run t EraseNow q = remove1 t q"
| "queue_next run t WakeLoop q = tl q"
| "queue_next run t p q = q"

lemma set_tl_subset: "set (tl q) \<subseteq> set q"
  by (cases q) auto

lemma queue_inv_step:
  assumes "queue_inv s q" "mutex_inv s" "tstep cl t c s = Some s'"
  shows "queue_inv s' (queue_next (Running s) t (lpos s t) q)"
proof -
  note q = tstep_queue [OF assms(3)] and st = tstep_cases [OF assms(3)]
  let ?q = "queue_next (Running s) t (lpos s t) q"
  have other: "lpos s' u = lpos s u" if "u \<noteq> t" for u
    using fun_cong [OF st(1), of u] that by simp
  have dll: "dll (Runners s) q" and wait: "\<forall>t \<in> set q. waiting (lpos s t)"
    and pop: "\<And>v u. popped (lpos s v) = Some u \<Longrightarrow> waiting (lpos s u) \<and> u \<notin> set q"
    using assms(1) by (auto simp: queue_inv_def)
  have dq: "distinct q" using dll by (simp add: dll_def)
  have tq: "t \<notin> set q" if "\<not> waiting (lpos s t)" using wait that by blast
  have popr: "TIntrusiveList_Pop (Runners s) = Some (hd q, snd (the (TIntrusiveList_Pop (Runners s)))) \<and>
      dll (snd (the (TIntrusiveList_Pop (Runners s)))) (tl q)" if ne: "q \<noteq> []"
  proof -
    obtain x xs where x: "q = x # xs" using ne by (cases q) auto
    obtain l where "TIntrusiveList_Pop (Runners s) = Some (x, l)" "dll l xs"
      by (rule dll_Pop [OF dll [unfolded x]])
    then show ?thesis using x by simp
  qed
  have dll': "dll (Runners s') ?q"
  proof (cases "lpos s t")
    case WakeLoop
    then show ?thesis using q(1) popr dll il.rep_is_empty [OF dll] by (cases "q = []") auto
  qed (use q(1) dll tq il.rep_add [OF dll, of t] il.rep_erase [OF dll, of t] in auto)
  have sub: "set ?q \<subseteq> set q \<union> (if lpos s t = Test \<and> Running s then {t} else {})"
    using set_remove1_subset [of t q] set_tl_subset [of q] by (cases "lpos s t") auto
  have wait': "\<forall>u \<in> set ?q. waiting (lpos s' u)"
  proof
    fix u assume u: "u \<in> set ?q"
    show "waiting (lpos s' u)"
    proof (cases "u = t")
      case True
      moreover have "lpos s t \<noteq> EraseNow" using u True dq by auto
      ultimately show ?thesis using q(2) sub wait u by (auto split: if_splits)
    next
      case False
      then show ?thesis using other sub wait u by (auto split: if_splits)
    qed
  qed
  have pop': "waiting (lpos s' u) \<and> u \<notin> set ?q" if v: "popped (lpos s' v) = Some u" for v u
  proof -
    have wv: "waking (lpos s' v)" using v by (cases "lpos s' v") auto
    have "waiting (lpos s u) \<and> u \<notin> set ?q \<and> u \<noteq> v \<and> (v = t \<or> popped (lpos s v) = Some u \<and> v \<noteq> t)"
    proof (cases "v = t")
      case True
      from q(3) [OF v [unfolded True]] show ?thesis
      proof
        assume p: "popped (lpos s t) = Some u"
        then have "?q = q" "\<not> waiting (lpos s t)" by (cases "lpos s t"; simp)+
        then show ?thesis using pop [OF p] True by auto
      next
        assume p: "lpos s t = WakeLoop \<and> TIntrusiveList_Pop (Runners s) = Some (u, Runners s')"
        then have "q \<noteq> []" using dll by (auto simp: TIntrusiveList_Pop_def dll_def)
        then have "u = hd q" using popr p by auto
        moreover from \<open>q \<noteq> []\<close> have "hd q \<in> set q" "hd q \<notin> set (tl q)"
          using dq by (cases q; simp)+
        ultimately show ?thesis using p wait tq True by auto
      qed
    next
      case False
      then have p: "popped (lpos s v) = Some u" using v other by simp
      then have "waking (lpos s v)" by (cases "lpos s v") auto
      then have "\<not> holds_lock (lpos s t)"
        using mutex_invD(1) [OF assms(2), of v t] waking_holds_lock False by blast
      then have "?q = q" by (cases "lpos s t") auto
      moreover have "u \<noteq> v"
        using pop [OF p] \<open>waking (lpos s v)\<close> by (cases "lpos s v") auto
      ultimately show ?thesis using pop [OF p] False p by simp
    qed
    moreover have "waiting (lpos s' u)" if "waiting (lpos s u)" "u \<noteq> v" "v = t \<or> popped (lpos s v) = Some u \<and> v \<noteq> t"
    proof (cases "u = t")
      case True
      then have p: "popped (lpos s v) = Some u" "v \<noteq> t" using that by auto
      then have "holds_lock (lpos s v)" by (cases "lpos s v") auto
      then have "lpos s t \<noteq> EraseNow" using mutex_invD(1) [OF assms(2), of v t] p(2) by auto
      then show ?thesis using q(2) that True by auto
    next
      case False
      then show ?thesis using other that by simp
    qed
    ultimately show ?thesis by blast
  qed
  show ?thesis unfolding queue_inv_def using dll' wait' pop' by blast
qed

lemma tstep_rn:
  assumes "tstep cl t c s = Some s'"
  shows "Awakenings (rn s' u) =
      (if lpos s t = WakeFire u then Awakenings (rn s u) + 1
       else if \<exists>m. lpos s t = FinStore m u then 0 else Awakenings (rn s u))"
    and "u \<in> Finished s' \<longleftrightarrow> u \<in> Finished s \<or> (\<exists>m. lpos s t = FinStore m u)"
    and "lpos s' t = WakeFire u \<Longrightarrow> lpos s t = WakeTest u \<and> Awakenings (rn s u) \<noteq> 0"
    and "lpos s' t = Head \<Longrightarrow> cl t = StealRunner"
    and "lpos s' t = Returned \<Longrightarrow> cl t = StealRunner \<Longrightarrow> lpos s t = Head \<and> Awakenings (rn s t) = 0"
    and "lpos s' t = FinStore m u \<Longrightarrow> cl u = StealRunner"
  using assms
  by (cases "lpos s t";
      auto simp: loop_defs Let_def TRunner_defs split: if_splits choice.splits option.splits)+

lemma unat_plus_one: "unat a + 1 < 2 ^ 64 \<Longrightarrow> unat (a + 1) = unat a + 1" for a :: "64 word"
  using unat_add_lem [of a 1] by simp

lemma runner_inv_step:
  assumes "runner_inv n s" "mutex_inv s" "tstep cl t c s = Some s'" "n + 2 < 2 ^ 64"
  shows "runner_inv (Suc n) s'"
proof -
  note rn = tstep_rn [OF assms(3)] and st = tstep_cases [OF assms(3)]
  have other: "lpos s' u = lpos s u" if "u \<noteq> t" for u
    using fun_cong [OF st(1), of u] that by simp
  have fin: "u \<in> Finished s \<Longrightarrow> Awakenings (rn s u) = 0"
    and aw: "u \<notin> Finished s \<Longrightarrow>
      0 < unat (Awakenings (rn s u)) \<and> unat (Awakenings (rn s u)) \<le> Suc n"
    and fire: "lpos s v = WakeFire u \<Longrightarrow> u \<notin> Finished s" for u v
    using assms(1) unfolding runner_inv_def by blast+
  have 1: "Awakenings (rn s' u) = 0" if "u \<in> Finished s'" for u
  proof (cases "lpos s t = WakeFire u")
    case True
    then show ?thesis using fire [OF True] rn(2) [of u] that by simp
  next
    case False
    then show ?thesis using rn(1,2) [of u] that fin [of u] by auto
  qed
  have 2: "0 < unat (Awakenings (rn s' u)) \<and> unat (Awakenings (rn s' u)) \<le> Suc (Suc n)"
    if "u \<notin> Finished s'" for u
  proof -
    have u: "u \<notin> Finished s" "\<not> (\<exists>m. lpos s t = FinStore m u)" using that rn(2) [of u] by auto
    show ?thesis
    proof (cases "lpos s t = WakeFire u")
      case True
      then have "unat (Awakenings (rn s' u)) = unat (Awakenings (rn s u)) + 1"
        using rn(1) [of u] aw [OF u(1)] assms(4) by (simp add: unat_plus_one)
      then show ?thesis using aw [OF u(1)] by simp
    next
      case False
      then show ?thesis using rn(1) [of u] u aw [OF u(1)] by auto
    qed
  qed
  have 3: "u \<notin> Finished s'" if "lpos s' v = WakeFire u" for u v
  proof (cases "v = t")
    case True
    then have "lpos s t = WakeTest u" "u \<notin> Finished s" using rn(3) [of u] that fin [of u] by auto
    then show ?thesis using rn(2) [of u] by simp
  next
    case False
    then have p: "lpos s v = WakeFire u" using other that by simp
    then have "\<not> Running s" using mutex_invD(2) [OF assms(2), of v] by simp
    then have "\<not> in_uv (lpos s t)" using mutex_invD(3) [OF assms(2)] by blast
    then show ?thesis using rn(2) [of u] fire [OF p] by auto
  qed
  show ?thesis unfolding runner_inv_def using 1 2 3 by blast
qed

lemma client_inv_step:
  assumes "client_inv cl act s" "runner_inv n s" "tstep cl t c s = Some s'"
  shows "client_inv cl act s'"
proof -
  note rn = tstep_rn [OF assms(3)] and st = tstep_cases [OF assms(3)]
  have pos: "lpos s' u = (if u = t then lpos s' t else lpos s u)" for u
    using fun_cong [OF st(1), of u] by simp
  have fin: "t \<in> Finished s" if "Awakenings (rn s t) = 0"
    using assms(2) that unfolding runner_inv_def by (metis less_irrefl unat_0)
  have c1: "lpos s u = Head \<Longrightarrow> cl u = StealRunner"
    and c2: "u \<in> act \<Longrightarrow> lpos s u = Returned \<Longrightarrow> cl u = StealRunner \<Longrightarrow> u \<in> Finished s"
    and c3: "u \<in> Finished s \<Longrightarrow> cl u = StealRunner"
    and c4: "lpos s v = FinStore m u \<Longrightarrow> cl u = StealRunner" for u v m
    using assms(1) unfolding client_inv_def by blast+
  have 1: "cl u = StealRunner" if "lpos s' u = Head" for u
    using pos [of u] rn(4) c1 that by (metis (full_types))
  have 2: "u \<in> Finished s'" if "u \<in> act" "lpos s' u = Returned" "cl u = StealRunner" for u
    using pos [of u] rn(2) [of u] rn(5) c2 fin that by (metis (full_types))
  have 3: "cl u = StealRunner" if "u \<in> Finished s'" for u
    using rn(2) [of u] c3 c4 that by blast
  have 4: "cl u = StealRunner" if "lpos s' v = FinStore m u" for u v m
    using pos [of v] rn(6) [of m u] c4 that by (metis (full_types))
  show ?thesis unfolding client_inv_def using 1 2 3 4 by blast
qed

lemma tstep_on_its_way:
  assumes "tstep cl t c s = Some s'" "lpos s t \<noteq> Test"
  shows "on_its_way (lpos s t) \<Longrightarrow>
      on_its_way (lpos s' t) \<or> lpos s t = Head \<and> Awakenings (rn s t) = 0"
    and "waking (lpos s t) \<Longrightarrow>
      waking (lpos s' t) \<or> lpos s t = WakeLoop \<and> TIntrusiveList_Empty (Runners s) \<or>
      (\<exists>u. lpos s t = WakeFire u)"
  using assms
  by (cases "lpos s t";
      auto simp: loop_defs Let_def TRunner_defs split: if_splits choice.splits option.splits)+

lemma tstep_test:
  assumes "tstep cl t c s = Some s'" "lpos s t = Test"
  shows "Running s' \<or> waking (lpos s' t)"
  using assms
  by (auto simp: loop_defs Let_def TRunner_defs split: if_splits)

lemma token_inv_step:
  assumes "token_inv s q" "queue_inv s q" "mutex_inv s" "runner_inv n s"
    and "tstep cl t c s = Some s'"
  shows "token_inv s' (queue_next (Running s) t (lpos s t) q)"
proof -
  note rn = tstep_rn [OF assms(5)] and st = tstep_cases [OF assms(5)]
    and way = tstep_on_its_way [OF assms(5)]
  let ?q = "queue_next (Running s) t (lpos s t) q"
  have other: "lpos s' u = lpos s u" if "u \<noteq> t" for u
    using fun_cong [OF st(1), of u] that by simp
  have fin: "u \<in> Finished s" if "Awakenings (rn s u) = 0" for u
    using assms(4) that unfolding runner_inv_def by (metis less_irrefl unat_0)
  show ?thesis
  proof (cases "in_uv (lpos s t) \<or> lpos s t = Test")
    case True
    then have "Running s' \<or> waking (lpos s' t)"
      using st(3) mutex_invD(3) [OF assms(3), of t] tstep_test [OF assms(5)]
      by (metis (full_types))
    then show ?thesis unfolding token_inv_def by blast
  next
    case False
    then have nt: "lpos s t \<noteq> Test" and nu: "\<not> in_uv (lpos s t)" by simp_all
    have run: "Running s' = Running s" using st(3) nt nu by metis
    have "\<not> (\<exists>m. lpos s t = FinStore m u)" for u using nu by auto
    then have fs: "Finished s' = Finished s" using rn(2) by blast
    have sub: "set ?q \<subseteq> set q"
      using nt set_remove1_subset [of t q] set_tl_subset [of q] by (cases "lpos s t") auto
    from assms(1) consider "q = []" | "Running s" | v where "waking (lpos s v)"
      | u where "on_its_way (lpos s u)" "u \<notin> set q" "u \<notin> Finished s"
      unfolding token_inv_def by blast
    then show ?thesis
    proof cases
      case 1
      then show ?thesis using sub unfolding token_inv_def by auto
    next
      case 2
      then show ?thesis using run unfolding token_inv_def by simp
    next
      case 3
      show ?thesis
      proof (cases "v = t")
        case True
        from way(2) [OF nt 3 [unfolded True]] consider "waking (lpos s' t)"
          | "lpos s t = WakeLoop" "TIntrusiveList_Empty (Runners s)" | u where "lpos s t = WakeFire u"
          by blast
        then show ?thesis
        proof cases
          case 1
          then show ?thesis unfolding token_inv_def by blast
        next
          case 2
          then have "q = []" using assms(2) il.rep_is_empty unfolding queue_inv_def by blast
          then show ?thesis using sub unfolding token_inv_def by auto
        next
          case 3
          then have "popped (lpos s t) = Some u" by simp
          then have u: "waiting (lpos s u)" "u \<notin> set q" "u \<notin> Finished s"
            using 3 assms(2,4) unfolding queue_inv_def runner_inv_def by blast+
          then have "u \<noteq> t" using 3 by auto
          then have "on_its_way (lpos s' u)" using u(1) other by (cases "lpos s u") auto
          then show ?thesis using u sub fs unfolding token_inv_def by blast
        qed
      next
        case False
        then show ?thesis using 3 other unfolding token_inv_def by metis
      qed
    next
      case 4
      then have "on_its_way (lpos s' u)"
        using way(1) [OF nt] other fin by metis
      then show ?thesis using 4 sub fs unfolding token_inv_def by blast
    qed
  qed
qed

section \<open>Reachable states\<close>

text \<open>\<open>lreach cl act pre n s\<close>: the state \<open>s\<close> is reached in \<open>n\<close> steps.\<close>

definition lreach :: "(nat \<Rightarrow> client) \<Rightarrow> nat set \<Rightarrow> nat set \<Rightarrow> nat \<Rightarrow> lsys \<Rightarrow> bool" where
  "lreach cl act pre n s \<longleftrightarrow> pre \<subseteq> {t \<in> act. cl t = StealRunner} \<and>
     (\<exists>sched. length sched = n \<and> lrun cl sched (lsys_init cl act pre) = Some s)"

definition stuck :: "(nat \<Rightarrow> client) \<Rightarrow> lsys \<Rightarrow> bool" where
  "stuck cl s \<longleftrightarrow> (\<forall>t c. tstep cl t c s = None)"

definition lsys_inv :: "(nat \<Rightarrow> client) \<Rightarrow> nat set \<Rightarrow> nat \<Rightarrow> lsys \<Rightarrow> bool" where
  "lsys_inv cl act n s \<longleftrightarrow> mutex_inv s \<and> (\<exists>q. queue_inv s q \<and> token_inv s q) \<and>
     runner_inv n s \<and> client_inv cl act s"

lemma lrun_append: "lrun cl (xs @ ys) s = Option.bind (lrun cl xs s) (lrun cl ys)"
  by (induction xs arbitrary: s) (auto split: bind_split)

lemma lsys_inv_init:
  assumes "pre \<subseteq> {t \<in> act. cl t = StealRunner}"
  shows "lsys_inv cl act 0 (lsys_init cl act pre)"
proof -
  let ?s = "lsys_init cl act pre"
  have p: "lpos ?s t \<in> {Head, Start, Returned}" for t by (simp add: lsys_init_def)
  have no: "\<not> holds_lock (lpos ?s t) \<and> \<not> in_uv (lpos ?s t) \<and> \<not> waking (lpos ?s t) \<and>
      popped (lpos ?s t) = None \<and> (\<forall>m u. lpos ?s t \<noteq> FinStore m u) \<and> (\<forall>u. lpos ?s t \<noteq> WakeFire u)"
    for t
    using p [of t] by auto
  have "mutex_inv ?s" unfolding mutex_inv_def using no by (simp add: lsys_init_def)
  moreover have "queue_inv ?s []"
    unfolding queue_inv_def using no by (simp add: lsys_init_def dll_empty_list)
  moreover have "token_inv ?s []" by (simp add: token_inv_def)
  moreover have "runner_inv 0 ?s"
    unfolding runner_inv_def using no by (auto simp: lsys_init_def TRunner_defs)
  moreover have "client_inv cl act ?s"
    unfolding client_inv_def using no assms by (auto simp: lsys_init_def)
  ultimately show ?thesis unfolding lsys_inv_def by blast
qed

lemma lsys_inv_step:
  assumes "lsys_inv cl act n s" "tstep cl t c s = Some s'" "n + 2 < 2 ^ 64"
  shows "lsys_inv cl act (Suc n) s'"
proof -
  obtain q where q: "queue_inv s q" "token_inv s q" using assms(1) unfolding lsys_inv_def by blast
  have m: "mutex_inv s" and r: "runner_inv n s" and c: "client_inv cl act s"
    using assms(1) unfolding lsys_inv_def by blast+
  show ?thesis
    unfolding lsys_inv_def
    using mutex_inv_step [OF m assms(2)] queue_inv_step [OF q(1) m assms(2)]
      token_inv_step [OF q(2,1) m r assms(2)] runner_inv_step [OF r m assms(2,3)]
      client_inv_step [OF c r assms(2)] by blast
qed

lemma lsys_inv_run:
  assumes "lsys_inv cl act n s" "lrun cl sched s = Some s'" "n + length sched + 2 \<le> 2 ^ 64"
  shows "lsys_inv cl act (n + length sched) s'"
  using assms
proof (induction sched arbitrary: n s)
  case (Cons x sched)
  obtain t c where x: "x = (t, c)" by (cases x)
  obtain s1 where s1: "tstep cl t c s = Some s1" "lrun cl sched s1 = Some s'"
    using Cons.prems(2) x by (cases "tstep cl t c s") auto
  have "lsys_inv cl act (Suc n) s1"
    using lsys_inv_step [OF Cons.prems(1) s1(1)] Cons.prems(3) by simp
  from Cons.IH [OF this s1(2)] show ?case using Cons.prems(3) by simp
qed simp

lemma lreach_inv:
  assumes "lreach cl act pre n s" "n + 2 \<le> 2 ^ 64"
  shows "lsys_inv cl act n s"
  using assms lsys_inv_run [OF lsys_inv_init, of pre act cl _ s] unfolding lreach_def by auto

lemma lsys_inv_stuck:
  assumes "lsys_inv cl act n s" "stuck cl s" "lpos s t \<noteq> Returned"
  shows "\<exists>u w. lpos s u = Blocked w \<and> u \<notin> Finished s \<and> Awakenings (rn s u) = w \<and>
    (\<forall>q. dll (Runners s) q \<longrightarrow> u \<notin> set q)"
proof -
  have st: "tstep cl u c s = None" for u c using assms(2) unfolding stuck_def by blast
  have m: "mutex_inv s" using assms(1) unfolding lsys_inv_def by blast
  obtain q where q: "queue_inv s q" "token_inv s q" using assms(1) unfolding lsys_inv_def by blast
  have r: "runner_inv n s" using assms(1) unfolding lsys_inv_def by blast
  have dq: "dll (Runners s) q" using q(1) unfolding queue_inv_def by blast
  have own: "\<not> holds_lock (lpos s u)" for u
  proof
    assume h: "holds_lock (lpos s u)"
    have "TIntrusiveList_Empty (Runners s) \<or> (\<exists>x l. TIntrusiveList_Pop (Runners s) = Some (x, l))"
      by (simp add: TIntrusiveList_Empty_def TIntrusiveList_Pop_def split: option.splits)
    then show False using st [of u] h by (cases "lpos s u") (auto simp: tstep_def split: if_splits)
  qed
  have free: "Locked s = None" using mutex_invD(6) [OF m] own by (cases "Locked s") auto
  have pos: "lpos s u = Returned \<or> (\<exists>w. lpos s u = Blocked w \<and> TRunner_Wait_blocks w (rn s u))" for u
    using st [of u "UvReturn False"] own [of u] free
    by (cases "lpos s u") (auto simp: tstep_def lock_def RunLocked_leave_def split: if_splits)
  have nrun: "\<not> Running s"
    using m pos in_uv.simps unfolding mutex_inv_def by metis
  have nw: "\<not> waking (lpos s u)" for u using pos [of u] by auto
  have blk: "u \<notin> Finished s \<and> Awakenings (rn s u) = w" if "lpos s u = Blocked w" for u w
    using pos [of u] that r unfolding runner_inv_def TRunner_Wait_blocks_def by auto
  show ?thesis
  proof (cases "q = []")
    case True
    obtain w where "lpos s t = Blocked w" using pos [of t] assms(3) by auto
    then show ?thesis using blk True dq dll_unique by (metis empty_iff list.set(1))
  next
    case False
    then obtain u where u: "on_its_way (lpos s u)" "u \<notin> set q"
      using q(2) nrun nw unfolding token_inv_def by blast
    then obtain w where "lpos s u = Blocked w" using pos [of u] by auto
    then show ?thesis using blk u dq dll_unique by metis
  qed
qed

section \<open>Lost wake-ups\<close>

text \<open>
  \<open>woken_too_early cl s0 sched u w\<close>: in the run \<open>sched\<close> from \<open>s0\<close> some step of another thread raised the counter of thread \<open>u\<close> to \<open>w\<close> while
  \<open>u\<close> had entered the waiting list and released the lock, but not loaded its counter. \<open>watched\<close>: the value a waiting thread compares
  its counter with, which is the counter itself until it is loaded.
\<close>

definition woken_too_early :: "(nat \<Rightarrow> client) \<Rightarrow> lsys \<Rightarrow> (nat \<times> choice) list \<Rightarrow> nat \<Rightarrow> 64 word \<Rightarrow> bool" where
  "woken_too_early cl s0 sched u w \<longleftrightarrow>
     (\<exists>xs v c ys m m'. sched = xs @ (v, c) # ys \<and> lrun cl xs s0 = Some m \<and> tstep cl v c m = Some m' \<and> v \<noteq> u \<and>
        lpos m u = WaitLoad \<and> lpos m' u = WaitLoad \<and>
        Awakenings (rn m' u) = Awakenings (rn m u) + 1 \<and> Awakenings (rn m' u) = w)"

lemma woken_append: "woken_too_early cl s0 sched u w \<Longrightarrow> woken_too_early cl s0 (sched @ zs) u w"
  unfolding woken_too_early_def by fastforce

fun watched :: "lpcs \<Rightarrow> 64 word \<Rightarrow> 64 word option" where
  "watched WaitLoad a = Some a"
| "watched (WaitCheck w) a = Some w"
| "watched (Blocked w) a = Some w"
| "watched p a = None"

definition lost_inv :: "(nat \<Rightarrow> client) \<Rightarrow> lsys \<Rightarrow> (nat \<times> choice) list \<Rightarrow> lsys \<Rightarrow> nat list \<Rightarrow> bool" where
  "lost_inv cl s0 sched s q \<longleftrightarrow>
     (\<forall>u w. u \<notin> Finished s \<longrightarrow> watched (lpos s u) (Awakenings (rn s u)) = Some w \<longrightarrow>
        unat w \<le> unat (Awakenings (rn s u)) \<and>
        (Awakenings (rn s u) = w \<and> u \<notin> set q \<and> (\<forall>v. popped (lpos s v) \<noteq> Some u) \<longrightarrow>
           woken_too_early cl s0 sched u w))"

lemma tstep_watched:
  assumes "tstep cl t c s = Some s'" "watched (lpos s' t) (Awakenings (rn s' t)) = Some w"
  shows "watched (lpos s t) (Awakenings (rn s t)) = Some w \<and> queue_next (Running s) t (lpos s t) q = q \<or>
    w = Awakenings (rn s' t) \<and> t \<in> set (queue_next (Running s) t (lpos s t) q)"
  using assms
  by (cases "lpos s t"; auto simp: loop_defs Let_def TRunner_defs split: if_splits choice.splits option.splits)+

lemma tstep_popped:
  assumes "tstep cl t c s = Some s'" "popped (lpos s t) = Some u"
  shows "popped (lpos s' t) = Some u \<or> Awakenings (rn s u) = 0 \<or> lpos s t = WakeFire u"
  using assms
  by (cases "lpos s t"; auto simp: loop_defs Let_def TRunner_defs split: if_splits)

lemma queue_next_leaves:
  assumes "tstep cl t c s = Some s'" "queue_inv s q" "u \<in> set q" "u \<notin> set (queue_next (Running s) t (lpos s t) q)" "u \<noteq> t"
  shows "popped (lpos s' t) = Some u"
proof (cases "lpos s t")
  case WakeLoop
  then have "q \<noteq> []" "u = hd q" using assms(3,4) by (cases q; auto)+
  then obtain xs where q: "q = u # xs" by (cases q) auto
  have d: "dll (Runners s) (u # xs)" using assms(2) q by (simp add: queue_inv_def)
  obtain l where "TIntrusiveList_Pop (Runners s) = Some (u, l)" by (rule dll_Pop [OF d])
  moreover have "\<not> TIntrusiveList_Empty (Runners s)" using il.rep_is_empty [OF d] by simp
  ultimately show ?thesis using assms(1) WakeLoop by (auto simp: tstep_def goto_def)
qed (use assms in \<open>auto split: if_splits\<close>)

lemma lost_inv_step:
  assumes inv: "lsys_inv cl act n s" and q: "queue_inv s q" and l: "lost_inv cl s0 sched s q"
    and run: "lrun cl sched s0 = Some s" and st: "tstep cl t c s = Some s'" and n: "n + 2 < 2 ^ 64"
  shows "lost_inv cl s0 (sched @ [(t, c)]) s' (queue_next (Running s) t (lpos s t) q)"
  unfolding lost_inv_def
proof (intro allI impI)
  fix u w
  let ?q = "queue_next (Running s) t (lpos s t) q" and ?a = "Awakenings (rn s u)" and ?a' = "Awakenings (rn s' u)"
  let ?out = "\<lambda>s q. u \<notin> set q \<and> (\<forall>v. popped (lpos s v) \<noteq> Some u)"
  assume nf: "u \<notin> Finished s'" and w: "watched (lpos s' u) ?a' = Some w"
  note rn = tstep_rn [OF st]
  have f: "u \<notin> Finished s" "\<not> (\<exists>m. lpos s t = FinStore m u)" using nf rn(2) [of u] by auto
  have r: "runner_inv n s" using inv by (simp add: lsys_inv_def)
  then have a: "0 < unat ?a" "unat ?a \<le> Suc n" using f(1) unfolding runner_inv_def by auto
  have other: "lpos s' v = lpos s v" if "v \<noteq> t" for v
    using fun_cong [OF tstep_cases(1) [OF st], of v] that by simp
  have old: "unat w \<le> unat ?a \<and> (?a = w \<and> ?out s q \<longrightarrow> woken_too_early cl s0 sched u w)"
    if "watched (lpos s u) ?a = Some w" using l f(1) that unfolding lost_inv_def by blast
  show "unat w \<le> unat ?a' \<and> (?a' = w \<and> ?out s' ?q \<longrightarrow> woken_too_early cl s0 (sched @ [(t, c)]) u w)"
  proof (cases "lpos s t = WakeFire u")
    case True
    then have "waiting (lpos s u)" using q unfolding queue_inv_def by (metis popped.simps(2))
    then have ut: "u \<noteq> t" using True by auto
    have up: "?a' = ?a + 1" "unat ?a' = unat ?a + 1" using rn(1) [of u] True a n by (simp_all add: unat_plus_one)
    show ?thesis
    proof (cases "lpos s u = WaitLoad")
      case load: True
      then have "w = ?a'" using w other ut by simp
      moreover have "woken_too_early cl s0 (sched @ [(t, c)]) u ?a'"
        unfolding woken_too_early_def using run st load other [OF ut] up(1) ut by (intro exI [of _ sched]) auto
      ultimately show ?thesis by simp
    next
      case False
      then have "watched (lpos s u) ?a = Some w" using w other [OF ut] by (cases "lpos s u") auto
      then have "unat w < unat ?a'" using old up(2) by simp
      then show ?thesis by auto
    qed
  next
    case nofire: False
    then have same: "?a' = ?a" using rn(1) [of u] f(2) by auto
    have out: "?out s q" if o: "?out s' ?q" and uq: "u = t \<longrightarrow> ?q = q"
    proof -
      have "u \<notin> set q" using queue_next_leaves [OF st q, of u] o uq by metis
      moreover have "popped (lpos s v) \<noteq> Some u" for v
      proof (cases "v = t")
        case True
        then show ?thesis using tstep_popped [OF st, of u] o nofire a(1) by auto
      next
        case False
        then show ?thesis using other o by metis
      qed
      ultimately show ?thesis by blast
    qed
    show ?thesis
    proof (cases "u = t")
      case True
      show ?thesis
        using tstep_watched [OF st, of w q] w old out woken_append same True by auto
    next
      case False
      then have "watched (lpos s u) ?a = Some w" using w other same by simp
      then show ?thesis using old out False same woken_append by auto
    qed
  qed
qed

lemma lost_inv_run:
  assumes "lsys_inv cl act (length pre) s" "queue_inv s q" "lost_inv cl s0 pre s q" "lrun cl pre s0 = Some s"
    and "lrun cl sched s = Some s'" "length pre + length sched + 2 \<le> 2 ^ 64"
  shows "\<exists>q. queue_inv s' q \<and> lost_inv cl s0 (pre @ sched) s' q"
  using assms
proof (induction sched arbitrary: pre s q)
  case (Cons x sched)
  obtain t c where x: "x = (t, c)" by (cases x)
  obtain s1 where s1: "tstep cl t c s = Some s1" "lrun cl sched s1 = Some s'"
    using Cons.prems(5) x by (cases "tstep cl t c s") auto
  let ?q = "queue_next (Running s) t (lpos s t) q"
  have n: "length pre + 2 < 2 ^ 64" using Cons.prems(6) by simp
  have run: "lrun cl (pre @ [(t, c)]) s0 = Some s1"
    using lrun_append [of cl pre "[(t, c)]" s0] Cons.prems(4) s1(1) by simp
  have "lsys_inv cl act (length (pre @ [(t, c)])) s1" using lsys_inv_step [OF Cons.prems(1) s1(1) n] by simp
  moreover have "queue_inv s1 ?q"
    using queue_inv_step [OF Cons.prems(2) _ s1(1)] Cons.prems(1) by (simp add: lsys_inv_def)
  moreover have "lost_inv cl s0 (pre @ [(t, c)]) s1 ?q"
    by (rule lost_inv_step [OF Cons.prems(1,2,3,4) s1(1) n])
  ultimately show ?case using Cons.IH [OF _ _ _ run s1(2)] Cons.prems(6) x by auto
qed auto

lemma deadlock_lost:
  assumes "pre \<subseteq> {t \<in> act. cl t = StealRunner}" "lrun cl sched (lsys_init cl act pre) = Some s"
    and "length sched + 2 \<le> 2 ^ 64" "stuck cl s" "lpos s t \<noteq> Returned"
  shows "\<exists>u w. lpos s u = Blocked w \<and> u \<notin> Finished s \<and> Awakenings (rn s u) = w \<and>
    (\<forall>q. dll (Runners s) q \<longrightarrow> u \<notin> set q) \<and> woken_too_early cl (lsys_init cl act pre) sched u w"
proof -
  let ?i = "lsys_init cl act pre"
  have i: "lsys_inv cl act 0 ?i" by (rule lsys_inv_init [OF assms(1)])
  have p: "lpos ?i u \<in> {Head, Start, Returned}" for u by (simp add: lsys_init_def)
  then have w: "watched (lpos ?i u) a = None" for u a by (metis empty_iff insert_iff watched.simps)
  obtain q0 where q0: "queue_inv ?i q0" using i by (auto simp: lsys_inv_def)
  have l0: "lost_inv cl ?i [] ?i q0" unfolding lost_inv_def using w by simp
  obtain q where q: "queue_inv s q" "lost_inv cl ?i sched s q"
    using lost_inv_run [of cl act "[]" ?i q0 ?i sched s] i q0 l0 assms(2,3) by auto
  have inv: "lsys_inv cl act (length sched) s" using lsys_inv_run [OF i assms(2)] assms(3) by simp
  obtain u w where u: "lpos s u = Blocked w" "u \<notin> Finished s" "Awakenings (rn s u) = w"
    "\<forall>q. dll (Runners s) q \<longrightarrow> u \<notin> set q" using lsys_inv_stuck [OF inv assms(4,5)] by blast
  have "popped (lpos s v) \<noteq> Some u" for v
  proof
    assume v: "popped (lpos s v) = Some u"
    have "tstep cl v (UvReturn False) s = None" using assms(4) by (simp add: stuck_def)
    then show False using v by (cases "lpos s v") (simp_all add: tstep_def)
  qed
  moreover have "u \<notin> set q" using u(4) q(1) by (simp add: queue_inv_def)
  ultimately have "woken_too_early cl ?i sched u w" using q(2) u(1-3) unfolding lost_inv_def by simp
  then show ?thesis using u by blast
qed

section \<open>Properties\<close>

text \<open>
  C9: at most one thread is inside \<open>uv_run\<close> on the loop, \<open>Running\<close> says whether one is, and no thread is
  inside while another serves the waiting list; at most one thread holds the lock.
\<close>

theorem loop_is_run_by_one_thread:
  assumes "lreach cl act pre n s" "n + 2 \<le> 2 ^ 64"
  shows "(Running s \<longleftrightarrow> (\<exists>t. in_uv (lpos s t))) \<and>
    (\<forall>t u. in_uv (lpos s t) \<and> in_uv (lpos s u) \<longrightarrow> t = u) \<and>
    (\<forall>t u. waking (lpos s t) \<longrightarrow> \<not> in_uv (lpos s u)) \<and>
    (\<forall>t u. holds_lock (lpos s t) \<and> holds_lock (lpos s u) \<longrightarrow> t = u)"
proof -
  have m: "mutex_inv s" using lreach_inv [OF assms] unfolding lsys_inv_def by blast
  then have "Running s \<longrightarrow> (\<exists>t. in_uv (lpos s t))" unfolding mutex_inv_def by blast
  then show ?thesis using mutex_invD [OF m] by metis
qed

text \<open>Two threads: thread 0 runs the loop once, thread 1 waits for it.\<close>

definition two_runs :: "(nat \<times> choice) list" where
  "two_runs = map (\<lambda>t. (t, UvReturn True)) [0, 0, 1, 1]"

definition loop_run :: "(nat \<Rightarrow> client) \<Rightarrow> nat set \<Rightarrow> nat set \<Rightarrow> (nat \<times> choice) list \<Rightarrow> lsys" where
  "loop_run cl act pre sched = the (lrun cl sched (lsys_init cl act pre))"

lemma lreach_run:
  assumes "lrun cl sched (lsys_init cl act pre) \<noteq> None" "pre \<subseteq> {t \<in> act. cl t = StealRunner}"
  shows "lreach cl act pre (length sched) (loop_run cl act pre sched)"
  using assms unfolding lreach_def loop_run_def by auto

lemmas run_simps = Let_def TRunner_defs TRunnersQueue_Add_def TRunnersQueue_Erase_def
  TIntrusiveList_Add_def TIntrusiveList_Erase_def TIntrusiveList_Pop_def TIntrusiveList_Empty_def
  TIntrusiveList_def lsys_init_def loop_defs

theorem loop_is_run_by_one_thread_witness:
  "in_uv (lpos (loop_run (\<lambda>_. RunOnce) {0, 1} {} two_runs) 0) \<and>
   \<not> in_uv (lpos (loop_run (\<lambda>_. RunOnce) {0, 1} {} two_runs) 1)"
proof -
  have r: "lrun (\<lambda>_. RunOnce) two_runs (lsys_init (\<lambda>_. RunOnce) {0, 1} {}) \<noteq> None"
    and i: "in_uv (lpos (loop_run (\<lambda>_. RunOnce) {0, 1} {} two_runs) 0)"
    by (simp_all add: two_runs_def loop_run_def run_simps)
  have "length two_runs + 2 \<le> (2::nat) ^ 64" by (simp add: two_runs_def)
  from loop_is_run_by_one_thread [OF lreach_run [OF r] this] i show ?thesis by fastforce
qed

text \<open>
  C10: \<open>RunnerSteal\<close>, and with it \<open>sync_wait\<close>, returns only after the operation it waits for
  has completed (for runs short of 2^64 steps, in which no counter wraps): no wake-up by \<open>WakeupNext\<close> and
  no return of \<open>uv_run\<close> is taken for the completion.
\<close>

theorem RunnerSteal_returns_only_when_finished:
  assumes "lreach cl act pre n s" "n + 2 \<le> 2 ^ 64"
    and "t \<in> act" "cl t = StealRunner" "lpos s t = Returned"
  shows "t \<in> Finished s"
  using lreach_inv [OF assms(1,2)] assms(3-5) unfolding lsys_inv_def client_inv_def by blast

definition steal_run :: "(nat \<times> choice) list" where
  "steal_run = [(0, UvReturn True), (0, UvReturn True), (0, UvReturn True), (0, Complete 0),
     (0, UvReturn True), (0, UvReturn True), (0, UvReturn True), (0, UvReturn True),
     (0, UvReturn True)]"

theorem RunnerSteal_returns_only_when_finished_witness:
  "0 \<in> Finished (loop_run (\<lambda>_. StealRunner) {0} {} steal_run)"
proof -
  have r: "lrun (\<lambda>_. StealRunner) steal_run (lsys_init (\<lambda>_. StealRunner) {0} {}) \<noteq> None"
    and i: "lpos (loop_run (\<lambda>_. StealRunner) {0} {} steal_run) 0 = Returned"
    by (simp_all add: steal_run_def loop_run_def run_simps)
  have "length steal_run + 2 \<le> (2::nat) ^ 64" by (simp add: steal_run_def)
  from RunnerSteal_returns_only_when_finished [OF lreach_run [OF r] this, of 0] i
  show ?thesis by simp
qed

text \<open>
  the waiting list is always well linked and holds only runners whose threads are in the
  waiting branch, and so is a runner that \<open>WakeupNext\<close> has popped and not yet
  woken; so no runner of a thread that has returned is ever read or woken through the list.
\<close>

theorem waiting_list_holds_live_runners:
  assumes "lreach cl act pre n s" "n + 2 \<le> 2 ^ 64"
  shows "\<exists>q. dll (Runners s) q \<and> (\<forall>t \<in> set q. waiting (lpos s t)) \<and>
    (\<forall>t u. popped (lpos s t) = Some u \<longrightarrow> waiting (lpos s u) \<and> u \<notin> set q)"
  using lreach_inv [OF assms] unfolding lsys_inv_def queue_inv_def by blast

theorem waiting_list_holds_live_runners_witness:
  "\<exists>q. dll (Runners (loop_run (\<lambda>_. RunOnce) {0, 1} {} two_runs)) q"
proof -
  have r: "lrun (\<lambda>_. RunOnce) two_runs (lsys_init (\<lambda>_. RunOnce) {0, 1} {}) \<noteq> None"
    by (simp add: two_runs_def run_simps)
  have "length two_runs + 2 \<le> (2::nat) ^ 64" by (simp add: two_runs_def)
  from waiting_list_holds_live_runners [OF lreach_run [OF r] this] show ?thesis by blast
qed

text \<open>
  C11: the threads never deadlock but by a lost wake-up. When no thread can move and one has not returned, then some thread \<open>u\<close> sleeps in \<open>Wait\<close>
  on a value its counter still has, although its runner is not in the waiting list any more; and it was another thread's \<open>WakeupNext\<close> that
  raised the counter to this very value, after \<open>u\<close> had released the lock and before it loaded the counter. This is said of runs of fewer than
  \<open>2 ^ 64 - 1\<close> steps, in which the 64-bit counters do not come round, from a state in which any waiting
  operations may have completed already (\<open>pre\<close>).
\<close>

theorem deadlock_is_a_lost_wakeup:
  assumes "pre \<subseteq> {t \<in> act. cl t = StealRunner}" "lrun cl sched (lsys_init cl act pre) = Some s"
    and "length sched + 2 \<le> 2 ^ 64" "stuck cl s" "lpos s t \<noteq> Returned"
  shows "\<exists>u w. lpos s u = Blocked w \<and> u \<notin> Finished s \<and> Awakenings (rn s u) = w \<and>
    (\<forall>q. dll (Runners s) q \<longrightarrow> u \<notin> set q) \<and>
    (\<exists>xs v c ys m m'. sched = xs @ (v, c) # ys \<and> lrun cl xs (lsys_init cl act pre) = Some m \<and>
       tstep cl v c m = Some m' \<and> v \<noteq> u \<and> lpos m u = WaitLoad \<and> lpos m' u = WaitLoad \<and>
       Awakenings (rn m' u) = Awakenings (rn m u) + 1 \<and> Awakenings (rn m' u) = w)"
  using deadlock_lost [OF assms] by (simp only: woken_too_early_def)

text \<open>
  Thread 0 is in \<open>uv_run\<close>; thread 1 has entered the waiting list and released the lock, but has not
  yet loaded its counter. Thread 0 leaves and wakes it. Thread 1 then loads the
  counter that has already been increased, and waits for it to change.
\<close>

definition lost_run :: "(nat \<times> choice) list" where
  "lost_run = map (\<lambda>t. (t, UvReturn True)) [0, 0, 1, 1, 0, 0, 0, 0, 0, 1, 1]"

definition lost_state :: lsys where
  "lost_state = loop_run (\<lambda>_. RunOnce) {0, 1} {} lost_run"

lemma lost_run_runs: "lrun (\<lambda>_. RunOnce) lost_run (lsys_init (\<lambda>_. RunOnce) {0, 1} {}) = Some lost_state"
  by (simp add: lost_state_def loop_run_def lost_run_def run_simps)

lemma lost_state_reached: "lreach (\<lambda>_. RunOnce) {0, 1} {} (length lost_run) lost_state"
  unfolding lost_state_def by (rule lreach_run) (simp_all add: lost_run_def run_simps)

lemma lost_state_simps:
  "lpos lost_state t = (if t = 1 then Blocked 2 else Returned)"
  "Awakenings (rn lost_state 1) = 2"
  "Running lost_state = False"
  "Locked lost_state = None"
  by (auto simp: lost_state_def lost_run_def loop_run_def run_simps)

lemma lost_state_stuck: "stuck (\<lambda>_. RunOnce) lost_state"
  unfolding stuck_def tstep_def
  using lost_state_simps(2) by (simp add: lost_state_simps(1) TRunner_Wait_blocks_def)

theorem deadlock_is_a_lost_wakeup_witness:
  "\<exists>u xs v c ys m. lost_run = xs @ (v, c) # ys \<and> lrun (\<lambda>_. RunOnce) xs (lsys_init (\<lambda>_. RunOnce) {0, 1} {}) = Some m \<and>
     v \<noteq> u \<and> lpos m u = WaitLoad \<and> lpos lost_state u = Blocked 2"
proof -
  have r: "lrun (\<lambda>_. RunOnce) lost_run (lsys_init (\<lambda>_. RunOnce) {0, 1} {}) = Some lost_state" by (rule lost_run_runs)
  have n: "length lost_run + 2 \<le> (2::nat) ^ 64" by (simp add: lost_run_def)
  have "lpos lost_state 1 \<noteq> Returned" by (simp add: lost_state_simps)
  from deadlock_is_a_lost_wakeup [OF empty_subsetI r n lost_state_stuck this] obtain u w where
    u: "lpos lost_state u = Blocked w" "\<exists>xs v c ys m. lost_run = xs @ (v, c) # ys \<and>
      lrun (\<lambda>_. RunOnce) xs (lsys_init (\<lambda>_. RunOnce) {0, 1} {}) = Some m \<and> v \<noteq> u \<and> lpos m u = WaitLoad" by blast
  have "w = 2" using u(1) lost_state_simps(1) [of u] by (simp split: if_splits)
  then show ?thesis using u by blast
qed

text \<open>
  the lost wake-up happens: two threads call \<open>run_once\<close> on an idle loop; one returns, and
  the other sleeps for ever although the loop is free, nobody holds the lock and nobody is
  left to wake it.
\<close>

theorem run_once_can_sleep_forever:
  "\<exists>n s. lreach (\<lambda>_. RunOnce) {0, 1} {} n s \<and> lpos s 0 = Returned \<and> lpos s 1 = Blocked 2 \<and>
    \<not> Running s \<and> Locked s = None \<and> stuck (\<lambda>_. RunOnce) s"
  using lost_state_reached lost_state_stuck lost_state_simps(1) [of 0] lost_state_simps(1) [of 1]
    lost_state_simps(3,4)
  by (intro exI [of _ "length lost_run"] exI [of _ lost_state]) simp

definition stale_clients :: "nat \<Rightarrow> client" where
  "stale_clients t = (if t = 0 then StealRunner else Run)"

definition stale_enter :: "(nat \<times> choice) list" where
  "stale_enter = map (\<lambda>t. (t, UvReturn False)) [0, 0, 0, 0, 0, 0, 0, 1, 1] @
     [(1, Complete 0)] @ map (\<lambda>t. (t, UvReturn False)) [1, 1, 1, 1, 0, 0]"

definition stale_stop :: "(nat \<times> choice) list" where
  "stale_stop = map (\<lambda>t. (t, UvReturn False)) [0, 0, 0, 0, 0, 0, 0, 1, 1, 0, 0] @ [(1, Complete 0)]"

text \<open>
  the flag \<open>Acq\<close> of a runner outlives the time its thread runs the loop. So a thread in \<open>sync_wait\<close>
  whose operation has finished may enter \<open>uv_run\<close> in the default mode all the same;
  and the completion of a thread that only waits for its turn may stop the loop that
  another thread is running.
\<close>

theorem acquisition_outlives_the_run:
  "(\<exists>n s. lreach stale_clients {0, 1} {} n s \<and> 0 \<in> Finished s \<and> lpos s 0 = InUv UV_RUN_DEFAULT) \<and>
   (\<exists>n s. lreach stale_clients {0, 1} {} n s \<and> waiting (lpos s 0) \<and>
      in_uv (lpos s 1) \<and> stale_clients 1 = Run \<and> StopFlag s)"
proof
  have "lrun stale_clients stale_enter (lsys_init stale_clients {0, 1} {}) \<noteq> None"
    "0 \<in> Finished (loop_run stale_clients {0, 1} {} stale_enter)"
    "lpos (loop_run stale_clients {0, 1} {} stale_enter) 0 = InUv UV_RUN_DEFAULT"
    by (simp_all add: stale_enter_def loop_run_def run_simps stale_clients_def)
  then show "\<exists>n s. lreach stale_clients {0, 1} {} n s \<and> 0 \<in> Finished s \<and>
      lpos s 0 = InUv UV_RUN_DEFAULT"
    using lreach_run by blast
  have "lrun stale_clients stale_stop (lsys_init stale_clients {0, 1} {}) \<noteq> None"
    "waiting (lpos (loop_run stale_clients {0, 1} {} stale_stop) 0)"
    "in_uv (lpos (loop_run stale_clients {0, 1} {} stale_stop) 1)"
    "stale_clients 1 = Run" "StopFlag (loop_run stale_clients {0, 1} {} stale_stop)"
    by (simp_all add: stale_stop_def loop_run_def run_simps stale_clients_def)
  then show "\<exists>n s. lreach stale_clients {0, 1} {} n s \<and> waiting (lpos s 0) \<and>
      in_uv (lpos s 1) \<and> stale_clients 1 = Run \<and> StopFlag s"
    using lreach_run by blast
qed

end
