(* ===== verification/Operation_List.thy ===== *)
theory Operation_List
  imports Uv_Prelude
begin

text \<open>
  \<open>TLoop::TOperationList\<close>, \<open>TLoop::Schedule\<close> and \<open>TLoop::ApplyOperations\<close> of
  src/execution/loop.cpp: a lock-free stack of operations that any thread pushes to
  and the loop thread empties with one exchange, reverses in place and applies.

  The first part is the code as functions on the pointers \<open>OpHead\<close> and \<open>OpNext\<close>; the second
  is the concurrent system, one step per access to shared memory; the third is what
  makes it correct: operations are applied exactly once, in the order of their
  compare-and-exchange, and a pushed operation always has a wake-up on its way.
  Memory is sequentially consistent in this model.
\<close>

section \<open>The code\<close>

record 'a oplist =
  OpHead :: "'a option"
  OpNext :: "'a \<Rightarrow> 'a option"

definition TOperationList :: "('a \<Rightarrow> 'a option) \<Rightarrow> 'a oplist" where
  "TOperationList nx = \<lparr>OpHead = None, OpNext = nx\<rparr>"

text \<open>The three accesses of \<open>PushBack\<close>: the load of \<open>Head\<close>, the store to \<open>op.Next\<close> and the
  weak compare-and-exchange, which may fail although the values are equal (\<open>spurious\<close>)
  and returns the value it read when it fails.\<close>

definition push_store :: "'a \<Rightarrow> 'a option \<Rightarrow> 'a oplist \<Rightarrow> 'a oplist" where
  "push_store op curTop l = l\<lparr>OpNext := (OpNext l)(op := curTop)\<rparr>"

definition push_cas :: "bool \<Rightarrow> 'a \<Rightarrow> 'a option \<Rightarrow> 'a oplist \<Rightarrow> (bool \<times> 'a option) \<times> 'a oplist" where
  "push_cas spurious op curTop l =
     (if OpHead l = curTop \<and> \<not> spurious then ((True, curTop), l\<lparr>OpHead := Some op\<rparr>)
      else ((False, OpHead l), l))"

text \<open>\<open>PushBack\<close> by a single thread, with the retry loop bounded by the list of outcomes
  of the weak exchange: \<open>True\<close> for a spurious failure. \<open>None\<close> when all of them fail.\<close>

fun push_loop :: "bool list \<Rightarrow> 'a \<Rightarrow> 'a option \<Rightarrow> 'a oplist \<Rightarrow> 'a oplist option" where
  "push_loop [] op curTop l = None"
| "push_loop (spurious # bs) op curTop l =
     (let l = push_store op curTop l;
          ((ok, curTop), l) = push_cas spurious op curTop l
      in if ok then Some l else push_loop bs op curTop l)"

definition TOperationList_PushBack :: "bool list \<Rightarrow> 'a \<Rightarrow> 'a oplist \<Rightarrow> 'a oplist option" where
  "TOperationList_PushBack outcomes op l = push_loop outcomes op (OpHead l) l"

text \<open>\<open>Grab\<close>: the exchange, and one iteration of the loop that reverses the chain.\<close>

definition grab_exchange :: "'a oplist \<Rightarrow> 'a option \<times> 'a oplist" where
  "grab_exchange l = (OpHead l, l\<lparr>OpHead := None\<rparr>)"

definition grab_turn :: "'a \<Rightarrow> 'a option \<Rightarrow> 'a oplist \<Rightarrow> ('a option \<times> 'a option) \<times> 'a oplist" where
  "grab_turn cur newTop l =
     (let nxt = OpNext l cur;
          l = l\<lparr>OpNext := (OpNext l)(cur := newTop)\<rparr>
      in ((nxt, Some cur), l))"

partial_function (option) grab_loop ::
    "'a option \<Rightarrow> 'a option \<Rightarrow> 'a oplist \<Rightarrow> ('a option \<times> 'a oplist) option" where
  "grab_loop cur newTop l =
     (case cur of
        None \<Rightarrow> Some (newTop, l)
      | Some c \<Rightarrow> (case grab_turn c newTop l of ((cur, newTop), l) \<Rightarrow> grab_loop cur newTop l))"

definition TOperationList_Grab :: "'a oplist \<Rightarrow> ('a option \<times> 'a oplist) option" where
  "TOperationList_Grab l =
     (case grab_exchange l of (opStates, l) \<Rightarrow> grab_loop opStates None l)"

text \<open>The loop of \<open>ApplyOperations\<close>: \<open>op->Next\<close> is read before \<open>op->Apply()\<close> runs. \<open>app\<close> is what
  applying an operation does to the state \<open>'s\<close> of the program.\<close>

partial_function (option) apply_loop ::
    "('a \<Rightarrow> 'a oplist \<times> 's \<Rightarrow> 'a oplist \<times> 's) \<Rightarrow> 'a option \<Rightarrow> 'a oplist \<times> 's
      \<Rightarrow> ('a oplist \<times> 's) option" where
  "apply_loop app op st =
     (case op of
        None \<Rightarrow> Some st
      | Some o' \<Rightarrow> (let nxt = OpNext (fst st) o' in apply_loop app nxt (app o' st)))"

definition TLoop_ApplyOperations ::
    "('a \<Rightarrow> 'a oplist \<times> 's \<Rightarrow> 'a oplist \<times> 's) \<Rightarrow> 'a oplist \<times> 's \<Rightarrow> ('a oplist \<times> 's) option" where
  "TLoop_ApplyOperations app st =
     (case TOperationList_Grab (fst st) of
        None \<Rightarrow> None
      | Some (opStates, l) \<Rightarrow> apply_loop app opStates (l, snd st))"

section \<open>Chains of operations\<close>

fun op_chain :: "('a \<Rightarrow> 'a option) \<Rightarrow> 'a option \<Rightarrow> 'a list \<Rightarrow> bool" where
  "op_chain nx p [] \<longleftrightarrow> p = None"
| "op_chain nx p (x # xs) \<longleftrightarrow> p = Some x \<and> op_chain nx (nx x) xs"

lemma op_chain_upd [simp]: "x \<notin> set xs \<Longrightarrow> op_chain (nx(x := v)) p xs = op_chain nx p xs"
  by (induction xs arbitrary: p) auto

lemma op_chain_None [simp]: "op_chain nx None xs \<longleftrightarrow> xs = []"
  by (cases xs) auto

lemma op_chain_Some: "op_chain nx (Some x) xs \<longleftrightarrow> (\<exists>ys. xs = x # ys \<and> op_chain nx (nx x) ys)"
  by (cases xs) auto

lemma op_chain_unique: "op_chain nx p xs \<Longrightarrow> op_chain nx p ys \<Longrightarrow> xs = ys"
proof (induction xs arbitrary: p ys)
  case Nil
  then show ?case by (cases ys) auto
next
  case (Cons x xs)
  then show ?case by (cases ys) auto
qed

definition op_stack :: "'a oplist \<Rightarrow> 'a list \<Rightarrow> bool" where
  "op_stack l xs \<longleftrightarrow> distinct xs \<and> op_chain (OpNext l) (OpHead l) xs"

lemma push_loop_stack:
  assumes "op_stack l xs" "op \<notin> set xs" "False \<in> set outcomes"
  shows "\<exists>l'. push_loop outcomes op (OpHead l) l = Some l' \<and> op_stack l' (op # xs)"
  using assms
proof (induction outcomes arbitrary: l)
  case Nil
  then show ?case by simp
next
  case (Cons b bs)
  let ?l = "push_store op (OpHead l) l"
  have st: "op_stack ?l xs" and hd: "OpHead ?l = OpHead l"
    using Cons.prems by (simp_all add: op_stack_def push_store_def)
  show ?case
  proof (cases b)
    case True
    then show ?thesis
      using Cons.IH [OF st] Cons.prems hd by (auto simp: push_cas_def Let_def)
  next
    case False
    then show ?thesis
      using st hd Cons.prems by (auto simp: push_cas_def Let_def op_stack_def push_store_def)
  qed
qed

text \<open>The reversal loop returns: it reverses the chain it is given onto the chain built so
  far, and writes to no other node.\<close>

lemma grab_loop_reverses:
  assumes "op_chain (OpNext l) cur us" "op_chain (OpNext l) newTop vs" "distinct (us @ vs)"
  shows "\<exists>p l'. grab_loop cur newTop l = Some (p, l') \<and> op_chain (OpNext l') p (rev us @ vs) \<and>
    OpHead l' = OpHead l \<and> (\<forall>x. x \<notin> set us \<longrightarrow> OpNext l' x = OpNext l x)"
  using assms
proof (induction us arbitrary: l cur newTop vs)
  case Nil
  then show ?case by (simp add: grab_loop.simps)
next
  case (Cons u us)
  let ?l = "l\<lparr>OpNext := (OpNext l)(u := newTop)\<rparr>"
  have "\<exists>p l'. grab_loop (OpNext l u) (Some u) ?l = Some (p, l') \<and>
      op_chain (OpNext l') p (rev us @ u # vs) \<and> OpHead l' = OpHead ?l \<and>
      (\<forall>x. x \<notin> set us \<longrightarrow> OpNext l' x = OpNext ?l x)"
    using Cons.prems by (intro Cons.IH) (auto simp del: fun_upd_apply simp: fun_upd_same)
  then show ?case
    using Cons.prems by (auto simp: grab_loop.simps [of "Some u"] grab_turn_def)
qed

lemma Grab_stack:
  assumes "op_stack l xs"
  shows "\<exists>p l'. TOperationList_Grab l = Some (p, l') \<and> op_chain (OpNext l') p (rev xs) \<and>
    OpHead l' = None"
proof -
  have "op_chain (OpNext (l\<lparr>OpHead := None\<rparr>)) (OpHead l) xs" "distinct (xs @ [])"
    using assms by (simp_all add: op_stack_def)
  from grab_loop_reverses [OF this(1) _ this(2), of None]
  show ?thesis by (auto simp: TOperationList_Grab_def grab_exchange_def)
qed

text \<open>An operation that runs may push new operations and may reuse itself, but it leaves
  the links of the operations that are still to be applied alone.\<close>

definition apply_frame :: "('a \<Rightarrow> 'a oplist \<times> 's \<Rightarrow> 'a oplist \<times> 's) \<Rightarrow> 'a set \<Rightarrow> bool" where
  "apply_frame app X \<longleftrightarrow>
     (\<forall>o' st x. x \<in> X \<and> x \<noteq> o' \<longrightarrow> OpNext (fst (app o' st)) x = OpNext (fst st) x)"

lemma op_chain_cong:
  "(\<And>x. x \<in> set xs \<Longrightarrow> nx x = nx' x) \<Longrightarrow> op_chain nx p xs = op_chain nx' p xs"
  by (induction xs arbitrary: p) auto

lemma apply_loop_fold:
  assumes "op_chain (OpNext (fst st)) p xs" "distinct xs" "apply_frame app (set xs)"
  shows "apply_loop app p st = Some (fold app xs st)"
  using assms
proof (induction xs arbitrary: p st)
  case Nil
  then show ?case by (simp add: apply_loop.simps)
next
  case (Cons x xs)
  have fr: "apply_frame app (set xs)"
    using Cons.prems(3) by (simp add: apply_frame_def)
  have "op_chain (OpNext (fst (app x st))) (OpNext (fst st) x) xs"
  proof (rule op_chain_cong [THEN iffD1, rotated])
    show "op_chain (OpNext (fst st)) (OpNext (fst st) x) xs" using Cons.prems(1) by simp
    show "OpNext (fst st) y = OpNext (fst (app x st)) y" if "y \<in> set xs" for y
      using that Cons.prems(2,3) unfolding apply_frame_def
      by (metis distinct.simps(2) list.set_intros(2))
  qed
  from Cons.IH [OF this _ fr] Cons.prems show ?case
    by (simp add: apply_loop.simps [of app "Some x"] Let_def)
qed

section \<open>The interface of the operation queue\<close>

text \<open>What the operation states rely on: what is pushed comes out of the next \<open>grab\<close> in the
  order of the pushes, and the queue is empty then.\<close>

locale op_queue =
  fixes rep :: "'q \<Rightarrow> 'a list \<Rightarrow> bool"
    and push :: "'a \<Rightarrow> 'q \<Rightarrow> 'q"
    and grab :: "'q \<Rightarrow> ('a list \<times> 'q) option"
  assumes rep_push: "rep q xs \<Longrightarrow> x \<notin> set xs \<Longrightarrow> rep (push x q) (xs @ [x])"
    and rep_grab: "rep q xs \<Longrightarrow> \<exists>q'. grab q = Some (xs, q') \<and> rep q' []"
begin

lemma rep_push_all:
  "rep q xs \<Longrightarrow> distinct (xs @ ys) \<Longrightarrow> rep (fold push ys q) (xs @ ys)"
proof (induction ys arbitrary: q xs)
  case Nil
  then show ?case by simp
next
  case (Cons y ys)
  have "rep (push y q) (xs @ [y])" using Cons.prems by (intro rep_push) auto
  from Cons.IH [OF this] Cons.prems show ?case by simp
qed

lemma grab_after_pushes:
  assumes "rep q []" "distinct ys"
  shows "\<exists>q'. grab (fold push ys q) = Some (ys, q') \<and> rep q' []"
  using rep_grab [OF rep_push_all [of q "[]" ys]] assms by simp

end

text \<open>The chain \<open>Grab\<close> returns, read off the links by following them.\<close>

partial_function (option) chain_of :: "('a \<Rightarrow> 'a option) \<Rightarrow> 'a option \<Rightarrow> 'a list option" where
  "chain_of nx p =
     (case p of None \<Rightarrow> Some []
      | Some x \<Rightarrow> Option.bind (chain_of nx (nx x)) (\<lambda>xs. Some (x # xs)))"

lemma chain_of_op_chain: "op_chain nx p xs \<Longrightarrow> chain_of nx p = Some xs"
  by (induction xs arbitrary: p) (simp_all add: chain_of.simps)

definition push_once :: "'a \<Rightarrow> 'a oplist \<Rightarrow> 'a oplist" where
  "push_once op l = the (TOperationList_PushBack [False] op l)"

definition grab_list :: "'a oplist \<Rightarrow> ('a list \<times> 'a oplist) option" where
  "grab_list l =
     (case TOperationList_Grab l of
        None \<Rightarrow> None
      | Some (p, l') \<Rightarrow> Option.bind (chain_of (OpNext l') p) (\<lambda>xs. Some (xs, l')))"

interpretation oq: op_queue "\<lambda>l xs. op_stack l (rev xs)" push_once grab_list
proof (unfold_locales, goal_cases)
  case (1 q xs x)
  then show ?case
    using push_loop_stack [of q "rev xs" x "[False]"]
    by (auto simp: push_once_def TOperationList_PushBack_def)
next
  case (2 q xs)
  then obtain p l' where "TOperationList_Grab q = Some (p, l')" "op_chain (OpNext l') p xs"
      "OpHead l' = None"
    using Grab_stack [of q "rev xs"] by auto
  then show ?case by (simp add: grab_list_def chain_of_op_chain op_stack_def)
qed

section \<open>The concurrent system\<close>

text \<open>A thread inside \<open>Schedule(op)\<close>: before the load of \<open>Head\<close>, before the store of \<open>op.Next\<close>,
  before the exchange, before the call of \<open>Fire(Async)\<close>.\<close>

datatype 'a ppc = PIdle | PLoad 'a | PStore 'a "'a option" | PCas 'a "'a option" | PFire

text \<open>The loop thread: in libuv, at the exchange of \<open>Grab\<close>, in its reversal loop, in the loop
  of \<open>ApplyOperations\<close>.\<close>

datatype 'a lpc = LWait | LGrab | LReverse "'a option" "'a option" | LApply "'a option"

text \<open>\<open>AsyncPending\<close> is the state of the \<open>uv_async_t\<close>: \<open>uv_async_send\<close> sets it, and libuv calls the
  callback once after clearing it. \<open>Pending\<close>, \<open>scheduled\<close> and \<open>applied\<close> are ghosts: the operations
  in the hands of the loop, and the order in which they were pushed and applied.\<close>

record 'a osys =
  ol :: "'a oplist"
  pcs :: "nat \<Rightarrow> 'a ppc"
  lpc :: "'a lpc"
  AsyncPending :: bool
  Pending :: "'a set"
  scheduled :: "'a list"
  applied :: "'a list"

definition osys_init :: "('a \<Rightarrow> 'a option) \<Rightarrow> 'a osys" where
  "osys_init nx = \<lparr>ol = TOperationList nx, pcs = (\<lambda>_. PIdle), lpc = LWait,
     AsyncPending = False, Pending = {}, scheduled = [], applied = []\<rparr>"

inductive osys_step :: "'a osys \<Rightarrow> 'a osys \<Rightarrow> bool" where
  start: "pcs s t = PIdle \<Longrightarrow> op \<notin> Pending s \<Longrightarrow>
    osys_step s (s\<lparr>pcs := (pcs s)(t := PLoad op), Pending := insert op (Pending s)\<rparr>)"
| load: "pcs s t = PLoad op \<Longrightarrow>
    osys_step s (s\<lparr>pcs := (pcs s)(t := PStore op (OpHead (ol s)))\<rparr>)"
| store: "pcs s t = PStore op curTop \<Longrightarrow>
    osys_step s (s\<lparr>ol := push_store op curTop (ol s), pcs := (pcs s)(t := PCas op curTop)\<rparr>)"
| cas_ok: "pcs s t = PCas op curTop \<Longrightarrow> push_cas b op curTop (ol s) = ((True, c), l) \<Longrightarrow>
    osys_step s (s\<lparr>ol := l, pcs := (pcs s)(t := PFire), scheduled := scheduled s @ [op]\<rparr>)"
| cas_fail: "pcs s t = PCas op curTop \<Longrightarrow> push_cas b op curTop (ol s) = ((False, c), l) \<Longrightarrow>
    osys_step s (s\<lparr>ol := l, pcs := (pcs s)(t := PStore op c)\<rparr>)"
| fire: "pcs s t = PFire \<Longrightarrow>
    osys_step s (s\<lparr>pcs := (pcs s)(t := PIdle), AsyncPending := True\<rparr>)"
| wake: "lpc s = LWait \<Longrightarrow> AsyncPending s \<Longrightarrow>
    osys_step s (s\<lparr>lpc := LGrab, AsyncPending := False\<rparr>)"
| exchange: "lpc s = LGrab \<Longrightarrow> grab_exchange (ol s) = (p, l) \<Longrightarrow>
    osys_step s (s\<lparr>ol := l, lpc := LReverse p None\<rparr>)"
| turn: "lpc s = LReverse (Some cur) newTop \<Longrightarrow> grab_turn cur newTop (ol s) = ((cur', newTop'), l) \<Longrightarrow>
    osys_step s (s\<lparr>ol := l, lpc := LReverse cur' newTop'\<rparr>)"
| turned: "lpc s = LReverse None newTop \<Longrightarrow>
    osys_step s (s\<lparr>lpc := LApply newTop\<rparr>)"
| apply_op: "lpc s = LApply (Some op) \<Longrightarrow>
    osys_step s (s\<lparr>lpc := LApply (OpNext (ol s) op), applied := applied s @ [op],
      Pending := Pending s - {op}\<rparr>)"
| applied_all: "lpc s = LApply None \<Longrightarrow>
    osys_step s (s\<lparr>lpc := LWait\<rparr>)"

inductive osys_reach :: "('a \<Rightarrow> 'a option) \<Rightarrow> 'a osys \<Rightarrow> bool" for nx where
  init: "osys_reach nx (osys_init nx)"
| step: "osys_reach nx s \<Longrightarrow> osys_step s s' \<Longrightarrow> osys_reach nx s'"

section \<open>The invariant\<close>

fun inflight :: "'a ppc \<Rightarrow> 'a option" where
  "inflight PIdle = None"
| "inflight (PLoad op) = Some op"
| "inflight (PStore op c) = Some op"
| "inflight (PCas op c) = Some op"
| "inflight PFire = None"

text \<open>The part of the chain the loop thread owns: \<open>us\<close> still to be reversed, \<open>vs\<close> reversed.\<close>

fun loop_chains :: "('a \<Rightarrow> 'a option) \<Rightarrow> 'a lpc \<Rightarrow> 'a list \<Rightarrow> 'a list \<Rightarrow> bool" where
  "loop_chains nx LWait us vs \<longleftrightarrow> us = [] \<and> vs = []"
| "loop_chains nx LGrab us vs \<longleftrightarrow> us = [] \<and> vs = []"
| "loop_chains nx (LReverse c t) us vs \<longleftrightarrow> op_chain nx c us \<and> op_chain nx t vs"
| "loop_chains nx (LApply p) us vs \<longleftrightarrow> us = [] \<and> op_chain nx p vs"

definition flights :: "(nat \<Rightarrow> 'a ppc) \<Rightarrow> nat \<rightharpoonup> 'a" where
  "flights pc t = inflight (pc t)"

lemma flights_upd [simp]: "flights (pc(t := p)) = (flights pc)(t := inflight p)"
  by (auto simp: flights_def)

lemma flights_same: "flights pc t = v \<Longrightarrow> (flights pc)(t := v) = flights pc"
  by auto

lemma ran_upd_new:
  assumes "m t = None" "x \<notin> ran m" "inj_on m (dom m)"
  shows "ran (m(t := Some x)) = insert x (ran m) \<and> inj_on (m(t := Some x)) (dom (m(t := Some x)))"
proof
  show "ran (m(t := Some x)) = insert x (ran m)" using assms(1) by simp
  show "inj_on (m(t := Some x)) (dom (m(t := Some x)))"
  proof (rule inj_onI)
    fix a b
    assume "a \<in> dom (m(t := Some x))" "b \<in> dom (m(t := Some x))" "(m(t := Some x)) a = (m(t := Some x)) b"
    then show "a = b"
      using assms ranI [of m] inj_onD [OF assms(3), of a b] by (auto split: if_splits)
  qed
qed

lemma ran_upd_None:
  assumes "m t = Some x" "inj_on m (dom m)"
  shows "ran (m(t := None)) = ran m - {x} \<and> inj_on (m(t := None)) (dom (m(t := None)))"
proof
  show "ran (m(t := None)) = ran m - {x}"
  proof (intro set_eqI iffI)
    fix y
    assume "y \<in> ran (m(t := None))"
    then obtain u where "u \<noteq> t" "m u = Some y" by (auto simp: ran_def split: if_splits)
    then show "y \<in> ran m - {x}"
      using assms inj_onD [OF assms(2), of u t] by (auto simp: ran_def)
  next
    fix y
    assume "y \<in> ran m - {x}"
    then obtain u where "m u = Some y" "y \<noteq> x" by (auto simp: ran_def)
    then have "u \<noteq> t" using assms(1) by auto
    then show "y \<in> ran (m(t := None))" using \<open>m u = Some y\<close> by (auto simp: ran_def)
  qed
  show "inj_on (m(t := None)) (dom (m(t := None)))"
    using assms(2) by (auto simp: inj_on_def)
qed

definition wakeup_due :: "'a osys \<Rightarrow> bool" where
  "wakeup_due s \<longleftrightarrow> AsyncPending s \<or> (\<exists>t. pcs s t = PFire) \<or> lpc s = LGrab"

definition heap_inv :: "'a osys \<Rightarrow> 'a list \<Rightarrow> 'a list \<Rightarrow> 'a list \<Rightarrow> bool" where
  "heap_inv s xs us vs \<longleftrightarrow>
     op_chain (OpNext (ol s)) (OpHead (ol s)) xs \<and> loop_chains (OpNext (ol s)) (lpc s) us vs \<and>
     distinct (xs @ us @ vs) \<and>
     scheduled s = applied s @ rev us @ vs @ rev xs"

definition owner_inv :: "'a osys \<Rightarrow> 'a set \<Rightarrow> bool" where
  "owner_inv s X \<longleftrightarrow>
     Pending s = X \<union> ran (flights (pcs s)) \<and> X \<inter> ran (flights (pcs s)) = {} \<and>
     inj_on (flights (pcs s)) (dom (flights (pcs s)))"

definition cas_linked :: "(nat \<Rightarrow> 'a ppc) \<Rightarrow> ('a \<Rightarrow> 'a option) \<Rightarrow> bool" where
  "cas_linked pc nx \<longleftrightarrow> (\<forall>t op c. pc t = PCas op c \<longrightarrow> nx op = c)"

definition osys_inv :: "'a osys \<Rightarrow> 'a list \<Rightarrow> 'a list \<Rightarrow> 'a list \<Rightarrow> bool" where
  "osys_inv s xs us vs \<longleftrightarrow>
     heap_inv s xs us vs \<and> owner_inv s (set (xs @ us @ vs)) \<and>
     cas_linked (pcs s) (OpNext (ol s)) \<and> (xs \<noteq> [] \<longrightarrow> wakeup_due s)"

lemma osys_invI:
  assumes "heap_inv s xs us vs" "owner_inv s (set (xs @ us @ vs))"
    "cas_linked (pcs s) (OpNext (ol s))" "xs \<noteq> [] \<Longrightarrow> wakeup_due s"
  shows "osys_inv s xs us vs"
  using assms by (simp add: osys_inv_def)

lemma osys_inv_init: "osys_inv (osys_init nx) [] [] []"
  by (simp add: osys_inv_def heap_inv_def owner_inv_def cas_linked_def osys_init_def
      TOperationList_def flights_def [abs_def])

text \<open>Writing the link of an operation in flight changes no chain.\<close>

lemma loop_chains_upd [simp]:
  "x \<notin> set us \<Longrightarrow> x \<notin> set vs \<Longrightarrow> loop_chains (nx(x := v)) pc us vs = loop_chains nx pc us vs"
  by (cases pc) simp_all

lemma inflight_in_ran: "inflight (pc t) = Some op \<Longrightarrow> op \<in> ran (flights pc)"
  by (auto simp: ran_def flights_def)

lemma cas_linked_upd:
  "cas_linked pc nx \<Longrightarrow> (\<And>op c. p = PCas op c \<Longrightarrow> nx op = c) \<Longrightarrow> cas_linked (pc(t := p)) nx"
  by (auto simp: cas_linked_def)

lemma cas_linked_link:
  assumes "cas_linked pc nx" "op \<notin> ran (flights pc)"
  shows "cas_linked pc (nx(op := v))"
  unfolding cas_linked_def
proof (intro allI impI)
  fix t o' c
  assume pc: "pc t = PCas o' c"
  then have "o' \<in> ran (flights pc)" by (intro inflight_in_ran [of pc t]) simp
  then have "o' \<noteq> op" using assms(2) by auto
  with assms(1) pc show "(nx(op := v)) o' = c" by (simp add: cas_linked_def)
qed

lemma PFire_upd:
  assumes "\<exists>u. pc u = PFire" "pc t \<noteq> PFire"
  shows "\<exists>u. (pc(t := p)) u = PFire"
proof -
  obtain u where "pc u = PFire" using assms(1) by blast
  moreover from this assms(2) have "u \<noteq> t" by auto
  ultimately show ?thesis by (intro exI [of _ u]) simp
qed

lemma flight_of: "pcs s t = p \<Longrightarrow> flights (pcs s) t = inflight p"
  by (simp add: flights_def)

lemma owner_inv_same:
  assumes "owner_inv s X" "flights (pcs s) t = inflight p"
  shows "owner_inv (s\<lparr>ol := l, pcs := (pcs s)(t := p)\<rparr>) X"
  using assms by (simp add: owner_inv_def flights_same)

lemma owner_flight:
  assumes "owner_inv s X" "flights (pcs s) t = Some op"
  shows "op \<notin> X" "op \<in> Pending s"
  using assms by (auto simp: owner_inv_def ran_def)

lemma wakeup_due_upd:
  assumes "wakeup_due s" "pcs s t \<noteq> PFire"
  shows "wakeup_due (s\<lparr>pcs := (pcs s)(t := p)\<rparr>)"
  using assms PFire_upd [of "pcs s" t p] by (auto simp: wakeup_due_def simp del: fun_upd_apply)

lemma osys_inv_start:
  assumes inv: "osys_inv s xs us vs" and pc: "pcs s t = PIdle" and new: "op \<notin> Pending s"
  shows "osys_inv (s\<lparr>pcs := (pcs s)(t := PLoad op), Pending := insert op (Pending s)\<rparr>) xs us vs"
    (is "osys_inv ?s xs us vs")
proof (rule osys_invI)
  have fl: "flights (pcs s) t = None" using pc by (simp add: flights_def)
  show "heap_inv ?s xs us vs" using inv by (simp add: osys_inv_def heap_inv_def)
  show "owner_inv ?s (set (xs @ us @ vs))"
    using inv new fl ran_upd_new [of "flights (pcs s)" t op]
    by (auto simp: osys_inv_def owner_inv_def simp del: fun_upd_apply)
  show "cas_linked (pcs ?s) (OpNext (ol ?s))"
    using inv by (auto simp: osys_inv_def intro: cas_linked_upd simp del: fun_upd_apply)
  show "wakeup_due ?s" if "xs \<noteq> []"
    using inv that pc wakeup_due_upd [of s t "PLoad op"]
    by (simp add: osys_inv_def wakeup_due_def del: fun_upd_apply)
qed

lemma osys_inv_load:
  assumes inv: "osys_inv s xs us vs" and pc: "pcs s t = PLoad op"
  shows "osys_inv (s\<lparr>pcs := (pcs s)(t := PStore op c)\<rparr>) xs us vs" (is "osys_inv ?s xs us vs")
proof (rule osys_invI)
  show "heap_inv ?s xs us vs" using inv by (simp add: osys_inv_def heap_inv_def)
  show "owner_inv ?s (set (xs @ us @ vs))"
    using inv owner_inv_same [of s _ t "PStore op c" "ol s"] flight_of [OF pc]
    by (simp add: osys_inv_def)
  show "cas_linked (pcs ?s) (OpNext (ol ?s))"
    using inv by (auto simp: osys_inv_def intro: cas_linked_upd simp del: fun_upd_apply)
  show "wakeup_due ?s" if "xs \<noteq> []"
    using inv that pc wakeup_due_upd [of s t "PStore op c"] by (simp add: osys_inv_def)
qed

lemma osys_inv_cas_fail:
  assumes inv: "osys_inv s xs us vs" and pc: "pcs s t = PCas op c"
  shows "osys_inv (s\<lparr>pcs := (pcs s)(t := PStore op c')\<rparr>) xs us vs" (is "osys_inv ?s xs us vs")
proof (rule osys_invI)
  show "heap_inv ?s xs us vs" using inv by (simp add: osys_inv_def heap_inv_def)
  show "owner_inv ?s (set (xs @ us @ vs))"
    using inv owner_inv_same [of s _ t "PStore op c'" "ol s"] flight_of [OF pc]
    by (simp add: osys_inv_def)
  show "cas_linked (pcs ?s) (OpNext (ol ?s))"
    using inv by (auto simp: osys_inv_def intro: cas_linked_upd simp del: fun_upd_apply)
  show "wakeup_due ?s" if "xs \<noteq> []"
    using inv that pc wakeup_due_upd [of s t "PStore op c'"] by (simp add: osys_inv_def)
qed

lemma osys_inv_store:
  assumes inv: "osys_inv s xs us vs" and pc: "pcs s t = PStore op c"
  shows "osys_inv (s\<lparr>ol := push_store op c (ol s), pcs := (pcs s)(t := PCas op c)\<rparr>) xs us vs"
    (is "osys_inv ?s xs us vs")
proof (rule osys_invI)
  have fl: "flights (pcs s) t = Some op" using flight_of [OF pc] by simp
  have op: "op \<notin> set (xs @ us @ vs)"
    using inv fl unfolding osys_inv_def by (blast dest: owner_flight(1))
  show "heap_inv ?s xs us vs"
    using inv op by (simp add: osys_inv_def heap_inv_def push_store_def)
  show "owner_inv ?s (set (xs @ us @ vs))"
    using inv owner_inv_same [of s _ t "PCas op c"] fl by (simp add: osys_inv_def)
  have none: "op \<notin> ran (flights ((pcs s)(t := PIdle)))"
    using inv fl ran_upd_None [of "flights (pcs s)" t op] by (auto simp: osys_inv_def owner_inv_def)
  have "cas_linked ((pcs s)(t := PIdle)) (OpNext (ol s))"
    using inv by (auto simp: osys_inv_def intro: cas_linked_upd simp del: fun_upd_apply)
  then have "cas_linked ((pcs s)(t := PIdle)) ((OpNext (ol s))(op := c))"
    using none by (rule cas_linked_link)
  then have "cas_linked (((pcs s)(t := PIdle))(t := PCas op c)) ((OpNext (ol s))(op := c))"
    by (rule cas_linked_upd) auto
  then show "cas_linked (pcs ?s) (OpNext (ol ?s))" by (simp add: push_store_def)
  show "wakeup_due ?s" if "xs \<noteq> []"
    using inv that pc wakeup_due_upd [of s t "PCas op c"]
    by (simp add: osys_inv_def wakeup_due_def)
qed

lemma osys_inv_cas_ok:
  assumes inv: "osys_inv s xs us vs" and pc: "pcs s t = PCas op c"
    and cas: "push_cas b op c (ol s) = ((True, c'), l)"
  shows "osys_inv (s\<lparr>ol := l, pcs := (pcs s)(t := PFire), scheduled := scheduled s @ [op]\<rparr>)
    (op # xs) us vs" (is "osys_inv ?s _ us vs")
proof (rule osys_invI)
  have fl: "flights (pcs s) t = Some op" using flight_of [OF pc] by simp
  have op: "op \<notin> set (xs @ us @ vs)"
    using inv fl unfolding osys_inv_def by (blast dest: owner_flight(1))
  have l: "l = (ol s)\<lparr>OpHead := Some op\<rparr>" "OpHead (ol s) = c"
    using cas by (auto simp: push_cas_def split: if_splits)
  have "OpNext (ol s) op = c" using inv pc by (simp add: osys_inv_def cas_linked_def)
  then show "heap_inv ?s (op # xs) us vs"
    using inv op l by (simp add: osys_inv_def heap_inv_def)
  have X: "owner_inv s (set (xs @ us @ vs))" using inv by (simp add: osys_inv_def)
  have "op \<in> ran (flights (pcs s))" using fl by (auto simp: ran_def)
  then show "owner_inv ?s (set ((op # xs) @ us @ vs))"
    using X ran_upd_None [of "flights (pcs s)" t op] fl op
    by (auto simp: owner_inv_def simp del: fun_upd_apply)
  show "cas_linked (pcs ?s) (OpNext (ol ?s))"
    using inv l by (auto simp: osys_inv_def intro: cas_linked_upd simp del: fun_upd_apply)
  show "wakeup_due ?s" by (auto simp: wakeup_due_def)
qed

lemma osys_inv_fire:
  assumes inv: "osys_inv s xs us vs" and pc: "pcs s t = PFire"
  shows "osys_inv (s\<lparr>pcs := (pcs s)(t := PIdle), AsyncPending := True\<rparr>) xs us vs"
    (is "osys_inv ?s xs us vs")
proof (rule osys_invI)
  show "heap_inv ?s xs us vs" using inv by (simp add: osys_inv_def heap_inv_def)
  show "owner_inv ?s (set (xs @ us @ vs))"
    using inv flight_of [OF pc] by (simp add: osys_inv_def owner_inv_def flights_same)
  show "cas_linked (pcs ?s) (OpNext (ol ?s))"
    using inv by (auto simp: osys_inv_def intro: cas_linked_upd simp del: fun_upd_apply)
  show "wakeup_due ?s" by (simp add: wakeup_due_def)
qed

text \<open>The steps of the loop thread.\<close>

lemma osys_inv_loop:
  assumes inv: "osys_inv s xs us vs"
  shows
    "lpc s = LWait \<Longrightarrow> osys_inv (s\<lparr>lpc := LGrab, AsyncPending := False\<rparr>) xs us vs"
    "lpc s = LGrab \<Longrightarrow> grab_exchange (ol s) = (p, l) \<Longrightarrow>
      osys_inv (s\<lparr>ol := l, lpc := LReverse p None\<rparr>) [] xs []"
    "lpc s = LReverse None newTop \<Longrightarrow> osys_inv (s\<lparr>lpc := LApply newTop\<rparr>) xs us vs"
    "lpc s = LApply None \<Longrightarrow> osys_inv (s\<lparr>lpc := LWait\<rparr>) xs us vs"
  using inv unfolding osys_inv_def heap_inv_def owner_inv_def wakeup_due_def
  by (auto simp: grab_exchange_def)

lemma osys_inv_turn:
  assumes inv: "osys_inv s xs us vs" and pc: "lpc s = LReverse (Some cur) newTop"
    and turn: "grab_turn cur newTop (ol s) = ((cur', newTop'), l)"
  shows "osys_inv (s\<lparr>ol := l, lpc := LReverse cur' newTop'\<rparr>) xs (tl us) (hd us # vs)"
    (is "osys_inv ?s xs _ _")
proof (rule osys_invI)
  have l: "l = (ol s)\<lparr>OpNext := (OpNext (ol s))(cur := newTop)\<rparr>"
    and cur': "cur' = OpNext (ol s) cur" "newTop' = Some cur"
    using turn by (auto simp: grab_turn_def Let_def)
  have h: "heap_inv s xs us vs" using inv by (simp add: osys_inv_def)
  then obtain us' where us: "us = cur # us'"
    using pc by (auto simp: heap_inv_def op_chain_Some)
  show "heap_inv ?s xs (tl us) (hd us # vs)"
    using h pc us by (auto simp: heap_inv_def l cur' simp del: fun_upd_apply simp: fun_upd_same)
  show "owner_inv ?s (set (xs @ tl us @ hd us # vs))"
    using inv us by (auto simp: osys_inv_def owner_inv_def)
  have "cur \<notin> ran (flights (pcs s))"
    using inv us by (auto simp: osys_inv_def owner_inv_def)
  then show "cas_linked (pcs ?s) (OpNext (ol ?s))"
    using inv cas_linked_link [of "pcs s" "OpNext (ol s)" cur newTop] by (simp add: osys_inv_def l)
  show "wakeup_due ?s" if "xs \<noteq> []"
    using inv that pc by (simp add: osys_inv_def wakeup_due_def)
qed

lemma osys_inv_apply:
  assumes inv: "osys_inv s xs us vs" and pc: "lpc s = LApply (Some op)"
  shows "osys_inv (s\<lparr>lpc := LApply (OpNext (ol s) op), applied := applied s @ [op],
    Pending := Pending s - {op}\<rparr>) xs us (tl vs)" (is "osys_inv ?s xs us _")
proof (rule osys_invI)
  have h: "heap_inv s xs us vs" using inv by (simp add: osys_inv_def)
  then obtain vs' where vs: "vs = op # vs'" and us: "us = []"
    using pc by (auto simp: heap_inv_def op_chain_Some)
  show "heap_inv ?s xs us (tl vs)" using h pc vs us by (simp add: heap_inv_def)
  show "owner_inv ?s (set (xs @ us @ tl vs))"
    using inv vs us h by (auto simp: osys_inv_def owner_inv_def heap_inv_def)
  show "cas_linked (pcs ?s) (OpNext (ol ?s))" using inv by (simp add: osys_inv_def)
  show "wakeup_due ?s" if "xs \<noteq> []"
    using inv that pc by (simp add: osys_inv_def wakeup_due_def)
qed

lemma osys_step_inv:
  assumes "osys_step s s'" "osys_inv s xs us vs"
  shows "\<exists>xs us vs. osys_inv s' xs us vs"
  using assms
proof (cases rule: osys_step.cases)
  case (cas_fail t op curTop b c l)
  then have "s' = s\<lparr>pcs := (pcs s)(t := PStore op c)\<rparr>"
    by (auto simp: push_cas_def split: if_splits)
  then show ?thesis
    using osys_inv_cas_fail [OF assms(2) cas_fail(2), of c] by blast
qed (use assms(2) in \<open>blast intro: osys_inv_start osys_inv_load osys_inv_store osys_inv_cas_ok
      osys_inv_fire osys_inv_loop osys_inv_turn osys_inv_apply\<close>)+

lemma osys_reach_inv: "osys_reach nx s \<Longrightarrow> \<exists>xs us vs. osys_inv s xs us vs"
  by (induction rule: osys_reach.induct) (blast intro: osys_inv_init osys_step_inv)+

section \<open>The loop thread drains the list\<close>

text \<open>What a step of the loop thread leaves alone.\<close>

definition loop_frame :: "'a osys \<Rightarrow> 'a osys \<Rightarrow> bool" where
  "loop_frame s s' \<longleftrightarrow> pcs s' = pcs s \<and> scheduled s' = scheduled s \<and>
     OpHead (ol s') = OpHead (ol s) \<and> AsyncPending s' = AsyncPending s"

lemma loop_frame_trans: "loop_frame a b \<Longrightarrow> loop_frame b c \<Longrightarrow> loop_frame a c"
  by (simp add: loop_frame_def)

lemma turns_run:
  assumes "lpc s = LReverse c nt" "op_chain (OpNext (ol s)) c us" "op_chain (OpNext (ol s)) nt vs"
    "distinct (us @ vs)"
  shows "\<exists>s' nt'. osys_step\<^sup>*\<^sup>* s s' \<and> lpc s' = LReverse None nt' \<and> loop_frame s s' \<and>
    applied s' = applied s \<and> op_chain (OpNext (ol s')) nt' (rev us @ vs)"
  using assms
proof (induction us arbitrary: s c nt vs)
  case Nil
  then show ?case by (auto simp: loop_frame_def)
next
  case (Cons u us)
  have c: "c = Some u" using Cons.prems(2) by simp
  let ?l = "(ol s)\<lparr>OpNext := (OpNext (ol s))(u := nt)\<rparr>"
  let ?s = "s\<lparr>ol := ?l, lpc := LReverse (OpNext (ol s) u) (Some u)\<rparr>"
  have st: "osys_step s ?s"
    by (rule osys_step.turn) (use Cons.prems(1) c in \<open>simp_all add: grab_turn_def Let_def\<close>)
  have "\<exists>s' nt'. osys_step\<^sup>*\<^sup>* ?s s' \<and> lpc s' = LReverse None nt' \<and> loop_frame ?s s' \<and>
      applied s' = applied ?s \<and> op_chain (OpNext (ol s')) nt' (rev us @ u # vs)"
    using Cons.prems by (intro Cons.IH) (auto simp del: fun_upd_apply simp: fun_upd_same)
  then show ?case
    using st by (auto simp: loop_frame_def intro: converse_rtranclp_into_rtranclp)
qed

lemma applies_run:
  assumes "lpc s = LApply p" "op_chain (OpNext (ol s)) p vs"
  shows "\<exists>s'. osys_step\<^sup>*\<^sup>* s s' \<and> lpc s' = LApply None \<and> loop_frame s s' \<and>
    applied s' = applied s @ vs"
  using assms
proof (induction vs arbitrary: s p)
  case Nil
  then show ?case by (auto simp: loop_frame_def)
next
  case (Cons v vs)
  let ?s = "s\<lparr>lpc := LApply (OpNext (ol s) v), applied := applied s @ [v],
      Pending := Pending s - {v}\<rparr>"
  have st: "osys_step s ?s" by (rule osys_step.apply_op) (use Cons.prems in simp)
  have "\<exists>s'. osys_step\<^sup>*\<^sup>* ?s s' \<and> lpc s' = LApply None \<and> loop_frame ?s s' \<and>
      applied s' = applied ?s @ vs"
    using Cons.prems by (intro Cons.IH) auto
  then show ?case
    using st by (auto simp: loop_frame_def intro: converse_rtranclp_into_rtranclp)
qed

text \<open>A whole run of \<open>ApplyOperations\<close>, from the wake-up of the loop to its return to libuv.\<close>

lemma drain_run:
  assumes "op_stack (ol s) xs" "lpc s = LWait" "AsyncPending s"
  shows "\<exists>s'. osys_step\<^sup>*\<^sup>* s s' \<and> lpc s' = LWait \<and> pcs s' = pcs s \<and> scheduled s' = scheduled s \<and>
    OpHead (ol s') = None \<and> \<not> AsyncPending s' \<and> applied s' = applied s @ rev xs"
proof -
  let ?s1 = "s\<lparr>lpc := LGrab, AsyncPending := False\<rparr>"
  let ?s2 = "?s1\<lparr>ol := (ol s)\<lparr>OpHead := None\<rparr>, lpc := LReverse (OpHead (ol s)) None\<rparr>"
  have s1: "osys_step s ?s1" using assms by (intro osys_step.wake)
  have s2: "osys_step ?s1 ?s2" by (rule osys_step.exchange) (simp_all add: grab_exchange_def)
  obtain s3 nt where s3: "osys_step\<^sup>*\<^sup>* ?s2 s3" "lpc s3 = LReverse None nt" "loop_frame ?s2 s3"
      "applied s3 = applied ?s2" "op_chain (OpNext (ol s3)) nt (rev xs @ [])"
    using turns_run [of ?s2 "OpHead (ol s)" None xs "[]"] assms(1) by (auto simp: op_stack_def)
  let ?s4 = "s3\<lparr>lpc := LApply nt\<rparr>"
  have s4: "osys_step s3 ?s4" using s3(2) by (rule osys_step.turned)
  obtain s5 where s5: "osys_step\<^sup>*\<^sup>* ?s4 s5" "lpc s5 = LApply None" "loop_frame ?s4 s5"
      "applied s5 = applied ?s4 @ rev xs"
    using applies_run [of ?s4 nt "rev xs"] s3(5) by auto
  let ?s6 = "s5\<lparr>lpc := LWait\<rparr>"
  have s6: "osys_step s5 ?s6" using s5(2) by (rule osys_step.applied_all)
  have "osys_step\<^sup>*\<^sup>* s ?s6"
    using s1 s2 s3(1) s4 s5(1) s6 by (meson rtranclp.rtrancl_into_rtrancl rtranclp_trans rtranclp.rtrancl_refl)
  then show ?thesis
    using s3 s5 by (intro exI [of _ ?s6]) (simp add: loop_frame_def)
qed

lemma osys_steps_Cons: "osys_step a b \<Longrightarrow> osys_step\<^sup>*\<^sup>* b c \<Longrightarrow> osys_step\<^sup>*\<^sup>* a c"
  by (rule converse_rtranclp_into_rtranclp)

lemma osys_steps_Nil: "osys_step\<^sup>*\<^sup>* a a"
  by simp

text \<open>A whole call of \<open>Schedule(op)\<close> that no other thread disturbs.\<close>

lemma schedule_run:
  assumes "pcs s t = PIdle" "op \<notin> Pending s"
  shows "osys_step\<^sup>*\<^sup>* s (s\<lparr>ol := \<lparr>OpHead = Some op, OpNext = (OpNext (ol s))(op := OpHead (ol s))\<rparr>,
    AsyncPending := True, Pending := insert op (Pending s), scheduled := scheduled s @ [op]\<rparr>)"
    (is "osys_step\<^sup>*\<^sup>* s ?s5")
proof -
  let ?s1 = "s\<lparr>pcs := (pcs s)(t := PLoad op), Pending := insert op (Pending s)\<rparr>"
  let ?s2 = "?s1\<lparr>pcs := (pcs ?s1)(t := PStore op (OpHead (ol ?s1)))\<rparr>"
  let ?l3 = "push_store op (OpHead (ol s)) (ol s)"
  let ?s3 = "?s2\<lparr>ol := push_store op (OpHead (ol s)) (ol ?s2),
      pcs := (pcs ?s2)(t := PCas op (OpHead (ol s)))\<rparr>"
  let ?s4 = "?s3\<lparr>ol := (ol ?s3)\<lparr>OpHead := Some op\<rparr>, pcs := (pcs ?s3)(t := PFire),
      scheduled := scheduled ?s3 @ [op]\<rparr>"
  let ?s6 = "?s4\<lparr>pcs := (pcs ?s4)(t := PIdle), AsyncPending := True\<rparr>"
  have a: "osys_step s ?s1" using assms by (rule osys_step.start)
  have b: "osys_step ?s1 ?s2" by (rule osys_step.load) simp
  have c: "osys_step ?s2 ?s3" by (rule osys_step.store) simp
  have cas: "push_cas False op (OpHead (ol s)) (ol ?s3) =
      ((True, OpHead (ol s)), (ol ?s3)\<lparr>OpHead := Some op\<rparr>)"
    by (simp add: push_cas_def push_store_def)
  have d: "osys_step ?s3 ?s4" by (rule osys_step.cas_ok [OF _ cas]) simp
  have e: "osys_step ?s4 ?s6" by (rule osys_step.fire) simp
  have "osys_step\<^sup>*\<^sup>* s ?s6"
    by (rule osys_steps_Cons [OF a osys_steps_Cons [OF b osys_steps_Cons [OF c
          osys_steps_Cons [OF d osys_steps_Cons [OF e osys_steps_Nil]]]]])
  moreover have "?s6 = ?s5"
    using assms(1) by (simp add: push_store_def fun_upd_idem)
  ultimately show ?thesis by simp
qed

lemma osys_reach_steps: "osys_reach nx s \<Longrightarrow> osys_step\<^sup>*\<^sup>* s s' \<Longrightarrow> osys_reach nx s'"
  by (rotate_tac, induction rule: rtranclp_induct) (auto intro: osys_reach.step)

text \<open>A run in which two threads push an operation each and the loop applies both.\<close>

lemma run_two_ops:
  "\<exists>s. osys_reach (\<lambda>_. None) s \<and> scheduled s = [7, 9::nat] \<and> applied s = [7, 9] \<and>
    (\<forall>t. pcs s t = PIdle) \<and> lpc s = LWait \<and> \<not> AsyncPending s"
proof -
  define s0 where "s0 = osys_init (\<lambda>_::nat. None)"
  note defs = s0_def osys_init_def TOperationList_def
  define s1 where "s1 = s0\<lparr>ol := \<lparr>OpHead = Some 7, OpNext = (OpNext (ol s0))(7 := OpHead (ol s0))\<rparr>,
    AsyncPending := True, Pending := insert 7 (Pending s0), scheduled := scheduled s0 @ [7]\<rparr>"
  define s2 where "s2 = s1\<lparr>ol := \<lparr>OpHead = Some 9, OpNext = (OpNext (ol s1))(9 := OpHead (ol s1))\<rparr>,
    AsyncPending := True, Pending := insert 9 (Pending s1), scheduled := scheduled s1 @ [9]\<rparr>"
  have "osys_step\<^sup>*\<^sup>* s0 s1"
    unfolding s1_def by (rule schedule_run [of _ 0]) (simp_all add: defs)
  moreover have "osys_step\<^sup>*\<^sup>* s1 s2"
    unfolding s2_def by (rule schedule_run [of _ 1]) (simp_all add: s1_def defs)
  ultimately have r: "osys_reach (\<lambda>_. None) s2"
    using osys_reach.init osys_reach_steps unfolding s0_def by (metis rtranclp_trans)
  have "op_stack (ol s2) [9, 7]" "lpc s2 = LWait" "AsyncPending s2" "\<forall>t. pcs s2 t = PIdle"
    "scheduled s2 = [7, 9]" "applied s2 = []"
    by (simp_all add: s2_def s1_def defs op_stack_def)
  then obtain s3 where "osys_step\<^sup>*\<^sup>* s2 s3" "lpc s3 = LWait" "pcs s3 = pcs s2"
      "scheduled s3 = [7, 9]" "\<not> AsyncPending s3" "applied s3 = [7, 9]"
    using drain_run [of s2 "[9, 7]"] by (metis append_Nil rev.simps append_Cons)
  then show ?thesis
    using osys_reach_steps [OF r] \<open>\<forall>t. pcs s2 t = PIdle\<close> by (intro exI [of _ s3]) simp
qed

section \<open>Properties\<close>

text \<open>
  C1: at every moment of every interleaving of pushing threads with the loop thread, the
  operations applied so far are the first of the scheduled ones, in the order in which
  their compare-and-exchange succeeded; the rest are distinct and all still pending.
  So no operation is applied twice for one \<open>Schedule\<close>, and none overtakes another.
\<close>

theorem applied_is_prefix_of_scheduled:
  assumes "osys_reach nx s"
  shows "\<exists>rest. scheduled s = applied s @ rest \<and> distinct rest \<and> set rest \<subseteq> Pending s"
proof -
  obtain xs us vs where "osys_inv s xs us vs" using osys_reach_inv [OF assms] by blast
  then show ?thesis
    by (intro exI [of _ "rev us @ vs @ rev xs"])
      (auto simp: osys_inv_def heap_inv_def owner_inv_def)
qed

theorem applied_is_prefix_of_scheduled_witness:
  "\<exists>s rest. osys_reach (\<lambda>_. None) s \<and> applied s = [7, 9::nat] \<and>
    scheduled s = applied s @ rest \<and> distinct rest"
  using run_two_ops applied_is_prefix_of_scheduled by blast

text \<open>
  C2: no operation is stranded in the list: whenever the list is not empty, the
  async handle is signalled, or a thread is about to signal it, or the loop thread is about
  to grab the list.
\<close>

theorem pushed_operation_has_wakeup:
  assumes "osys_reach nx s" "OpHead (ol s) \<noteq> None"
  shows "AsyncPending s \<or> (\<exists>t. pcs s t = PFire) \<or> lpc s = LGrab"
proof -
  obtain xs us vs where inv: "osys_inv s xs us vs" using osys_reach_inv [OF assms(1)] by blast
  then have "xs \<noteq> []" using assms(2) by (auto simp: osys_inv_def heap_inv_def)
  with inv show ?thesis by (simp add: osys_inv_def wakeup_due_def)
qed

theorem pushed_operation_has_wakeup_witness:
  "\<exists>s::nat osys. osys_reach (\<lambda>_. None) s \<and> OpHead (ol s) = Some 7 \<and>
    (AsyncPending s \<or> (\<exists>t. pcs s t = PFire) \<or> lpc s = LGrab)"
proof -
  let ?s = "osys_init (\<lambda>_::nat. None)"
  let ?s1 = "?s\<lparr>ol := \<lparr>OpHead = Some 7, OpNext = (OpNext (ol ?s))(7 := OpHead (ol ?s))\<rparr>,
    AsyncPending := True, Pending := insert 7 (Pending ?s), scheduled := scheduled ?s @ [7]\<rparr>"
  have "osys_step\<^sup>*\<^sup>* ?s ?s1"
    by (rule schedule_run [of _ 0]) (simp_all add: osys_init_def)
  then have "osys_reach (\<lambda>_. None) ?s1" by (rule osys_reach_steps [OF osys_reach.init])
  moreover have "OpHead (ol ?s1) = Some 7" by simp
  ultimately show ?thesis
    using pushed_operation_has_wakeup [of "\<lambda>_. None" ?s1] by blast
qed

text \<open>
  when every thread has returned from \<open>Schedule\<close> and the loop is back in libuv with no
  wake-up pending, every scheduled operation has been applied, in order, and the loop holds
  no operation.
\<close>

theorem quiescent_all_applied:
  assumes "osys_reach nx s" "\<forall>t. pcs s t = PIdle" "lpc s = LWait" "\<not> AsyncPending s"
  shows "applied s = scheduled s \<and> Pending s = {}"
proof -
  obtain xs us vs where inv: "osys_inv s xs us vs" using osys_reach_inv [OF assms(1)] by blast
  then have "xs = []" "us = []" "vs = []"
    using assms by (auto simp: osys_inv_def heap_inv_def wakeup_due_def)
  moreover have "ran (flights (pcs s)) = {}"
    using assms(2) by (simp add: flights_def [abs_def])
  ultimately show ?thesis
    using inv by (simp add: osys_inv_def heap_inv_def owner_inv_def)
qed

theorem quiescent_all_applied_witness:
  "\<exists>s. osys_reach (\<lambda>_. None) s \<and> applied s = [7, 9::nat] \<and> Pending s = {}"
  using run_two_ops quiescent_all_applied by metis

lemma ApplyOperations_returns:
  assumes "op_stack l (rev ops)" "apply_frame app (set ops)"
  shows "\<exists>l'. OpHead l' = None \<and> TLoop_ApplyOperations app (l, st) = Some (fold app ops (l', st))"
proof -
  obtain p l' where "TOperationList_Grab l = Some (p, l')" "op_chain (OpNext l') p ops"
      "OpHead l' = None"
    using Grab_stack [OF assms(1)] by auto
  moreover have "distinct ops" using assms(1) by (simp add: op_stack_def)
  ultimately show ?thesis
    using apply_loop_fold [of "(l', st)" p ops app] assms(2)
    by (auto simp: TLoop_ApplyOperations_def)
qed

text \<open>
  C6: \<open>ApplyOperations\<close> returns, whatever was pushed: it takes the list in one exchange, leaves
  it empty for the pushes made meanwhile, and applies each operation once, oldest first,
  provided that an operation leaves the links of the ones behind it alone.
\<close>

theorem ApplyOperations_applies_in_push_order:
  assumes "op_stack l (rev ops)" "apply_frame app (set ops)"
  shows "\<exists>l'. OpHead l' = None \<and> TLoop_ApplyOperations app (l, st) = Some (fold app ops (l', st))"
  by (rule ApplyOperations_returns [OF assms])

theorem ApplyOperations_applies_in_push_order_witness:
  "\<exists>l'. TLoop_ApplyOperations (\<lambda>op (l, log). (l, log @ [op]))
      (fold push_once [3, 1, 2::nat] (TOperationList (\<lambda>_. None)), []) =
    Some (l', [3, 1, 2])"
proof -
  have "op_stack (fold push_once [3, 1, 2::nat] (TOperationList (\<lambda>_. None))) (rev ([] @ [3, 1, 2]))"
    by (rule oq.rep_push_all) (simp_all add: op_stack_def TOperationList_def)
  moreover have "apply_frame (\<lambda>op (l, log). (l, log @ [op])) (set [3, 1, 2::nat])"
    by (simp add: apply_frame_def split: prod.splits)
  ultimately show ?thesis
    using ApplyOperations_applies_in_push_order [of _ "[3, 1, 2::nat]"
        "\<lambda>op (l, log). (l, log @ [op])" "[]"] by fastforce
qed

text \<open>
  from every reachable state in which the loop has been signalled, the steps of the loop
  thread alone apply every scheduled operation and return to libuv; no step of
  another thread is needed.
\<close>

theorem signalled_loop_drains:
  assumes "osys_reach nx s" "lpc s = LWait" "AsyncPending s"
  shows "\<exists>s'. osys_step\<^sup>*\<^sup>* s s' \<and> lpc s' = LWait \<and> pcs s' = pcs s \<and> OpHead (ol s') = None \<and>
    scheduled s' = scheduled s \<and> applied s' = scheduled s"
proof -
  obtain xs us vs where inv: "osys_inv s xs us vs" using osys_reach_inv [OF assms(1)] by blast
  then have "op_stack (ol s) xs" "applied s @ rev xs = scheduled s"
    using assms(2) by (auto simp: osys_inv_def heap_inv_def op_stack_def)
  then show ?thesis using drain_run [of s xs] assms(2,3) by metis
qed

theorem signalled_loop_drains_witness:
  "\<exists>s s'. osys_reach (\<lambda>_. None) s \<and> scheduled s = [7::nat] \<and> applied s = [] \<and>
    osys_step\<^sup>*\<^sup>* s s' \<and> applied s' = [7]"
proof -
  let ?s = "osys_init (\<lambda>_::nat. None)"
  let ?s1 = "?s\<lparr>ol := \<lparr>OpHead = Some 7, OpNext = (OpNext (ol ?s))(7 := OpHead (ol ?s))\<rparr>,
    AsyncPending := True, Pending := insert 7 (Pending ?s), scheduled := scheduled ?s @ [7]\<rparr>"
  have "osys_step\<^sup>*\<^sup>* ?s ?s1"
    by (rule schedule_run [of _ 0]) (simp_all add: osys_init_def)
  then have r: "osys_reach (\<lambda>_. None) ?s1" by (rule osys_reach_steps [OF osys_reach.init])
  have "scheduled ?s1 = [7]" "applied ?s1 = []" "lpc ?s1 = LWait" "AsyncPending ?s1"
    by (simp_all add: osys_init_def)
  then show ?thesis using signalled_loop_drains [OF r] r by metis
qed

end
