(* ===== verification/Uv_Errors.thy ===== *)
theory Uv_Errors
  imports Uv_Prelude
begin

text \<open>
  Errors: src/uv_util/errors.cpp, src/uv_util/misc.cpp, the address copies of
  src/uv_util/safe_uv.c and the error category of src/execution/error_code.cpp.
  The numeric values of libuv's and the platform's constants are not in the repository: they
  are the fields of a record \<open>platform\<close>, or a function from the constant's name.
\<close>

section \<open>Status codes\<close>

definition IsError :: "TUvError \<Rightarrow> bool" where
  "IsError uvErr \<longleftrightarrow> uvErr < 0"

definition ToErrc :: "TUvError \<Rightarrow> EErrc" where
  "ToErrc uvErr = (if IsError uvErr then EErrc uvErr else EErrc 0)"

text \<open>\<open>Assert\<close> throws \<open>std::system_error(EErrc{uvErr})\<close>: the left side of a sum.\<close>

definition Assert :: "TUvError \<Rightarrow> EErrc + unit" where
  "Assert uvErr = (if IsError uvErr then Inl (EErrc uvErr) else Inr ())"

text \<open>\<open>Panic\<close> prints \<open>uv_strerror\<close> of the status and calls \<open>std::terminate\<close>.\<close>

datatype process_state = Continues | Terminated string

definition Panic :: "(int \<Rightarrow> string) \<Rightarrow> TUvError \<Rightarrow> process_state" where
  "Panic uv_strerror uvErr =
     (if IsError uvErr then Terminated (''Panicked with UV error: '' @ uv_strerror uvErr @ [CHR 0x0A])
      else Continues)"

record platform =
  UV_EINVAL :: int
  UV_EOF :: int
  AF_INET :: nat
  AF_INET6 :: nat
  sizeof_sockaddr_in :: nat
  sizeof_sockaddr_in6 :: nat

text \<open>\<open>memcpy\<close> of the whole structure, the family being part of it.\<close>

definition memcpy_sockaddr :: "sockaddr \<Rightarrow> sockaddr \<Rightarrow> nat \<Rightarrow> sockaddr" where
  "memcpy_sockaddr to from n =
     \<lparr>sa_family = sa_family from, sa_bytes = take n (sa_bytes from) @ drop n (sa_bytes to)\<rparr>"

definition UvCopyInAddress :: "platform \<Rightarrow> sockaddr \<Rightarrow> sockaddr \<Rightarrow> TUvError \<times> sockaddr" where
  "UvCopyInAddress P from to =
     (if sa_family from \<noteq> AF_INET P then (UV_EINVAL P, to)
      else (0, memcpy_sockaddr to from (sizeof_sockaddr_in P)))"

definition UvCopyIn6Address :: "platform \<Rightarrow> sockaddr \<Rightarrow> sockaddr \<Rightarrow> TUvError \<times> sockaddr" where
  "UvCopyIn6Address P from to =
     (if sa_family from \<noteq> AF_INET6 P then (UV_EINVAL P, to)
      else (0, memcpy_sockaddr to from (sizeof_sockaddr_in6 P)))"

text \<open>The overloads of \<open>CopyAddress\<close>: the type of the destination chooses.\<close>

datatype addr_kind = TIp4Addr | TIp6Addr

definition CopyAddress :: "platform \<Rightarrow> addr_kind \<Rightarrow> sockaddr \<Rightarrow> sockaddr \<Rightarrow> TUvError \<times> sockaddr" where
  "CopyAddress P k from to =
     (case k of TIp4Addr \<Rightarrow> UvCopyInAddress P from to | TIp6Addr \<Rightarrow> UvCopyIn6Address P from to)"

lemmas uv_error_defs = IsError_def ToErrc_def Assert_def Panic_def

section \<open>The error enumeration\<close>

text \<open>\<open>enum class EErrc\<close>: every enumerator with the libuv constant it is defined by.\<close>

definition EErrc_table :: "(string \<times> string) list" where
  "EErrc_table =
     [(''ai_address_family_not_supported'', ''UV_EAI_ADDRFAMILY''),
      (''ai_bad_flags'', ''UV_EAI_BADFLAGS''),
      (''ai_bad_node'', ''UV_EAI_NONAME''),
      (''ai_buffer_too_small'', ''UV_EAI_OVERFLOW''),
      (''ai_invalid_hint'', ''UV_EAI_BADHINTS''),
      (''ai_failure'', ''UV_EAI_FAIL''),
      (''ai_family_not_supported'', ''UV_EAI_FAMILY''),
      (''ai_not_enough_memory'', ''UV_EAI_MEMORY''),
      (''ai_no_address'', ''UV_EAI_NODATA''),
      (''ai_protocol_error'', ''UV_EAI_PROTOCOL''),
      (''ai_request_cancelled'', ''UV_EAI_CANCELED''),
      (''ai_service_not_avilable'', ''UV_EAI_SERVICE''),
      (''ai_socket_type_not_supported'', ''UV_EAI_SOCKTYPE''),
      (''ai_temporary_failure_try_again'', ''UV_EAI_AGAIN''),
      (''address_family_not_supported'', ''UV_EAFNOSUPPORT''),
      (''address_in_use'', ''UV_EADDRINUSE''),
      (''address_not_available'', ''UV_EADDRNOTAVAIL''),
      (''already_connected'', ''UV_EISCONN''),
      (''argument_list_too_long'', ''UV_E2BIG''),
      (''bad_address'', ''UV_EFAULT''),
      (''bad_file_descriptor'', ''UV_EBADF''),
      (''broken_pipe'', ''UV_EPIPE''),
      (''connection_aborted'', ''UV_ECONNABORTED''),
      (''connection_already_in_progress'', ''UV_EALREADY''),
      (''connection_refused'', ''UV_ECONNREFUSED''),
      (''connection_reset'', ''UV_ECONNRESET''),
      (''cross_device_link'', ''UV_EXDEV''),
      (''destination_address_required'', ''UV_EDESTADDRREQ''),
      (''device_or_resource_busy'', ''UV_EBUSY''),
      (''directory_not_empty'', ''UV_ENOTEMPTY''),
      (''end_of_file'', ''UV_EOF''),
      (''file_exists'', ''UV_EEXIST''),
      (''file_too_large'', ''UV_EFBIG''),
      (''filename_too_long'', ''UV_ENAMETOOLONG''),
      (''function_not_supported'', ''UV_ENOSYS''),
      (''host_unreachable'', ''UV_EHOSTUNREACH''),
      (''illegal_byte_sequence'', ''UV_EILSEQ''),
      (''inappropriate_file_type'', ''UV_EFTYPE''),
      (''inappropriate_io_control_operation'', ''UV_ENOTTY''),
      (''interrupted'', ''UV_EINTR''),
      (''invalid_argument'', ''UV_EINVAL''),
      (''invalid_character'', ''UV_ECHARSET''),
      (''invalid_seek'', ''UV_ESPIPE''),
      (''io_error'', ''UV_EIO''),
      (''is_a_directory'', ''UV_EISDIR''),
      (''message_size'', ''UV_EMSGSIZE''),
      (''network_down'', ''UV_ENETDOWN''),
      (''network_unreachable'', ''UV_ENETUNREACH''),
      (''no_buffer_space'', ''UV_ENOBUFS''),
      (''no_message_available'', ''UV_ENODATA''),
      (''no_protocol_option'', ''UV_ENOPROTOOPT''),
      (''no_space_on_device'', ''UV_ENOSPC''),
      (''no_such_device_or_address'', ''UV_ENXIO''),
      (''no_such_device'', ''UV_ENODEV''),
      (''no_such_file_or_directory'', ''UV_ENOENT''),
      (''no_such_process'', ''UV_ESRCH''),
      (''not_a_directory'', ''UV_ENOTDIR''),
      (''not_a_socket'', ''UV_ENOTSOCK''),
      (''not_connected'', ''UV_ENOTCONN''),
      (''not_enough_memory'', ''UV_ENOMEM''),
      (''not_on_the_network'', ''UV_ENONET''),
      (''not_supported'', ''UV_ENOTSUP''),
      (''operation_canceled'', ''UV_ECANCELED''),
      (''operation_not_permitted'', ''UV_EPERM''),
      (''permission_denied'', ''UV_EACCES''),
      (''protocol_error'', ''UV_EPROTO''),
      (''protocol_driver_not_attached'', ''UV_EUNATCH''),
      (''protocol_not_supported'', ''UV_EPROTONOSUPPORT''),
      (''read_only_file_system'', ''UV_EROFS''),
      (''resource_unavailable_try_again'', ''UV_EAGAIN''),
      (''result_out_of_range'', ''UV_ERANGE''),
      (''socket_type_not_supported'', ''UV_ESOCKTNOSUPPORT''),
      (''text_file_busy'', ''UV_ETXTBSY''),
      (''timed_out'', ''UV_ETIMEDOUT''),
      (''too_many_files_open_in_system'', ''UV_ENFILE''),
      (''too_many_files_open'', ''UV_EMFILE''),
      (''too_many_links'', ''UV_EMLINK''),
      (''too_many_symbolic_link_levels'', ''UV_ELOOP''),
      (''transport_endpoint_shutdown'', ''UV_ESHUTDOWN''),
      (''unknown_error'', ''UV_UNKNOWN''),
      (''value_too_large'', ''UV_EOVERFLOW''),
      (''wrong_protocol_type'', ''UV_EPROTOTYPE'')]"

text \<open>\<open>std::error_code\<close>: a value and a category; it converts to true when the value is not 0.\<close>

record error_code =
  ec_value :: int
  ec_category :: string

definition TCategory_name :: string where
  "TCategory_name = ''uv''"

definition TCategory_message :: "(int \<Rightarrow> string) \<Rightarrow> int \<Rightarrow> string" where
  "TCategory_message uv_strerror ec = uv_strerror ec"

definition make_error_code :: "EErrc \<Rightarrow> error_code" where
  "make_error_code e = (case e of EErrc i \<Rightarrow> \<lparr>ec_value = i, ec_category = TCategory_name\<rparr>)"

definition error_code_bool :: "error_code \<Rightarrow> bool" where
  "error_code_bool c \<longleftrightarrow> ec_value c \<noteq> 0"

text \<open>The enumerator of a given name under given values of libuv's constants.\<close>

definition enumerator :: "(string \<Rightarrow> int) \<Rightarrow> string \<Rightarrow> EErrc option" where
  "enumerator uvconst n = map_option (\<lambda>c. EErrc (uvconst c)) (map_of EErrc_table n)"

lemma EErrc_table_distinct_names: "distinct (map fst EErrc_table)"
  unfolding EErrc_table_def by code_simp

lemma EErrc_table_distinct_constants: "distinct (map snd EErrc_table)"
  unfolding EErrc_table_def by code_simp

section \<open>Properties\<close>

text \<open>
  if libuv's constants are distinct and negative, the enumerators of \<open>EErrc\<close> are distinct errors:
  two names never make the same error code, each makes one that converts to true,
  and \<open>ToErrc\<close> of the constant's status gives back the enumerator.
\<close>

theorem enumerators_are_distinct_errors:
  assumes "inj_on uvconst (snd ` set EErrc_table)" "\<forall>c \<in> snd ` set EErrc_table. uvconst c < 0"
    and "(n, c) \<in> set EErrc_table" "(m, d) \<in> set EErrc_table"
  shows "enumerator uvconst n = Some (EErrc (uvconst c)) \<and>
    ToErrc (uvconst c) = EErrc (uvconst c) \<and>
    error_code_bool (make_error_code (EErrc (uvconst c))) \<and>
    (make_error_code (EErrc (uvconst c)) = make_error_code (EErrc (uvconst d)) \<longleftrightarrow> n = m)"
proof -
  have neg: "uvconst c < 0" using assms(2,3) by force
  have "uvconst c = uvconst d \<longleftrightarrow> c = d"
    using assms(1,3,4) by (force dest: inj_onD)
  moreover have "c = d \<longleftrightarrow> n = m"
    using assms(3,4) EErrc_table_distinct_names EErrc_table_distinct_constants
    by (force simp: distinct_map inj_on_def)
  ultimately show ?thesis
    using neg assms(3) EErrc_table_distinct_names
    by (simp add: enumerator_def ToErrc_def IsError_def make_error_code_def error_code_bool_def)
qed

definition sample_constants :: "string \<Rightarrow> int" where
  "sample_constants c =
     - 1 - int (length (takeWhile (\<lambda>d. d \<noteq> c) (map snd EErrc_table)))"

lemma sample_constants_inj: "inj_on sample_constants (snd ` set EErrc_table)"
proof (rule inj_onI)
  fix x y
  assume xy: "x \<in> snd ` set EErrc_table" "y \<in> snd ` set EErrc_table"
    "sample_constants x = sample_constants y"
  have at: "map snd EErrc_table ! length (takeWhile (\<lambda>d. d \<noteq> z) (map snd EErrc_table)) = z"
    if "z \<in> snd ` set EErrc_table" for z
  proof -
    let ?l = "map snd EErrc_table"
    have z: "z \<in> set ?l" using that by simp
    have "length (takeWhile (\<lambda>d. d \<noteq> z) ?l) \<noteq> length ?l"
      using z takeWhile_eq_all_conv [of "\<lambda>d. d \<noteq> z" ?l] takeWhile_eq_take [of "\<lambda>d. d \<noteq> z" ?l]
      by (metis order_refl take_all)
    then have "length (takeWhile (\<lambda>d. d \<noteq> z) ?l) < length ?l"
      using length_takeWhile_le [of "\<lambda>d. d \<noteq> z" ?l] by linarith
    from nth_length_takeWhile [OF this] show ?thesis by blast
  qed
  have "length (takeWhile (\<lambda>d. d \<noteq> x) (map snd EErrc_table)) =
      length (takeWhile (\<lambda>d. d \<noteq> y) (map snd EErrc_table))"
    using xy(3) unfolding sample_constants_def by linarith
  with at [OF xy(1)] at [OF xy(2)] show "x = y" by argo
qed

theorem enumerators_are_distinct_errors_witness:
  "make_error_code (EErrc (sample_constants ''UV_EOF'')) \<noteq>
   make_error_code (EErrc (sample_constants ''UV_EPIPE''))"
proof -
  have m: "(''end_of_file'', ''UV_EOF'') \<in> set EErrc_table"
    "(''broken_pipe'', ''UV_EPIPE'') \<in> set EErrc_table"
    by (simp_all add: EErrc_table_def)
  have "\<forall>c \<in> snd ` set EErrc_table. sample_constants c < 0"
    by (simp add: sample_constants_def)
  from enumerators_are_distinct_errors [OF sample_constants_inj this m] show ?thesis by simp
qed

text \<open>
  \<open>CopyAddress\<close> fills an address of one family from a \<open>sockaddr\<close> of the same family only: then the
  family and the bytes of the structure are the source's, otherwise it reports
  \<open>UV_EINVAL\<close> and leaves the destination as it was.
\<close>

theorem CopyAddress_checks_family:
  "CopyAddress P k from to =
     (let (family, size) = (case k of TIp4Addr \<Rightarrow> (AF_INET P, sizeof_sockaddr_in P)
                                    | TIp6Addr \<Rightarrow> (AF_INET6 P, sizeof_sockaddr_in6 P))
      in if sa_family from = family
         then (0, \<lparr>sa_family = family, sa_bytes = take size (sa_bytes from) @ drop size (sa_bytes to)\<rparr>)
         else (UV_EINVAL P, to))"
  by (cases k) (simp_all add: CopyAddress_def UvCopyInAddress_def UvCopyIn6Address_def
      memcpy_sockaddr_def)

end
