(* ===== verification/Uv_Requests.thy ===== *)
theory Uv_Requests
  imports Uv_Errors
begin

text \<open>
  The request layer of src/uv_util/reqs.cpp over src/uv_util/safe_uv.c. Each overload hands
  its arguments on to one libuv function and returns that function's status. The overloads
  for IPv4 and IPv6 addresses differ in the C type of the address only (both are cast to
  \<open>struct sockaddr\<close>), so one definition models both. The alloc callbacks are pure (they return the
  buffer the caller supplied) and not part of the recorded call.
\<close>

section \<open>Handles\<close>

definition Init_timer :: "uvenv \<Rightarrow> ptr \<Rightarrow> ptr \<Rightarrow> 'a world_scheme \<Rightarrow> TUvError \<times> 'a world_scheme" where
  "Init_timer env timer loop = uv env (uv_timer_init loop timer)"

definition Init_signal :: "uvenv \<Rightarrow> ptr \<Rightarrow> ptr \<Rightarrow> 'a world_scheme \<Rightarrow> TUvError \<times> 'a world_scheme" where
  "Init_signal env sig loop = uv env (uv_signal_init loop sig)"

definition Fire :: "uvenv \<Rightarrow> ptr \<Rightarrow> 'a world_scheme \<Rightarrow> TUvError \<times> 'a world_scheme" where
  "Fire env req = uv env (uv_async_send req)"

definition TimerStart ::
    "uvenv \<Rightarrow> ptr \<Rightarrow> uv_cb \<Rightarrow> u64 \<Rightarrow> u64 \<Rightarrow> 'a world_scheme \<Rightarrow> TUvError \<times> 'a world_scheme" where
  "TimerStart env req cb timeout rep = uv env (uv_timer_start req cb timeout rep)"

definition TimerStop :: "uvenv \<Rightarrow> ptr \<Rightarrow> 'a world_scheme \<Rightarrow> TUvError \<times> 'a world_scheme" where
  "TimerStop env req = uv env (uv_timer_stop req)"

definition SignalOnce ::
    "uvenv \<Rightarrow> ptr \<Rightarrow> uv_cb \<Rightarrow> int \<Rightarrow> 'a world_scheme \<Rightarrow> TUvError \<times> 'a world_scheme" where
  "SignalOnce env req cb signum = uv env (uv_signal_start_oneshot req cb signum)"

definition SignalStop :: "uvenv \<Rightarrow> ptr \<Rightarrow> 'a world_scheme \<Rightarrow> TUvError \<times> 'a world_scheme" where
  "SignalStop env req = uv env (uv_signal_stop req)"

section \<open>Sockets\<close>

definition UvTcpBind :: "ptr \<Rightarrow> sockaddr \<Rightarrow> uv_call" where
  "UvTcpBind tcp addr = uv_tcp_bind tcp addr 0"

definition UvUdpBind :: "ptr \<Rightarrow> sockaddr \<Rightarrow> uv_call" where
  "UvUdpBind udp addr = uv_udp_bind udp addr 0"

definition UvTcpListen :: "ptr \<Rightarrow> int \<Rightarrow> uv_cb \<Rightarrow> uv_call" where
  "UvTcpListen tcp backlog cb = uv_listen tcp backlog cb"

definition UvTcpAccept :: "ptr \<Rightarrow> ptr \<Rightarrow> uv_call" where
  "UvTcpAccept server client = uv_accept server client"

definition UvTcpConnect :: "ptr \<Rightarrow> ptr \<Rightarrow> sockaddr \<Rightarrow> uv_cb \<Rightarrow> uv_call" where
  "UvTcpConnect req tcp addr cb = uv_tcp_connect req tcp addr cb"

definition UvUdpConnect :: "ptr \<Rightarrow> sockaddr \<Rightarrow> uv_call" where
  "UvUdpConnect udp addr = uv_udp_connect udp addr"

definition UvTcpShutdown :: "ptr \<Rightarrow> ptr \<Rightarrow> uv_cb \<Rightarrow> uv_call" where
  "UvTcpShutdown req tcp cb = uv_shutdown req tcp cb"

definition UvTcpReadStart :: "ptr \<Rightarrow> uv_cb \<Rightarrow> uv_call" where
  "UvTcpReadStart tcp rcb = uv_read_start tcp rcb"

definition UvTcpReadStop :: "ptr \<Rightarrow> uv_call" where
  "UvTcpReadStop tcp = uv_read_stop tcp"

definition UvTcpWrite :: "ptr \<Rightarrow> ptr \<Rightarrow> uv_buf_t list \<Rightarrow> 32 word \<Rightarrow> uv_cb \<Rightarrow> uv_call" where
  "UvTcpWrite req tcp bufs nbufs cb = uv_write req tcp bufs nbufs cb"

definition UvUdpSend ::
    "ptr \<Rightarrow> ptr \<Rightarrow> uv_buf_t list \<Rightarrow> 32 word \<Rightarrow> sockaddr option \<Rightarrow> uv_cb \<Rightarrow> uv_call" where
  "UvUdpSend req udp bufs nbufs addr cb = uv_udp_send req udp bufs nbufs addr cb"

definition Bind :: "uvenv \<Rightarrow> ptr \<Rightarrow> sockaddr \<Rightarrow> 'a world_scheme \<Rightarrow> TUvError \<times> 'a world_scheme" where
  "Bind env tcp addr = uv env (UvTcpBind tcp addr)"

definition Accept_req :: "uvenv \<Rightarrow> ptr \<Rightarrow> ptr \<Rightarrow> 'a world_scheme \<Rightarrow> TUvError \<times> 'a world_scheme" where
  "Accept_req env server client = uv env (UvTcpAccept server client)"

definition Connect_tcp ::
    "uvenv \<Rightarrow> ptr \<Rightarrow> ptr \<Rightarrow> sockaddr \<Rightarrow> uv_cb \<Rightarrow> 'a world_scheme \<Rightarrow> TUvError \<times> 'a world_scheme" where
  "Connect_tcp env req tcp addr cb = uv env (UvTcpConnect req tcp addr cb)"

definition Connect_udp :: "uvenv \<Rightarrow> ptr \<Rightarrow> sockaddr \<Rightarrow> 'a world_scheme \<Rightarrow> TUvError \<times> 'a world_scheme" where
  "Connect_udp env udp addr = uv env (UvUdpConnect udp addr)"

definition Shutdown ::
    "uvenv \<Rightarrow> ptr \<Rightarrow> ptr \<Rightarrow> uv_cb \<Rightarrow> 'a world_scheme \<Rightarrow> TUvError \<times> 'a world_scheme" where
  "Shutdown env req tcp cb = uv env (UvTcpShutdown req tcp cb)"

definition CloseReset ::
    "uvenv \<Rightarrow> ptr \<Rightarrow> uv_cb option \<Rightarrow> 'a world_scheme \<Rightarrow> TUvError \<times> 'a world_scheme" where
  "CloseReset env handle cb = uv env (uv_tcp_close_reset handle cb)"

definition ReadStart :: "uvenv \<Rightarrow> ptr \<Rightarrow> uv_cb \<Rightarrow> 'a world_scheme \<Rightarrow> TUvError \<times> 'a world_scheme" where
  "ReadStart env tcp rcb = uv env (UvTcpReadStart tcp rcb)"

definition ReadStop :: "uvenv \<Rightarrow> ptr \<Rightarrow> 'a world_scheme \<Rightarrow> TUvError \<times> 'a world_scheme" where
  "ReadStop env tcp = uv env (UvTcpReadStop tcp)"

definition ReceiveStart :: "uvenv \<Rightarrow> ptr \<Rightarrow> uv_cb \<Rightarrow> 'a world_scheme \<Rightarrow> TUvError \<times> 'a world_scheme" where
  "ReceiveStart env udp rcb = uv env (uv_udp_recv_start udp rcb)"

definition ReceiveStop :: "uvenv \<Rightarrow> ptr \<Rightarrow> 'a world_scheme \<Rightarrow> TUvError \<times> 'a world_scheme" where
  "ReceiveStop env udp = uv env (uv_udp_recv_stop udp)"

text \<open>\<open>static_cast<unsigned>(bufs.size())\<close>: the 64-bit size, cut to 32 bits.\<close>

definition nbufs_of :: "uv_buf_t list \<Rightarrow> 32 word" where
  "nbufs_of bufs = ucast (of_nat (length bufs) :: size_t)"

definition Write ::
    "uvenv \<Rightarrow> ptr \<Rightarrow> ptr \<Rightarrow> uv_buf_t list \<Rightarrow> uv_cb \<Rightarrow> 'a world_scheme \<Rightarrow> TUvError \<times> 'a world_scheme" where
  "Write env req tcp bufs cb = uv env (UvTcpWrite req tcp bufs (nbufs_of bufs) cb)"

definition Send_to ::
    "uvenv \<Rightarrow> ptr \<Rightarrow> ptr \<Rightarrow> uv_buf_t list \<Rightarrow> uv_cb \<Rightarrow> sockaddr \<Rightarrow> 'a world_scheme \<Rightarrow>
     TUvError \<times> 'a world_scheme" where
  "Send_to env req udp bufs cb addr = uv env (UvUdpSend req udp bufs (nbufs_of bufs) (Some addr) cb)"

definition Send ::
    "uvenv \<Rightarrow> ptr \<Rightarrow> ptr \<Rightarrow> uv_buf_t list \<Rightarrow> uv_cb \<Rightarrow> 'a world_scheme \<Rightarrow> TUvError \<times> 'a world_scheme" where
  "Send env req udp bufs cb = uv env (UvUdpSend req udp bufs (nbufs_of bufs) None cb)"

definition Close :: "ptr \<Rightarrow> uv_cb option \<Rightarrow> 'a world_scheme \<Rightarrow> 'a world_scheme" where
  "Close handle cb = uv_void (uv_close handle cb)"

lemmas req_defs = Init_timer_def Init_signal_def Fire_def TimerStart_def TimerStop_def
  SignalOnce_def SignalStop_def UvTcpBind_def UvUdpBind_def UvTcpListen_def UvTcpAccept_def
  UvTcpConnect_def UvUdpConnect_def UvTcpShutdown_def UvTcpReadStart_def UvTcpReadStop_def
  UvTcpWrite_def UvUdpSend_def Bind_def Accept_req_def Connect_tcp_def Connect_udp_def
  Shutdown_def CloseReset_def ReadStart_def ReadStop_def ReceiveStart_def ReceiveStop_def
  Write_def Send_to_def Send_def Close_def

declare req_defs [handler_defs] uv_def [handler_defs] uv_void_def [handler_defs]
  Schedule_def [handler_defs] IsError_def [handler_defs] ToErrc_def [handler_defs]

section \<open>What libuv promises, on the trace\<close>

text \<open>
  libuv's documented behaviour towards a handle \<open>h\<close>, as functions of the trace so far:
  \<open>inited\<close> when its init succeeded and its close has not completed, \<open>active\<close> when a successful start
  has not been followed by a stop, by the callback of a one-shot watcher or by \<open>uv_close\<close>,
  \<open>closing\<close> from \<open>uv_close\<close> to the close callback. A request is \<open>in_flight\<close> from the successful call
  to its callback. An operation is \<open>queued\<close> from \<open>Schedule\<close> to \<open>Apply\<close>, a child operation is
  \<open>running\<close> from \<open>stdexec::start\<close> to its one completion.
\<close>

fun inited_upd :: "ptr \<Rightarrow> effect \<Rightarrow> bool \<Rightarrow> bool" where
  "inited_upd h (UvCall (uv_timer_init _ g) st) b = (b \<or> g = h \<and> 0 \<le> st)"
| "inited_upd h (UvCall (uv_signal_init _ g) st) b = (b \<or> g = h \<and> 0 \<le> st)"
| "inited_upd h (UvCall (uv_tcp_init _ g) st) b = (b \<or> g = h \<and> 0 \<le> st)"
| "inited_upd h (UvCall (uv_udp_init _ g) st) b = (b \<or> g = h \<and> 0 \<le> st)"
| "inited_upd h (Callback CloseCallback g) b = (b \<and> g \<noteq> h)"
| "inited_upd h _ b = b"

fun active_upd :: "ptr \<Rightarrow> effect \<Rightarrow> bool \<Rightarrow> bool" where
  "active_upd h (UvCall (uv_timer_start g _ _ _) st) b = (b \<or> g = h \<and> 0 \<le> st)"
| "active_upd h (UvCall (uv_signal_start_oneshot g _ _) st) b = (b \<or> g = h \<and> 0 \<le> st)"
| "active_upd h (UvCall (uv_read_start g _) st) b = (b \<or> g = h \<and> 0 \<le> st)"
| "active_upd h (UvCall (uv_udp_recv_start g _) st) b = (b \<or> g = h \<and> 0 \<le> st)"
| "active_upd h (UvCall (uv_timer_stop g) st) b = (b \<and> g \<noteq> h)"
| "active_upd h (UvCall (uv_signal_stop g) st) b = (b \<and> g \<noteq> h)"
| "active_upd h (UvCall (uv_read_stop g) st) b = (b \<and> g \<noteq> h)"
| "active_upd h (UvCall (uv_udp_recv_stop g) st) b = (b \<and> g \<noteq> h)"
| "active_upd h (UvCall (uv_close g _) st) b = (b \<and> g \<noteq> h)"
| "active_upd h (UvCall (uv_tcp_close_reset g _) st) b = (b \<and> \<not> (g = h \<and> 0 \<le> st))"
| "active_upd h (Callback AfterCallback g) b = (b \<and> g \<noteq> h)"
| "active_upd h (Callback SignalCallback g) b = (b \<and> g \<noteq> h)"
| "active_upd h _ b = b"

fun closing_upd :: "ptr \<Rightarrow> effect \<Rightarrow> bool \<Rightarrow> bool" where
  "closing_upd h (UvCall (uv_close g _) st) b = (b \<or> g = h)"
| "closing_upd h (UvCall (uv_tcp_close_reset g _) st) b = (b \<or> g = h \<and> 0 \<le> st)"
| "closing_upd h (Callback CloseCallback g) b = (b \<and> g \<noteq> h)"
| "closing_upd h _ b = b"

fun in_flight_upd :: "ptr \<Rightarrow> effect \<Rightarrow> bool \<Rightarrow> bool" where
  "in_flight_upd r (UvCall (uv_tcp_connect q _ _ _) st) b = (b \<or> q = r \<and> 0 \<le> st)"
| "in_flight_upd r (UvCall (uv_write q _ _ _ _) st) b = (b \<or> q = r \<and> 0 \<le> st)"
| "in_flight_upd r (UvCall (uv_udp_send q _ _ _ _ _) st) b = (b \<or> q = r \<and> 0 \<le> st)"
| "in_flight_upd r (UvCall (uv_shutdown q _ _) st) b = (b \<or> q = r \<and> 0 \<le> st)"
| "in_flight_upd r (Callback WriteCallback q) b = (b \<and> q \<noteq> r)"
| "in_flight_upd r (Callback SendCallback q) b = (b \<and> q \<noteq> r)"
| "in_flight_upd r (Callback SendToCallback q) b = (b \<and> q \<noteq> r)"
| "in_flight_upd r (Callback ShutdownCallback q) b = (b \<and> q \<noteq> r)"
| "in_flight_upd r (Callback ConnectCallback q) b = (b \<and> q \<noteq> r)"
| "in_flight_upd r _ b = b"

fun queued_upd :: "ptr \<Rightarrow> effect \<Rightarrow> bool \<Rightarrow> bool" where
  "queued_upd p (Scheduled q) b = (b \<or> q = p)"
| "queued_upd p (Applied q) b = (b \<and> q \<noteq> p)"
| "queued_upd p _ b = b"

fun running_upd :: "ptr \<Rightarrow> effect \<Rightarrow> bool \<Rightarrow> bool" where
  "running_upd p (Started q) b = (b \<or> q = p)"
| "running_upd p (ChildDone q) b = (b \<and> q \<noteq> p)"
| "running_upd p _ b = b"

definition inited :: "ptr \<Rightarrow> effect list \<Rightarrow> bool" where
  "inited h tr = fold (inited_upd h) tr False"

definition active :: "ptr \<Rightarrow> effect list \<Rightarrow> bool" where
  "active h tr = fold (active_upd h) tr False"

definition closing :: "ptr \<Rightarrow> effect list \<Rightarrow> bool" where
  "closing h tr = fold (closing_upd h) tr False"

definition in_flight :: "ptr \<Rightarrow> effect list \<Rightarrow> bool" where
  "in_flight r tr = fold (in_flight_upd r) tr False"

definition queued :: "ptr \<Rightarrow> effect list \<Rightarrow> bool" where
  "queued p tr = fold (queued_upd p) tr False"

definition running :: "ptr \<Rightarrow> effect list \<Rightarrow> bool" where
  "running p tr = fold (running_upd p) tr False"

definition undefined_in :: "effect list \<Rightarrow> bool" where
  "undefined_in tr = list_ex (\<lambda>e. case e of Undefined _ \<Rightarrow> True | _ \<Rightarrow> False) tr"

lemma undefined_in_simps [simp]:
  "\<not> undefined_in []"
  "undefined_in (xs @ ys) = (undefined_in xs \<or> undefined_in ys)"
  "undefined_in (e # es) = ((case e of Undefined _ \<Rightarrow> True | _ \<Rightarrow> False) \<or> undefined_in es)"
  by (simp_all add: undefined_in_def)

lemma uv_state_Nil [simp]:
  "\<not> running h []"
  "\<not> inited h []" "\<not> active h []" "\<not> closing h []" "\<not> in_flight h []" "\<not> queued h []"
  by (simp_all add: inited_def active_def closing_def in_flight_def queued_def
      running_def)

lemma uv_state_append [simp]:
  "inited h (tr @ es) = fold (inited_upd h) es (inited h tr)"
  "active h (tr @ es) = fold (active_upd h) es (active h tr)"
  "closing h (tr @ es) = fold (closing_upd h) es (closing h tr)"
  "in_flight h (tr @ es) = fold (in_flight_upd h) es (in_flight h tr)"
  "queued h (tr @ es) = fold (queued_upd h) es (queued h tr)"
  "running h (tr @ es) = fold (running_upd h) es (running h tr)"
  by (simp_all add: inited_def active_def closing_def in_flight_def queued_def running_def)

text \<open>The number of times a handle was closed, and whether the handle was ever handed to libuv
  after its \<open>uv_close\<close>.\<close>

fun closes :: "ptr \<Rightarrow> effect list \<Rightarrow> nat" where
  "closes h [] = 0"
| "closes h (UvCall (uv_close g _) st # tr) = (if g = h then 1 else 0) + closes h tr"
| "closes h (UvCall (uv_tcp_close_reset g _) st # tr) =
     (if g = h \<and> 0 \<le> st then 1 else 0) + closes h tr"
| "closes h (_ # tr) = closes h tr"

lemma closes_append [simp]: "closes h (xs @ ys) = closes h xs + closes h ys"
  by (induction h xs rule: closes.induct) simp_all

section \<open>Properties\<close>

text \<open>
  \<open>Write\<close> and both \<open>Send\<close>s hand libuv the buffers and their number modulo 2^32: a span of
  2^32 buffers or more is silently sent in part, a shorter one completely.
\<close>

theorem buffer_count_is_cut:
  "\<exists>n. trace (snd (Write env req tcp bufs cb w)) = trace w @
        [UvCall (uv_write req tcp bufs n cb) (env (uv_write req tcp bufs n cb))] \<and>
     trace (snd (Send_to env req tcp bufs cb addr w)) = trace w @
        [UvCall (uv_udp_send req tcp bufs n (Some addr) cb)
          (env (uv_udp_send req tcp bufs n (Some addr) cb))] \<and>
     trace (snd (Send env req tcp bufs cb w)) = trace w @
        [UvCall (uv_udp_send req tcp bufs n None cb) (env (uv_udp_send req tcp bufs n None cb))] \<and>
     unat n = length bufs mod 2 ^ 32"
proof (rule exI [of _ "nbufs_of bufs"])
  have "unat (nbufs_of bufs) = length bufs mod 2 ^ 32"
    unfolding nbufs_of_def
    by (simp add: unsigned_ucast_eq unsigned_of_nat take_bit_eq_mod mod_mod_cancel)
  then show "trace (snd (Write env req tcp bufs cb w)) = trace w @
        [UvCall (uv_write req tcp bufs (nbufs_of bufs) cb)
          (env (uv_write req tcp bufs (nbufs_of bufs) cb))] \<and>
     trace (snd (Send_to env req tcp bufs cb addr w)) = trace w @
        [UvCall (uv_udp_send req tcp bufs (nbufs_of bufs) (Some addr) cb)
          (env (uv_udp_send req tcp bufs (nbufs_of bufs) (Some addr) cb))] \<and>
     trace (snd (Send env req tcp bufs cb w)) = trace w @
        [UvCall (uv_udp_send req tcp bufs (nbufs_of bufs) None cb)
          (env (uv_udp_send req tcp bufs (nbufs_of bufs) None cb))] \<and>
     unat (nbufs_of bufs) = length bufs mod 2 ^ 32"
    by (simp add: req_defs uv_def)
qed

end
