(* ===== verification/Stop_Operation.thy ===== *)
theory Stop_Operation
  imports Uv_Requests
begin

text \<open>
  \<open>TLoop::TStopOperation\<close> of include/uvexec/execution/loop.hpp: how an operation state hears of a
  stop request. First the methods as single steps, as the loop thread and a stop request
  that does not overlap them see them; then the atomic steps of \<open>Reset\<close> on the loop's thread
  against the stop callback on another thread.
\<close>

section \<open>The methods\<close>

text \<open>
  \<open>Token\<close>: whether stop has been requested on the token. \<open>StopCallback\<close>: whether the optional holds
  a registered callback. \<open>SelfOp\<close>: the address of this operation, for \<open>TLoop::Schedule\<close>.
\<close>

record TStopOperation =
  Token :: bool
  StopCallback :: bool
  Used :: bool
  SelfOp :: ptr

definition TStopOperation_new :: "bool \<Rightarrow> ptr \<Rightarrow> TStopOperation" where
  "TStopOperation_new token self =
     \<lparr>Token = token, StopCallback = False, Used = False, SelfOp = self\<rparr>"

definition TStopCallback_call ::
    "TStopOperation \<Rightarrow> 'a world_scheme \<Rightarrow> TStopOperation \<times> 'a world_scheme" where
  "TStopCallback_call so w =
     (if \<not> Used so then (so\<lparr>Used := True\<rparr>, Schedule (SelfOp so) w) else (so, w))"

text \<open>\<open>Setup\<close>: the constructor of a stop callback calls it at once when stop is already requested.\<close>

definition TStopOperation_Setup ::
    "TStopOperation \<Rightarrow> 'a world_scheme \<Rightarrow> TStopOperation \<times> 'a world_scheme" where
  "TStopOperation_Setup so w =
     (let (so, w) = (if Token so then TStopCallback_call so w else (so, w))
      in (so\<lparr>StopCallback := True\<rparr>, w))"

definition TStopOperation_Reset :: "TStopOperation \<Rightarrow> bool \<times> TStopOperation" where
  "TStopOperation_Reset so =
     (if \<not> Used so then (False, so\<lparr>Used := True, StopCallback := False\<rparr>) else (True, so))"

definition TStopOperation_ResetUnsafe :: "TStopOperation \<Rightarrow> bool \<times> TStopOperation" where
  "TStopOperation_ResetUnsafe so =
     (if StopCallback so then (False, so\<lparr>StopCallback := False\<rparr>) else (True, so))"

definition TStopOperation_bool :: "TStopOperation \<Rightarrow> bool" where
  "TStopOperation_bool so \<longleftrightarrow> \<not> Used so"

text \<open>The source of the token requests stop: every registered callback is called, once.\<close>

definition token_request_stop ::
    "TStopOperation \<Rightarrow> 'a world_scheme \<Rightarrow> TStopOperation \<times> 'a world_scheme" where
  "token_request_stop so w =
     (let (so, w) = (if StopCallback so \<and> \<not> Token so then TStopCallback_call so w else (so, w))
      in (so\<lparr>Token := True\<rparr>, w))"

text \<open>The operation states that own a stop operation, and the methods on the one they own.\<close>

record cop = world +
  StopOp :: TStopOperation
  Loop :: ptr

definition Setup :: "'a cop_scheme \<Rightarrow> 'a cop_scheme" where
  "Setup op = (let (so, w) = TStopOperation_Setup (StopOp op) op in w\<lparr>StopOp := so\<rparr>)"

definition Reset :: "'a cop_scheme \<Rightarrow> bool \<times> 'a cop_scheme" where
  "Reset op = (let (b, so) = TStopOperation_Reset (StopOp op) in (b, op\<lparr>StopOp := so\<rparr>))"

definition ResetUnsafe :: "'a cop_scheme \<Rightarrow> bool \<times> 'a cop_scheme" where
  "ResetUnsafe op = (let (b, so) = TStopOperation_ResetUnsafe (StopOp op) in (b, op\<lparr>StopOp := so\<rparr>))"

definition request_stop :: "'a cop_scheme \<Rightarrow> 'a cop_scheme" where
  "request_stop op = (let (so, w) = token_request_stop (StopOp op) op in w\<lparr>StopOp := so\<rparr>)"

declare TStopCallback_call_def [handler_defs] TStopOperation_Setup_def [handler_defs]
  TStopOperation_Reset_def [handler_defs] TStopOperation_ResetUnsafe_def [handler_defs]
  TStopOperation_bool_def [handler_defs] token_request_stop_def [handler_defs]
  Setup_def [handler_defs] Reset_def [handler_defs] ResetUnsafe_def [handler_defs]
  request_stop_def [handler_defs] emit_def [handler_defs] Let_def [handler_defs]

section \<open>\<open>Reset\<close> against the stop callback\<close>

text \<open>
  The loop's thread executes \<open>Reset\<close>: the atomic \<open>test_and_set\<close>, then, if it was the first,
  \<open>StopCallback.reset()\<close>, which deregisters the callback and, as the standard has it, blocks
  while the callback is executing on another thread. Another thread requests stop: if the callback is still
  registered it runs it, \<open>test_and_set\<close> and, if first, \<open>Schedule\<close>.
\<close>

datatype reset_pc = RStart | RWon | RDone bool

datatype callback_pc = CIdle | CEntered | CWon | CLeft bool

record stop_race =
  rUsed :: bool
  rRegistered :: bool
  rReset :: reset_pc
  rCallback :: callback_pc
  rScheduled :: nat

definition stop_race_init :: stop_race where
  "stop_race_init = \<lparr>rUsed = False, rRegistered = True, rReset = RStart, rCallback = CIdle,
     rScheduled = 0\<rparr>"

definition callback_executing :: "stop_race \<Rightarrow> bool" where
  "callback_executing s \<longleftrightarrow> rCallback s = CEntered \<or> rCallback s = CWon"

inductive race_step :: "stop_race \<Rightarrow> stop_race \<Rightarrow> bool" where
  reset_test_and_set: "rReset s = RStart \<Longrightarrow>
    race_step s (s\<lparr>rUsed := True, rReset := (if rUsed s then RDone True else RWon)\<rparr>)"
| reset_optional: "rReset s = RWon \<Longrightarrow> \<not> callback_executing s \<Longrightarrow>
    race_step s (s\<lparr>rRegistered := False, rReset := RDone False\<rparr>)"
| callback_enter: "rCallback s = CIdle \<Longrightarrow> rRegistered s \<Longrightarrow>
    race_step s (s\<lparr>rCallback := CEntered\<rparr>)"
| callback_test_and_set: "rCallback s = CEntered \<Longrightarrow>
    race_step s (s\<lparr>rUsed := True, rCallback := (if rUsed s then CLeft False else CWon)\<rparr>)"
| callback_schedule: "rCallback s = CWon \<Longrightarrow>
    race_step s (s\<lparr>rScheduled := rScheduled s + 1, rCallback := CLeft True\<rparr>)"

inductive race_reachable :: "stop_race \<Rightarrow> bool" where
  race_init: "race_reachable stop_race_init"
| race_next: "race_reachable s \<Longrightarrow> race_step s t \<Longrightarrow> race_reachable t"

inductive_cases race_stepE: "race_step s t"

definition race_inv :: "stop_race \<Rightarrow> bool" where
  "race_inv s \<longleftrightarrow>
     (rUsed s \<longleftrightarrow> rReset s \<noteq> RStart \<or> rCallback s \<in> {CWon, CLeft True, CLeft False}) \<and>
     (rReset s \<in> {RWon, RDone False} \<longrightarrow> rCallback s \<notin> {CWon, CLeft True}) \<and>
     (rReset s = RDone True \<longrightarrow> rCallback s \<in> {CWon, CLeft True}) \<and>
     (rCallback s = CLeft False \<longrightarrow> rReset s \<in> {RWon, RDone False}) \<and>
     (rReset s = RDone False \<longrightarrow> \<not> callback_executing s) \<and>
     (rRegistered s \<longleftrightarrow> rReset s \<noteq> RDone False) \<and>
     rScheduled s = (if rCallback s = CLeft True then 1 else 0)"

lemma race_inv_init: "race_inv stop_race_init"
  by (simp add: race_inv_def stop_race_init_def callback_executing_def)

lemma race_inv_step: "race_inv s \<Longrightarrow> race_step s t \<Longrightarrow> race_inv t"
  by (erule race_stepE; cases "rReset s")
     (auto simp: race_inv_def callback_executing_def split: if_splits)

lemma race_inv_reachable: "race_reachable s \<Longrightarrow> race_inv s"
  by (induction rule: race_reachable.induct) (simp_all add: race_inv_init race_inv_step)

text \<open>A state in which one of the two has won stays one in which the other has not.\<close>

lemma race_won_stays:
  assumes "race_step\<^sup>*\<^sup>* s t"
  shows "rReset s = RDone b \<Longrightarrow> rReset t = RDone b"
  using assms by (induction rule: rtranclp_induct) (auto elim: race_stepE)

lemma race_reachable_steps: "race_step\<^sup>*\<^sup>* s t \<Longrightarrow> race_reachable s \<Longrightarrow> race_reachable t"
  by (induction rule: rtranclp_induct) (auto intro: race_next)

text \<open>
  C8: however \<open>Reset\<close> and the stop callback interleave, exactly one of them gets the operation.
  Once \<open>Reset\<close> has returned \<open>false\<close> (the completion path owns it), the callback is gone, is not
  executing and never schedules the operation; once \<open>Reset\<close> has returned \<open>true\<close>, the callback
  has won and has scheduled the operation exactly once, or is about to.
\<close>

theorem stop_race_exactly_one_winner:
  assumes "race_reachable s" "race_step\<^sup>*\<^sup>* s t"
  shows "(rReset s = RDone False \<longrightarrow>
      rScheduled t = 0 \<and> \<not> callback_executing t \<and> \<not> rRegistered t) \<and>
    (rReset s = RDone True \<longrightarrow>
      rCallback t = CWon \<and> rScheduled t = 0 \<or> rCallback t = CLeft True \<and> rScheduled t = 1)"
  using race_inv_reachable [OF race_reachable_steps [OF assms(2,1)]] race_won_stays [OF assms(2)]
  by (auto simp: race_inv_def callback_executing_def)

text \<open>A run in which the stop request wins, up to its \<open>Schedule\<close>.\<close>

definition race_sample :: "stop_race" where
  "race_sample = \<lparr>rUsed = True, rRegistered = True, rReset = RDone True, rCallback = CWon,
     rScheduled = 0\<rparr>"

lemma race_sample_reachable: "race_reachable race_sample"
proof -
  have "race_reachable (stop_race_init\<lparr>rCallback := CEntered\<rparr>)"
    by (rule race_next [OF race_init callback_enter]) (simp_all add: stop_race_init_def)
  from race_next [OF this callback_test_and_set]
  have "race_reachable (stop_race_init\<lparr>rUsed := True, rCallback := CWon\<rparr>)"
    by (simp add: stop_race_init_def)
  from race_next [OF this reset_test_and_set] show ?thesis
    by (simp add: stop_race_init_def race_sample_def)
qed

theorem stop_race_exactly_one_winner_witness:
  "race_reachable race_sample \<and> rReset race_sample = RDone True \<and> rScheduled race_sample = 0 \<and>
   rCallback race_sample = CWon"
  using stop_race_exactly_one_winner [OF race_sample_reachable rtranclp.rtrancl_refl]
    race_sample_reachable by (simp add: race_sample_def)

end
