(* ===== verification/Scheduling.thy ===== *)
theory Scheduling
  imports Stop_Operation
begin

text \<open>
  The rest of the loop's interface: how a loop is made and destroyed (\<open>TLoop::TLoop\<close>, \<open>~TLoop\<close>, \<open>finish\<close> and \<open>now\<close> of
  src/execution/loop.cpp), the operation of \<open>schedule\<close> (algorithms/schedule_op_state.hpp), and what \<open>sync_wait\<close> does with the
  completion of the sender it waits for (execution/sync_wait_receiver.hpp, the customisation of \<open>sync_wait\<close> in loop.hpp).
\<close>

section \<open>The life of a loop\<close>

text \<open>The addresses of its parts; \<open>Scheduled\<close> and the runners are modelled in Operation_List and Loop_Protocol.\<close>

record TLoop = world +
  UvLoop :: ptr
  Async :: ptr

definition TLoop_ctor :: "uvenv \<Rightarrow> TLoop \<Rightarrow> (EErrc + unit) \<times> TLoop" where
  "TLoop_ctor env l =
     (let (st, l) = uv env (uv_loop_init (UvLoop l)) l
      in case Assert st of
           Inl e \<Rightarrow> (Inl e, l)
         | Inr _ \<Rightarrow>
             let (st, l) = uv env (uv_async_init (UvLoop l) (Async l) ApplyOperationsCallback) l
             in (Assert st, l))"

text \<open>The mode \<open>UV_RUN_ONCE\<close> is 1.\<close>

definition TLoop_dtor :: "(int \<Rightarrow> string) \<Rightarrow> uvenv \<Rightarrow> TLoop \<Rightarrow> process_state \<times> TLoop" where
  "TLoop_dtor uv_strerror env l =
     (let l = Close (Async l) None l;
          (_, l) = uv env (uv_run (UvLoop l) 1) l;
          (st, l) = uv env (uv_loop_close (UvLoop l)) l
      in (Panic uv_strerror st, l))"

definition TLoop_finish :: "TLoop \<Rightarrow> TLoop" where
  "TLoop_finish l = uv_void (uv_stop (UvLoop l)) l"

text \<open>\<open>now\<close> is the loop's cached time, milliseconds as a 64-bit count, read as a signed one.\<close>

definition TScheduler_now :: "u64 \<Rightarrow> int" where
  "TScheduler_now loop_now = sint loop_now"

section \<open>\<open>schedule\<close>\<close>

text \<open>\<open>StopRequested\<close>: the state of the receiver's stop token.\<close>

record TScheduleOpState = world +
  SelfPtr :: ptr
  StopRequested :: bool

definition TScheduleOpState_new :: "ptr \<Rightarrow> bool \<Rightarrow> TScheduleOpState" where
  "TScheduleOpState_new self token = \<lparr>trace = [], SelfPtr = self, StopRequested = token\<rparr>"

definition TScheduleOpState_start :: "TScheduleOpState \<Rightarrow> TScheduleOpState" where
  "TScheduleOpState_start op = Schedule (SelfPtr op) op"

definition TScheduleOpState_Apply :: "TScheduleOpState \<Rightarrow> TScheduleOpState" where
  "TScheduleOpState_Apply op = (if StopRequested op then set_stopped op else set_value [] op)"

datatype schedule_event = ScApply | ScRequestStop

fun TScheduleOpState_step :: "schedule_event \<Rightarrow> TScheduleOpState \<Rightarrow> TScheduleOpState" where
  "TScheduleOpState_step ScApply op = TScheduleOpState_Apply (emit (Applied (SelfPtr op)) op)"
| "TScheduleOpState_step ScRequestStop op = op\<lparr>StopRequested := True\<rparr>"

fun schedule_enabled :: "schedule_event \<Rightarrow> TScheduleOpState \<Rightarrow> bool" where
  "schedule_enabled ScApply op \<longleftrightarrow> queued (SelfPtr op) (trace op)"
| "schedule_enabled ScRequestStop op \<longleftrightarrow> \<not> StopRequested op"

text \<open>The completion owed: stopped when the stop request comes before the loop applies the operation.\<close>

fun schedule_verdict :: "bool \<Rightarrow> schedule_event list \<Rightarrow> completion option" where
  "schedule_verdict token [] = None"
| "schedule_verdict token (ScApply # es) = Some (if token then SetStopped else SetValue [])"
| "schedule_verdict token (ScRequestStop # es) = schedule_verdict True es"

lemmas schedule_defs = TScheduleOpState_Apply_def TScheduleOpState_start_def
  TScheduleOpState_new_def

lemma schedule_applied:
  "\<not> queued (SelfPtr op) (trace op) \<Longrightarrow>
   admissible schedule_enabled TScheduleOpState_step op es \<Longrightarrow>
   trace (fold TScheduleOpState_step es op) = trace op"
proof (induction es arbitrary: op)
  case (Cons e es)
  then show ?case by (cases e) simp_all
qed simp

lemma schedule_op_run:
  "queued (SelfPtr op) (trace op) \<Longrightarrow> completions (trace op) = [] \<Longrightarrow>
   admissible schedule_enabled TScheduleOpState_step op es \<Longrightarrow>
   completions (trace (fold TScheduleOpState_step es op)) =
     (case schedule_verdict (StopRequested op) es of None \<Rightarrow> [] | Some c \<Rightarrow> [c])"
proof (induction es arbitrary: op)
  case (Cons e es)
  show ?case
  proof (cases e)
    case ScApply
    then have "trace (fold TScheduleOpState_step (e # es) op) = trace (TScheduleOpState_step e op)"
      using schedule_applied [of "TScheduleOpState_step e op" es] Cons.prems
      by (simp add: TScheduleOpState_Apply_def emit_def)
    then show ?thesis using ScApply Cons.prems(2)
      by (simp add: TScheduleOpState_Apply_def emit_def)
  next
    case ScRequestStop
    then show ?thesis using Cons by simp
  qed
qed simp

section \<open>\<open>sync_wait\<close>\<close>

text \<open>
  The variant the receiver writes to, with the value type \<open>'v\<close>; what \<open>sync_wait\<close> may throw; and the receiver: its
  destination and how often it has called its wake-up.
\<close>

datatype thrown = SystemError EErrc | Exception string | ErrorValue string | BadVariantAccess

datatype 'v wait_state = Monostate | ValueHeld 'v | StoppedHeld | ExceptionHeld thrown

record 'v TSyncWaitReceiver =
  Destination :: "'v wait_state"
  Wakeups :: nat

text \<open>
  The types of errors a sender may send: an \<open>exception_ptr\<close> is kept; what converts to \<open>std::error_code\<close>, as an \<open>EErrc\<close> does, is thrown as a
  \<open>system_error\<close>; a value of another type is thrown as it is.
\<close>

datatype wait_error = ExceptionPtr thrown | ErrorCode EErrc | OtherError string

definition TSyncWaitReceiver_set_error ::
    "wait_error \<Rightarrow> 'v TSyncWaitReceiver \<Rightarrow> 'v TSyncWaitReceiver" where
  "TSyncWaitReceiver_set_error err r =
     (case err of
        ExceptionPtr x \<Rightarrow> r\<lparr>Destination := ExceptionHeld x, Wakeups := Wakeups r + 1\<rparr>
      | ErrorCode e \<Rightarrow> r\<lparr>Destination := ExceptionHeld (SystemError e), Wakeups := Wakeups r + 1\<rparr>
      | OtherError v \<Rightarrow> r\<lparr>Destination := ExceptionHeld (ErrorValue v), Wakeups := Wakeups r + 1\<rparr>)"

text \<open>\<open>throws\<close>: whether storing the value throws.\<close>

definition TSyncWaitReceiver_set_value ::
    "string option \<Rightarrow> 'v \<Rightarrow> 'v TSyncWaitReceiver \<Rightarrow> 'v TSyncWaitReceiver" where
  "TSyncWaitReceiver_set_value throws v r =
     (let r = (case throws of
                 None \<Rightarrow> r\<lparr>Destination := ValueHeld v\<rparr>
               | Some x \<Rightarrow> TSyncWaitReceiver_set_error (ExceptionPtr (Exception x)) r)
      in r\<lparr>Wakeups := Wakeups r + 1\<rparr>)"

definition TSyncWaitReceiver_set_stopped :: "'v TSyncWaitReceiver \<Rightarrow> 'v TSyncWaitReceiver" where
  "TSyncWaitReceiver_set_stopped r = r\<lparr>Destination := StoppedHeld, Wakeups := Wakeups r + 1\<rparr>"

definition UnwrapSyncWaitReceiverState :: "'v wait_state \<Rightarrow> thrown + 'v option" where
  "UnwrapSyncWaitReceiverState st =
     (case st of
        ExceptionHeld x \<Rightarrow> Inl x
      | StoppedHeld \<Rightarrow> Inr None
      | ValueHeld v \<Rightarrow> Inr (Some v)
      | Monostate \<Rightarrow> Inl BadVariantAccess)"

text \<open>
  The receiver on the completion of a sender of the library; values are the \<open>size_t list\<close> of \<open>SetValue\<close>. Its errors are \<open>EErrc\<close> and
  exceptions.
\<close>

definition wait_receive ::
    "string option \<Rightarrow> completion \<Rightarrow> size_t list TSyncWaitReceiver \<Rightarrow> size_t list TSyncWaitReceiver" where
  "wait_receive throws c =
     (case c of
        SetValue vs \<Rightarrow> TSyncWaitReceiver_set_value throws vs
      | SetError e \<Rightarrow> TSyncWaitReceiver_set_error (ErrorCode e)
      | SetException x \<Rightarrow> TSyncWaitReceiver_set_error (ExceptionPtr (Exception x))
      | SetStopped \<Rightarrow> TSyncWaitReceiver_set_stopped)"

text \<open>
  \<open>sync_wait\<close> between the start of the operation and the return: \<open>RunnerSteal\<close> returns when the runner is finished,
  that is, after a wake-up (Loop_Protocol); then the state is unwrapped.
\<close>

definition sync_wait_result :: "string option \<Rightarrow> completion list \<Rightarrow> (thrown + size_t list option) option" where
  "sync_wait_result throws cs =
     (let r = fold (wait_receive throws) cs \<lparr>Destination = Monostate, Wakeups = 0\<rparr>
      in if Wakeups r = 0 then None else Some (UnwrapSyncWaitReceiverState (Destination r)))"

section \<open>Properties\<close>

text \<open>
  \<open>schedule\<close>, in every run: the operation completes exactly when the loop applies it, stopped if a stop was requested before
  and with a value otherwise.
\<close>

theorem schedule_outcome:
  assumes "op = TScheduleOpState_start (TScheduleOpState_new self token)"
    and "admissible schedule_enabled TScheduleOpState_step op es"
  shows "completions (trace (fold TScheduleOpState_step es op)) =
    (case schedule_verdict token es of None \<Rightarrow> [] | Some c \<Rightarrow> [c])"
proof -
  have "queued (SelfPtr op) (trace op)" "completions (trace op) = []" "StopRequested op = token"
    using assms(1) by (simp_all add: schedule_defs Schedule_def emit_def queued_def)
  then show ?thesis using schedule_op_run assms(2) by blast
qed

theorem schedule_outcome_witness:
  "completions (trace (fold TScheduleOpState_step [ScRequestStop, ScApply]
     (TScheduleOpState_start (TScheduleOpState_new 7 False)))) = [SetStopped]"
proof -
  have "admissible schedule_enabled TScheduleOpState_step
      (TScheduleOpState_start (TScheduleOpState_new 7 False)) [ScRequestStop, ScApply]" by code_simp
  from schedule_outcome [OF refl this] show ?thesis by simp
qed

text \<open>
  \<open>sync_wait\<close> of a sender that completes once returns what it completed with: its value, nothing when stopped, its exception,
  or a \<open>system_error\<close> with its error code; it never reads a wrong alternative. The waiting thread is woken once, but twice when storing
  the value throws.
\<close>

lemmas wait_defs = sync_wait_result_def wait_receive_def TSyncWaitReceiver_set_value_def TSyncWaitReceiver_set_error_def
  TSyncWaitReceiver_set_stopped_def UnwrapSyncWaitReceiverState_def

lemma sync_wait_one:
  "sync_wait_result throws [c] = Some (case c of
       SetValue vs \<Rightarrow> (case throws of None \<Rightarrow> Inr (Some vs) | Some x \<Rightarrow> Inl (Exception x))
     | SetError e \<Rightarrow> Inl (SystemError e) | SetException x \<Rightarrow> Inl (Exception x)
     | SetStopped \<Rightarrow> Inr None)"
  "Wakeups (wait_receive throws c r) = Wakeups r + (case (c, throws) of (SetValue vs, Some x) \<Rightarrow> 2 | _ \<Rightarrow> 1)"
  "sync_wait_result throws [] = None"
  by (cases c; cases throws; simp add: wait_defs Let_def)+

lemma set_error_held:
  "Wakeups (TSyncWaitReceiver_set_error err r) = Wakeups r + 1"
  "UnwrapSyncWaitReceiverState (Destination (TSyncWaitReceiver_set_error err r)) =
     Inl (case err of ExceptionPtr x \<Rightarrow> x | ErrorCode e \<Rightarrow> SystemError e | OtherError v \<Rightarrow> ErrorValue v)"
  by (cases err; simp add: wait_defs)+

text \<open>
  A loop that has been made is destroyed without panic when libuv says that it is not busy, and in this order:
  the wake-up handle is closed, the loop runs its close callback, the loop is closed. A constructor that throws
  because there is no wake-up handle leaves the libuv loop open.
\<close>

lemma loop_destruction:
  "trace (snd (TLoop_dtor err env l)) = trace l @
     [UvCall (uv_close (Async l) None) 0, UvCall (uv_run (UvLoop l) 1) (env (uv_run (UvLoop l) 1)),
      UvCall (uv_loop_close (UvLoop l)) (env (uv_loop_close (UvLoop l)))]"
  "fst (TLoop_dtor err env l) = Continues \<longleftrightarrow> \<not> IsError (env (uv_loop_close (UvLoop l)))"
  by (simp_all add: TLoop_dtor_def handler_defs Panic_def)

lemma loop_constructor_leaks:
  assumes "\<not> IsError (env (uv_loop_init (UvLoop l)))"
    "IsError (env (uv_async_init (UvLoop l) (Async l) ApplyOperationsCallback))"
  shows "\<exists>e. fst (TLoop_ctor env l) = Inl e"
    "trace (snd (TLoop_ctor env l)) = trace l @ [UvCall (uv_loop_init (UvLoop l))
       (env (uv_loop_init (UvLoop l))), UvCall (uv_async_init (UvLoop l) (Async l)
       ApplyOperationsCallback) (env (uv_async_init (UvLoop l) (Async l) ApplyOperationsCallback))]"
  using assms by (simp_all add: TLoop_ctor_def handler_defs Assert_def)

end
