(* ===== verification/Oneshot.thy ===== *)
theory Oneshot
  imports Stop_Operation
begin

text \<open>
  The contract of a cancellable operation on a handle: it is begun once, and then either its
  watcher fires or a stop request cancels it; it closes its handle and completes when the
  handle is closed. The abstract machine (\<open>phase\<close>, \<open>spec_step\<close>) is what such an operation
  promises; the locale \<open>oneshot_op\<close> is a simulation of it by concrete handlers and
  proves what the clients of the operation rely on. Timer_Ops and Signal_Ops interpret it on the four
  operation states of the code.
\<close>

datatype phase = Ready | Armed | Stopping | Firing | Cancelling | Done completion

text \<open>The events: the operation is begun (with the answers of libuv and the time of the loop),
  the watcher fires, stop is requested, the loop applies the stop operation, the
  handle is closed.\<close>

datatype event = Begin uvenv u64 | Fired | RequestStop | RunStop uvenv | HandleClosed

text \<open>The abstract machine; \<open>tok\<close>: stop was already requested, \<open>res\<close>: the error of a failing start.\<close>

fun spec_step :: "bool \<Rightarrow> EErrc option \<Rightarrow> event \<Rightarrow> phase \<Rightarrow> phase" where
  "spec_step tok res (Begin env now) Ready =
     (case res of Some e \<Rightarrow> Done (SetError e) | None \<Rightarrow> if tok then Stopping else Armed)"
| "spec_step tok res Fired Armed = Firing"
| "spec_step tok res RequestStop Armed = Stopping"
| "spec_step tok res (RunStop env) Stopping = Cancelling"
| "spec_step tok res HandleClosed Firing = Done (SetValue [])"
| "spec_step tok res HandleClosed Cancelling = Done SetStopped"
| "spec_step tok res e p = p"

text \<open>Whether the watcher fires before stop is requested.\<close>

fun fires_first :: "event list \<Rightarrow> bool" where
  "fires_first [] = False"
| "fires_first (Fired # es) = True"
| "fires_first (RequestStop # es) = False"
| "fires_first (e # es) = fires_first es"

text \<open>The completion an operation owes its receiver for the events of a run; \<open>err\<close>: the error of
  a failing start, \<open>tok\<close>: stop was requested before.\<close>

fun verdict :: "(uvenv \<Rightarrow> u64 \<Rightarrow> EErrc option) \<Rightarrow> bool \<Rightarrow> event list \<Rightarrow> completion option" where
  "verdict err tok [] = None"
| "verdict err tok (Begin env now # es) =
     (case err env now of
        Some e \<Rightarrow> Some (SetError e)
      | None \<Rightarrow> Some (if \<not> tok \<and> fires_first es then SetValue [] else SetStopped))"
| "verdict err tok (RequestStop # es) = verdict err True es"
| "verdict err tok (e # es) = verdict err tok es"

text \<open>
  What a client sees in the trace of an operation on the handle \<open>h\<close>: at most one completion, at most one
  close, no undefined behaviour; a completion is the one owed, and when it is a
  value or stopped the handle has been closed and released.
\<close>

definition oneshot_outcome ::
    "ptr \<Rightarrow> (uvenv \<Rightarrow> u64 \<Rightarrow> EErrc option) \<Rightarrow> bool \<Rightarrow> event list \<Rightarrow> effect list \<Rightarrow> bool" where
  "oneshot_outcome h err tok es tr \<longleftrightarrow>
     length (completions tr) \<le> 1 \<and> closes h tr \<le> 1 \<and> \<not> undefined_in tr \<and>
     (\<forall>c \<in> set (completions tr). verdict err tok es = Some c \<and>
        closes h tr = (case c of SetError _ \<Rightarrow> 0 | _ \<Rightarrow> 1) \<and>
        (inited h tr \<longleftrightarrow> (case c of SetError _ \<Rightarrow> True | _ \<Rightarrow> False)))"

text \<open>
  The step of an operation that could not initialise its handle, with the error \<open>err\<close>: it completes with the error, starts the handle all the same, and
  completes again when that fails; otherwise the handle is active and not initialised.
\<close>

definition failed_init :: "ptr \<Rightarrow> EErrc \<Rightarrow> EErrc option \<Rightarrow> effect list \<Rightarrow> bool" where
  "failed_init h err start_err tr \<longleftrightarrow>
     completions tr = SetError err # (case start_err of None \<Rightarrow> [] | Some e \<Rightarrow> [SetError e]) \<and>
     closes h tr = 0 \<and> \<not> inited h tr \<and> (active h tr \<longleftrightarrow> start_err = None)"

text \<open>The phases in which an event may come.\<close>

fun phase_allows :: "event \<Rightarrow> phase \<Rightarrow> bool" where
  "phase_allows (Begin _ _) p = (p = Ready)"
| "phase_allows Fired p = (p = Armed \<or> p = Stopping)"
| "phase_allows RequestStop p = True"
| "phase_allows (RunStop _) p = (p = Stopping)"
| "phase_allows HandleClosed p = (p = Firing \<or> p = Cancelling)"

locale oneshot_op = guarded_steps enabled step Inv
  for enabled :: "event \<Rightarrow> 's \<Rightarrow> bool"
    and step :: "event \<Rightarrow> 's \<Rightarrow> 's"
    and Inv :: "'s \<Rightarrow> bool" +
  fixes abs :: "'s \<Rightarrow> phase"
    and tok :: "'s \<Rightarrow> bool"
    and res :: "event \<Rightarrow> 's \<Rightarrow> EErrc option"
    and outs :: "'s \<Rightarrow> completion list"
  assumes abs_step:
      "Inv s \<Longrightarrow> enabled e s \<Longrightarrow> abs (step e s) = spec_step (tok s) (res e s) e (abs s)"
    and tok_step: "Inv s \<Longrightarrow> enabled e s \<Longrightarrow> tok (step e s) \<longleftrightarrow> tok s \<or> e = RequestStop"
    and outs_abs: "Inv s \<Longrightarrow> outs s = (case abs s of Done c \<Rightarrow> [c] | _ \<Rightarrow> [])"
    and enabled_allows: "Inv s \<Longrightarrow> enabled e s \<Longrightarrow> phase_allows e (abs s)"
    and armed_enabled: "Inv s \<Longrightarrow> abs s = Armed \<Longrightarrow> enabled Fired s"
    and stopping_enabled: "Inv s \<Longrightarrow> abs s = Stopping \<Longrightarrow> enabled (RunStop env) s"
    and closing_enabled:
      "Inv s \<Longrightarrow> abs s = Firing \<or> abs s = Cancelling \<Longrightarrow> enabled HandleClosed s"
    and res_stop: "res (Begin env now) (step RequestStop s) = res (Begin env now) s"
begin

lemma at_most_one:
  assumes "Inv s" "admissible enabled step s es"
  shows "length (outs (fold step es s)) \<le> 1"
  using outs_abs [OF run_Inv [OF assms]] by (simp split: phase.splits)

lemma done_stays:
  "Inv s \<Longrightarrow> admissible enabled step s es \<Longrightarrow> abs s = Done c \<Longrightarrow>
   abs (fold step es s) = Done c"
  by (induction es arbitrary: s) (auto simp: abs_step step_Inv)

text \<open>What a run from a phase can end with.\<close>

lemma verdict_Firing:
  "Inv s \<Longrightarrow> admissible enabled step s es \<Longrightarrow> abs s = Firing \<Longrightarrow>
   abs (fold step es s) \<in> {Firing, Done (SetValue [])}"
proof (induction es arbitrary: s)
  case (Cons e es)
  then have "abs (step e s) = Firing \<or> abs (step e s) = Done (SetValue [])"
    using enabled_allows [of s e] abs_step [of s e] by (cases e) auto
  then show ?case
    using Cons done_stays [of "step e s" es] by (auto intro: step_Inv)
qed simp

lemma verdict_Cancelling:
  "Inv s \<Longrightarrow> admissible enabled step s es \<Longrightarrow> abs s \<in> {Stopping, Cancelling} \<Longrightarrow>
   abs (fold step es s) \<in> {Stopping, Cancelling, Done SetStopped}"
proof (induction es arbitrary: s)
  case (Cons e es)
  then have "abs (step e s) \<in> {Stopping, Cancelling, Done SetStopped}"
    using enabled_allows [of s e] abs_step [of s e] by (cases e) auto
  then show ?case
    using Cons done_stays [of "step e s" es] by (auto intro: step_Inv)
qed auto

lemma verdict_Armed:
  "Inv s \<Longrightarrow> admissible enabled step s es \<Longrightarrow> abs s = Armed \<Longrightarrow>
   abs (fold step es s) \<in>
     (if fires_first es then {Firing, Done (SetValue [])}
      else {Armed, Stopping, Cancelling, Done SetStopped})"
proof (induction es arbitrary: s)
  case (Cons e es)
  have al: "phase_allows e Armed" and en: "enabled e s" and I: "Inv (step e s)"
    and adm: "admissible enabled step (step e s) es"
    using Cons.prems enabled_allows [of s e] by (auto intro: step_Inv)
  have st: "abs (step e s) = spec_step (tok s) (res e s) e Armed"
    using abs_step [of s e] Cons.prems by simp
  show ?case
  proof (cases e)
    case Fired
    then show ?thesis using verdict_Firing [OF I adm] st by simp
  next
    case RequestStop
    then show ?thesis using verdict_Cancelling [OF I adm] st by auto
  qed (use al in simp_all)
qed simp

lemma run_verdict:
  assumes "Inv s" "abs s = Ready" "admissible enabled step s es"
    and "outs (fold step es s) = [c]"
  shows "verdict (\<lambda>env now. res (Begin env now) s) (tok s) es = Some c"
  using assms
proof (induction es arbitrary: s)
  case Nil
  then show ?case by (simp add: outs_abs)
next
  case (Cons e es)
  have I: "Inv (step e s)" and en: "enabled e s" and adm: "admissible enabled step (step e s) es"
    using Cons.prems by (auto intro: step_Inv)
  have fin: "outs (fold step es (step e s)) = [c]" using Cons.prems by simp
  have fabs: "abs (fold step es (step e s)) = Done c"
    using outs_abs [OF run_Inv [OF I adm]] fin by (simp split: phase.splits)
  have al: "phase_allows e Ready"
    using enabled_allows [of s e] Cons.prems en by simp
  have st: "abs (step e s) = spec_step (tok s) (res e s) e Ready"
    using abs_step [of s e] Cons.prems en by simp
  show ?case
  proof (cases e)
    case (Begin env now)
    then show ?thesis
      using done_stays [OF I adm] verdict_Cancelling [OF I adm] verdict_Armed [OF I adm] st fabs
      by (auto split: option.splits if_splits)
  next
    case RequestStop
    then have "abs (step e s) = Ready" using st by simp
    moreover have "tok (step e s)" using tok_step [of s e] Cons.prems RequestStop by simp
    ultimately show ?thesis
      using Cons.IH [OF I _ adm fin] RequestStop by (simp add: res_stop)
  qed (use al in simp_all)
qed

text \<open>No deadlock: as long as the operation has begun and not completed, an event that brings it closer to its
  completion is possible, and at most three of them complete it.\<close>

lemma closing_completes:
  assumes "Inv s" "abs s = Firing \<or> abs s = Cancelling"
  shows "\<exists>c. outs (step HandleClosed s) = [c]"
  using assms outs_abs [OF step_Inv [OF assms(1) closing_enabled [OF assms]]]
    abs_step [OF assms(1) closing_enabled [OF assms]] by auto

lemma can_complete:
  assumes "Inv s" "abs s \<noteq> Ready"
  shows "\<exists>es c. length es \<le> 2 \<and> RequestStop \<notin> set es \<and> admissible enabled step s es \<and>
    outs (fold step es s) = [c]"
proof (cases "abs s")
  case (Done c)
  then show ?thesis using outs_abs [OF assms(1)] by (intro exI [of _ "[]"]) auto
next
  case Armed
  note en = armed_enabled [OF assms(1) Armed]
  have "abs (step Fired s) = Firing" using abs_step [OF assms(1) en] Armed by simp
  then show ?thesis
    using closing_completes [OF step_Inv [OF assms(1) en]] en
      closing_enabled [OF step_Inv [OF assms(1) en]]
    by (intro exI [of _ "[Fired, HandleClosed]"]) simp
next
  case Stopping
  fix env
  note en = stopping_enabled [OF assms(1) Stopping, of env]
  have "abs (step (RunStop env) s) = Cancelling" using abs_step [OF assms(1) en] Stopping by simp
  then show ?thesis
    using closing_completes [OF step_Inv [OF assms(1) en]] en
      closing_enabled [OF step_Inv [OF assms(1) en]]
    by (intro exI [of _ "[RunStop env, HandleClosed]"]) simp
qed (use assms closing_completes closing_enabled in
    \<open>auto intro!: exI [of _ "[HandleClosed]"]\<close>)

end

section \<open>Reading the phase off an operation state\<close>

text \<open>
  The phase of an operation that owns the stop operation \<open>so\<close> and the handle \<open>h\<close>, and the
  invariant that ties the trace to it; \<open>pend\<close>: the operation has not begun yet.
\<close>

definition phase_of :: "TStopOperation \<Rightarrow> ptr \<Rightarrow> effect list \<Rightarrow> phase" where
  "phase_of so h tr =
     (case completions tr of
        c # _ \<Rightarrow> Done c
      | [] \<Rightarrow> if closing h tr then (if StopCallback so then Cancelling else Firing)
              else if StopCallback so then (if Used so then Stopping else Armed)
              else Ready)"

text \<open>What holds in each phase.\<close>

fun in_phase :: "phase \<Rightarrow> bool \<Rightarrow> TStopOperation \<Rightarrow> ptr \<Rightarrow> effect list \<Rightarrow> bool" where
  "in_phase Ready pend so h tr \<longleftrightarrow>
     pend \<and> \<not> Used so \<and> \<not> StopCallback so \<and> \<not> queued (SelfOp so) tr \<and>
     \<not> inited h tr \<and> \<not> active h tr \<and> \<not> closing h tr \<and> closes h tr = 0 \<and>
     completions tr = [] \<and> \<not> undefined_in tr"
| "in_phase Armed pend so h tr \<longleftrightarrow>
     \<not> pend \<and> \<not> Used so \<and> StopCallback so \<and> \<not> Token so \<and> \<not> queued (SelfOp so) tr \<and>
     inited h tr \<and> active h tr \<and> \<not> closing h tr \<and> closes h tr = 0 \<and>
     completions tr = [] \<and> \<not> undefined_in tr"
| "in_phase Stopping pend so h tr \<longleftrightarrow>
     \<not> pend \<and> Used so \<and> StopCallback so \<and> Token so \<and> queued (SelfOp so) tr \<and>
     inited h tr \<and> \<not> closing h tr \<and> closes h tr = 0 \<and>
     completions tr = [] \<and> \<not> undefined_in tr"
| "in_phase Firing pend so h tr \<longleftrightarrow>
     \<not> pend \<and> Used so \<and> \<not> StopCallback so \<and> \<not> queued (SelfOp so) tr \<and>
     inited h tr \<and> \<not> active h tr \<and> closing h tr \<and> closes h tr = 1 \<and>
     completions tr = [] \<and> \<not> undefined_in tr"
| "in_phase Cancelling pend so h tr \<longleftrightarrow>
     \<not> pend \<and> Used so \<and> StopCallback so \<and> Token so \<and> \<not> queued (SelfOp so) tr \<and>
     inited h tr \<and> \<not> active h tr \<and> closing h tr \<and> closes h tr = 1 \<and>
     completions tr = [] \<and> \<not> undefined_in tr"
| "in_phase (Done c) pend so h tr \<longleftrightarrow>
     \<not> pend \<and> \<not> StopCallback so \<and> \<not> queued (SelfOp so) tr \<and>
     \<not> active h tr \<and> \<not> closing h tr \<and>
     (case c of SetError _ \<Rightarrow> inited h tr \<and> closes h tr = 0
      | _ \<Rightarrow> \<not> inited h tr \<and> closes h tr = 1) \<and>
     completions tr = [c] \<and> \<not> undefined_in tr"

lemma phase_of_in_phase: "in_phase p pend so h tr \<Longrightarrow> phase_of so h tr = p"
  by (cases p) (simp_all add: phase_of_def)

lemma in_phase_completions:
  "in_phase p pend so h tr \<Longrightarrow> completions tr = (case p of Done c \<Rightarrow> [c] | _ \<Rightarrow> [])"
  by (cases p) simp_all

text \<open>
  The locale the operation states interpret: the code's handlers go from phase to phase as \<open>spec_step\<close>
  says, and the surroundings deliver the events libuv and the loop promise. \<open>pend s\<close>: the
  operation may still begin; \<open>ok\<close>: what the beginning needs of libuv.
\<close>

locale phased_op =
  fixes enabled :: "event \<Rightarrow> 's \<Rightarrow> bool"
    and step :: "event \<Rightarrow> 's \<Rightarrow> 's"
    and so :: "'s \<Rightarrow> TStopOperation"
    and h :: "'s \<Rightarrow> ptr"
    and tr :: "'s \<Rightarrow> effect list"
    and pend :: "'s \<Rightarrow> bool"
    and wf :: "'s \<Rightarrow> bool"
    and res :: "event \<Rightarrow> 's \<Rightarrow> EErrc option"
  assumes phased_step:
      "in_phase p (pend s) (so s) (h s) (tr s) \<Longrightarrow> wf s \<Longrightarrow> enabled e s \<Longrightarrow>
       in_phase (spec_step (Token (so s)) (res e s) e p)
         (pend (step e s)) (so (step e s)) (h (step e s)) (tr (step e s)) \<and> wf (step e s)"
    and Token_step: "Token (so (step e s)) \<longleftrightarrow> Token (so s) \<or> e = RequestStop"
    and h_step: "h (step e s) = h s"
    and res_step: "res (Begin env now) (step RequestStop s) = res (Begin env now) s"
    and enabled_Begin: "enabled (Begin env now) s \<Longrightarrow> pend s"
    and enabled_Fired: "enabled Fired s \<longleftrightarrow> active (h s) (tr s)"
    and enabled_RunStop: "enabled (RunStop env) s \<longleftrightarrow> queued (SelfOp (so s)) (tr s)"
    and enabled_HandleClosed: "enabled HandleClosed s \<longleftrightarrow> closing (h s) (tr s)"
begin

lemma phase_step:
  assumes "in_phase (phase_of (so s) (h s) (tr s)) (pend s) (so s) (h s) (tr s) \<and> wf s" "enabled e s"
  shows "phase_of (so (step e s)) (h (step e s)) (tr (step e s)) =
    spec_step (Token (so s)) (res e s) e (phase_of (so s) (h s) (tr s))"
  using phased_step [of "phase_of (so s) (h s) (tr s)" s e] assms phase_of_in_phase by blast

lemma phase_enabled:
  assumes "in_phase p (pend s) (so s) (h s) (tr s)" "enabled e s"
  shows "phase_allows e p"
  using assms enabled_Begin [of _ _ s]
  by (cases e; cases p) (auto simp: enabled_Fired enabled_RunStop enabled_HandleClosed)

end

sublocale phased_op \<subseteq> oneshot_op enabled step
  "\<lambda>s. in_phase (phase_of (so s) (h s) (tr s)) (pend s) (so s) (h s) (tr s) \<and> wf s"
  "\<lambda>s. phase_of (so s) (h s) (tr s)" "\<lambda>s. Token (so s)" res "\<lambda>s. completions (tr s)"
proof
  fix s e
  assume I: "in_phase (phase_of (so s) (h s) (tr s)) (pend s) (so s) (h s) (tr s) \<and> wf s"
  show "in_phase (phase_of (so (step e s)) (h (step e s)) (tr (step e s))) (pend (step e s))
      (so (step e s)) (h (step e s)) (tr (step e s)) \<and> wf (step e s)" if "enabled e s"
    using phased_step [OF conjunct1 [OF I] conjunct2 [OF I] that] phase_step [OF I that] by simp
  show "phase_of (so (step e s)) (h (step e s)) (tr (step e s)) =
      spec_step (Token (so s)) (res e s) e (phase_of (so s) (h s) (tr s))" if "enabled e s"
    using phase_step [OF I that] .
  show "completions (tr s) = (case phase_of (so s) (h s) (tr s) of Done c \<Rightarrow> [c] | _ \<Rightarrow> [])"
    using I in_phase_completions by blast
  show "phase_allows e (phase_of (so s) (h s) (tr s))" if "enabled e s"
    using phase_enabled [OF conjunct1 [OF I] that] .
  show "enabled Fired s" if "phase_of (so s) (h s) (tr s) = Armed"
    using I that by (simp add: enabled_Fired)
  show "enabled (RunStop env) s" if "phase_of (so s) (h s) (tr s) = Stopping" for env
    using I that by (simp add: enabled_RunStop)
  show "enabled HandleClosed s"
    if "phase_of (so s) (h s) (tr s) = Firing \<or> phase_of (so s) (h s) (tr s) = Cancelling"
    using I that by (auto simp: enabled_HandleClosed)
qed (simp_all add: Token_step res_step)

context phased_op begin

text \<open>What a client sees of an operation that has completed by a run.\<close>

lemma h_run: "h (fold step es s) = h s"
  by (induction es arbitrary: s) (simp_all add: h_step)

lemma run_outcome:
  assumes "in_phase Ready (pend s) (so s) (h s) (tr s)" "wf s" "admissible enabled step s es"
  shows "oneshot_outcome (h s) (\<lambda>env now. res (Begin env now) s) (Token (so s)) es
    (tr (fold step es s))"
proof -
  let ?r = "fold step es s" and ?ph = "\<lambda>s. phase_of (so s) (h s) (tr s)"
  have I: "in_phase (?ph s) (pend s) (so s) (h s) (tr s) \<and> wf s"
    using assms(1,2) phase_of_in_phase [OF assms(1)] by (simp del: in_phase.simps)
  have r: "in_phase (?ph ?r) (pend ?r) (so ?r) (h s) (tr ?r)"
    using run_Inv [OF I assms(3)] by (simp add: h_run)
  show ?thesis
  proof (cases "?ph ?r")
    case (Done c)
    then have "completions (tr ?r) = [c]" using r by simp
    then show ?thesis
      using r Done run_verdict [OF I phase_of_in_phase [OF assms(1)] assms(3)]
      by (auto simp: oneshot_outcome_def split: completion.splits)
  qed (use r in \<open>simp_all add: oneshot_outcome_def\<close>)
qed

lemma run_can_complete:
  assumes "in_phase Ready (pend s) (so s) (h s) (tr s)" "wf s" "admissible enabled step s es"
    and "\<not> pend (fold step es s)"
  shows "\<exists>es' c. length es' \<le> 2 \<and> RequestStop \<notin> set es' \<and>
    admissible enabled step (fold step es s) es' \<and>
    completions (tr (fold step es' (fold step es s))) = [c]"
proof -
  let ?r = "fold step es s" and ?ph = "\<lambda>s. phase_of (so s) (h s) (tr s)"
  have I: "in_phase (?ph s) (pend s) (so s) (h s) (tr s) \<and> wf s"
    using assms(1,2) phase_of_in_phase [OF assms(1)] by (simp del: in_phase.simps)
  have I': "in_phase (?ph ?r) (pend ?r) (so ?r) (h ?r) (tr ?r) \<and> wf ?r"
    using run_Inv [OF I assms(3)] .
  then have "?ph ?r \<noteq> Ready" using assms(4) by auto
  then show ?thesis using can_complete [OF I'] by blast
qed

end

end
