(* ===== verification/Timer_Ops.thy ===== *)
theory Timer_Ops
  imports Oneshot
begin

text \<open>
  include/uvexec/algorithms/after_op_state.hpp: the operation states of \<open>schedule_after\<close> and
  \<open>schedule_at\<close> (\<open>TAfterScheduleOpState\<close>) and of \<open>after\<close> and \<open>at\<close> on a sender (\<open>TAfterOpState\<close>).
  Every handler is one definition; the event functions put in front of it the effect that
  says why it runs. The receiver of \<open>TAfterOpState\<close> is kept in an optional until the
  handle is closed.
\<close>

datatype ETimerType = After | At

record TTimerOp = cop +
  Timer :: ptr
  Timeout :: u64
  Type :: ETimerType

text \<open>The relative timeout handed to libuv; \<open>now\<close> is \<open>uv_now\<close> of the loop.\<close>

definition timer_timeout :: "u64 \<Rightarrow> 'a TTimerOp_scheme \<Rightarrow> u64" where
  "timer_timeout now op =
     (case Type op of
        At \<Rightarrow> (if now > Timeout op then 0 else Timeout op - now)
      | After \<Rightarrow> Timeout op)"

section \<open>\<open>TAfterScheduleOpState\<close>\<close>

record TAfterScheduleOpState = TTimerOp +
  Self :: ptr

definition TAfterScheduleOpState_new ::
    "ETimerType \<Rightarrow> ptr \<Rightarrow> ptr \<Rightarrow> ptr \<Rightarrow> ptr \<Rightarrow> bool \<Rightarrow> u64 \<Rightarrow> TAfterScheduleOpState" where
  "TAfterScheduleOpState_new type self stop_op timer loop token timeout =
     \<lparr>trace = [], StopOp = TStopOperation_new token stop_op, Loop = loop, Timer = timer,
      Timeout = timeout, Type = type, Self = self\<rparr>"

definition TAfterScheduleOpState_start :: "TAfterScheduleOpState \<Rightarrow> TAfterScheduleOpState" where
  "TAfterScheduleOpState_start op = Schedule (Self op) op"

definition TAfterScheduleOpState_Apply ::
    "uvenv \<Rightarrow> u64 \<Rightarrow> TAfterScheduleOpState \<Rightarrow> TAfterScheduleOpState" where
  "TAfterScheduleOpState_Apply env now op =
     (let (err, op) = Init_timer env (Timer op) (Loop op) op;
          op = (if IsError err then set_error (EErrc err) op else op);
          timeout = timer_timeout now op;
          (err, op) = TimerStart env (Timer op) AfterCallback timeout 0 op
      in if IsError err then set_error (EErrc err) op else Setup op)"

definition TAfterScheduleOpState_AfterCallback :: "TAfterScheduleOpState \<Rightarrow> TAfterScheduleOpState" where
  "TAfterScheduleOpState_AfterCallback op =
     (let (used, op) = Reset op
      in if \<not> used then Close (Timer op) (Some CloseCallback) op else op)"

definition TAfterScheduleOpState_CloseCallback :: "TAfterScheduleOpState \<Rightarrow> TAfterScheduleOpState" where
  "TAfterScheduleOpState_CloseCallback op =
     (let (gone, op) = ResetUnsafe op
      in if \<not> gone then set_stopped op else set_value [] op)"

definition TAfterScheduleOpState_StopCallback ::
    "uvenv \<Rightarrow> TAfterScheduleOpState \<Rightarrow> TAfterScheduleOpState" where
  "TAfterScheduleOpState_StopCallback env op =
     (let (_, op) = TimerStop env (Timer op) op
      in Close (Timer op) (Some CloseCallback) op)"

fun TAfterScheduleOpState_step :: "event \<Rightarrow> TAfterScheduleOpState \<Rightarrow> TAfterScheduleOpState" where
  "TAfterScheduleOpState_step (Begin env now) op =
     TAfterScheduleOpState_Apply env now (emit (Applied (Self op)) op)"
| "TAfterScheduleOpState_step Fired op =
     TAfterScheduleOpState_AfterCallback (emit (Callback AfterCallback (Timer op)) op)"
| "TAfterScheduleOpState_step RequestStop op = request_stop op"
| "TAfterScheduleOpState_step (RunStop env) op =
     TAfterScheduleOpState_StopCallback env (emit (Applied (SelfOp (StopOp op))) op)"
| "TAfterScheduleOpState_step HandleClosed op =
     TAfterScheduleOpState_CloseCallback (emit (Callback CloseCallback (Timer op)) op)"

text \<open>
  When the surroundings may deliver the events, in the runs in which \<open>uv_timer_init\<close> succeeds. Where it fails the code completes with the error and
  goes on with a handle that libuv has not initialised; what it does in that step is part of the outcome theorems, and the run
  is followed no further.
\<close>

fun TAfterScheduleOpState_enabled :: "event \<Rightarrow> TAfterScheduleOpState \<Rightarrow> bool" where
  "TAfterScheduleOpState_enabled (Begin env now) op \<longleftrightarrow>
     queued (Self op) (trace op) \<and> \<not> IsError (env (uv_timer_init (Loop op) (Timer op)))"
| "TAfterScheduleOpState_enabled Fired op \<longleftrightarrow> active (Timer op) (trace op)"
| "TAfterScheduleOpState_enabled RequestStop op \<longleftrightarrow> \<not> Token (StopOp op)"
| "TAfterScheduleOpState_enabled (RunStop env) op \<longleftrightarrow> queued (SelfOp (StopOp op)) (trace op)"
| "TAfterScheduleOpState_enabled HandleClosed op \<longleftrightarrow> closing (Timer op) (trace op)"

text \<open>The error of a failing start of the timer.\<close>

fun timer_start_error :: "event \<Rightarrow> 'a TTimerOp_scheme \<Rightarrow> EErrc option" where
  "timer_start_error (Begin env now) op =
     (let err = env (uv_timer_start (Timer op) AfterCallback (timer_timeout now op) 0)
      in if IsError err then Some (EErrc err) else None)"
| "timer_start_error e op = None"

lemma timer_timeout_trace [simp]: "timer_timeout now (op\<lparr>trace := tr\<rparr>) = timer_timeout now op"
  by (simp add: timer_timeout_def split: ETimerType.splits)

lemmas after_schedule_defs = TAfterScheduleOpState_Apply_def TAfterScheduleOpState_AfterCallback_def
  TAfterScheduleOpState_CloseCallback_def TAfterScheduleOpState_StopCallback_def

interpretation after_schedule: phased_op TAfterScheduleOpState_enabled TAfterScheduleOpState_step
  StopOp Timer trace "\<lambda>op. queued (Self op) (trace op)" "\<lambda>op. Self op \<noteq> SelfOp (StopOp op)"
  timer_start_error
proof
  fix s :: TAfterScheduleOpState and e p
  assume "in_phase p (queued (Self s) (trace s)) (StopOp s) (Timer s) (trace s)"
    "Self s \<noteq> SelfOp (StopOp s)" "TAfterScheduleOpState_enabled e s"
  then show "in_phase (spec_step (Token (StopOp s)) (timer_start_error e s) e p)
      (queued (Self (TAfterScheduleOpState_step e s)) (trace (TAfterScheduleOpState_step e s)))
      (StopOp (TAfterScheduleOpState_step e s)) (Timer (TAfterScheduleOpState_step e s))
      (trace (TAfterScheduleOpState_step e s)) \<and>
    Self (TAfterScheduleOpState_step e s) \<noteq> SelfOp (StopOp (TAfterScheduleOpState_step e s))"
    by (cases e; cases p) (simp_all add: handler_defs after_schedule_defs)
next
  fix s :: TAfterScheduleOpState and e
  show "Token (StopOp (TAfterScheduleOpState_step e s)) \<longleftrightarrow> Token (StopOp s) \<or> e = RequestStop"
    by (cases e) (simp_all add: handler_defs after_schedule_defs)
  show "Timer (TAfterScheduleOpState_step e s) = Timer s"
    by (cases e) (simp_all add: handler_defs after_schedule_defs)
  show "timer_start_error (Begin env now) (TAfterScheduleOpState_step RequestStop s) =
      timer_start_error (Begin env now) s" for env now
    by (simp add: handler_defs timer_timeout_def split: ETimerType.splits)
qed simp_all

section \<open>\<open>TAfterOpState\<close>\<close>

text \<open>
  \<open>Op\<close> is the operation state of the child sender, whose receiver is \<open>TAfterReceiver\<close>; its
  \<open>set_error\<close> and \<open>set_stopped\<close> go straight to the receiver (stdexec's \<open>receiver_adaptor\<close>).
  \<open>Receiver\<close>: whether the optional holds the receiver.
\<close>

record TAfterOpState = TTimerOp +
  Op :: ptr
  Receiver :: bool

definition TAfterOpState_new ::
    "ETimerType \<Rightarrow> ptr \<Rightarrow> ptr \<Rightarrow> ptr \<Rightarrow> ptr \<Rightarrow> bool \<Rightarrow> u64 \<Rightarrow> TAfterOpState" where
  "TAfterOpState_new type child stop_op timer loop token timeout =
     \<lparr>trace = [], StopOp = TStopOperation_new token stop_op, Loop = loop, Timer = timer,
      Timeout = timeout, Type = type, Op = child, Receiver = False\<rparr>"

definition TAfterOpState_start :: "TAfterOpState \<Rightarrow> TAfterOpState" where
  "TAfterOpState_start op = emit (Started (Op op)) op"

definition TAfterReceiver_set_value :: "uvenv \<Rightarrow> u64 \<Rightarrow> TAfterOpState \<Rightarrow> TAfterOpState" where
  "TAfterReceiver_set_value env now op =
     (let (err, op) = Init_timer env (Timer op) (Loop op) op;
          op = (if IsError err then set_error (EErrc err) op else op);
          timeout = timer_timeout now op;
          (err, op) = TimerStart env (Timer op) AfterCallback timeout 0 op
      in if IsError err then set_error (EErrc err) op else Setup (op\<lparr>Receiver := True\<rparr>))"

definition TAfterOpState_AfterCallback :: "TAfterOpState \<Rightarrow> TAfterOpState" where
  "TAfterOpState_AfterCallback op =
     (let (used, op) = Reset op
      in if \<not> used then Close (Timer op) (Some CloseCallback) op else op)"

definition TAfterOpState_CloseCallback :: "TAfterOpState \<Rightarrow> TAfterOpState" where
  "TAfterOpState_CloseCallback op =
     (let (gone, op) = ResetUnsafe op
      in if \<not> Receiver op then emit (Undefined ''empty optional'') op
         else if \<not> gone then set_stopped op else set_value [] op)"

definition TAfterOpState_StopCallback :: "uvenv \<Rightarrow> TAfterOpState \<Rightarrow> TAfterOpState" where
  "TAfterOpState_StopCallback env op =
     (let (_, op) = TimerStop env (Timer op) op
      in Close (Timer op) (Some CloseCallback) op)"

fun TAfterOpState_step :: "event \<Rightarrow> TAfterOpState \<Rightarrow> TAfterOpState" where
  "TAfterOpState_step (Begin env now) op =
     TAfterReceiver_set_value env now (emit (ChildDone (Op op)) op)"
| "TAfterOpState_step Fired op =
     TAfterOpState_AfterCallback (emit (Callback AfterCallback (Timer op)) op)"
| "TAfterOpState_step RequestStop op = request_stop op"
| "TAfterOpState_step (RunStop env) op =
     TAfterOpState_StopCallback env (emit (Applied (SelfOp (StopOp op))) op)"
| "TAfterOpState_step HandleClosed op =
     TAfterOpState_CloseCallback (emit (Callback CloseCallback (Timer op)) op)"

fun TAfterOpState_enabled :: "event \<Rightarrow> TAfterOpState \<Rightarrow> bool" where
  "TAfterOpState_enabled (Begin env now) op \<longleftrightarrow>
     running (Op op) (trace op) \<and> \<not> IsError (env (uv_timer_init (Loop op) (Timer op)))"
| "TAfterOpState_enabled Fired op \<longleftrightarrow> active (Timer op) (trace op)"
| "TAfterOpState_enabled RequestStop op \<longleftrightarrow> \<not> Token (StopOp op)"
| "TAfterOpState_enabled (RunStop env) op \<longleftrightarrow> queued (SelfOp (StopOp op)) (trace op)"
| "TAfterOpState_enabled HandleClosed op \<longleftrightarrow> closing (Timer op) (trace op)"

text \<open>From the child's completion to its own, the optional holds the receiver.\<close>

definition TAfterOpState_wf :: "TAfterOpState \<Rightarrow> bool" where
  "TAfterOpState_wf op \<longleftrightarrow> running (Op op) (trace op) \<or> completions (trace op) \<noteq> [] \<or> Receiver op"

lemmas after_defs = TAfterReceiver_set_value_def TAfterOpState_AfterCallback_def
  TAfterOpState_CloseCallback_def TAfterOpState_StopCallback_def TAfterOpState_wf_def

interpretation after: phased_op TAfterOpState_enabled TAfterOpState_step
  StopOp Timer trace "\<lambda>op. running (Op op) (trace op)" TAfterOpState_wf timer_start_error
proof
  fix s :: TAfterOpState and e p
  assume "in_phase p (running (Op s) (trace s)) (StopOp s) (Timer s) (trace s)"
    "TAfterOpState_wf s" "TAfterOpState_enabled e s"
  then show "in_phase (spec_step (Token (StopOp s)) (timer_start_error e s) e p)
      (running (Op (TAfterOpState_step e s)) (trace (TAfterOpState_step e s)))
      (StopOp (TAfterOpState_step e s)) (Timer (TAfterOpState_step e s))
      (trace (TAfterOpState_step e s)) \<and> TAfterOpState_wf (TAfterOpState_step e s)"
    by (cases e; cases p) (simp_all add: handler_defs after_defs)
next
  fix s :: TAfterOpState and e
  show "Token (StopOp (TAfterOpState_step e s)) \<longleftrightarrow> Token (StopOp s) \<or> e = RequestStop"
    by (cases e) (simp_all add: handler_defs after_defs)
  show "Timer (TAfterOpState_step e s) = Timer s"
    by (cases e) (simp_all add: handler_defs after_defs)
  show "timer_start_error (Begin env now) (TAfterOpState_step RequestStop s) =
      timer_start_error (Begin env now) s" for env now
    by (simp add: handler_defs timer_timeout_def split: ETimerType.splits)
qed simp_all

section \<open>Properties\<close>

abbreviation after_schedule_init ::
    "ETimerType \<Rightarrow> ptr \<Rightarrow> ptr \<Rightarrow> ptr \<Rightarrow> ptr \<Rightarrow> bool \<Rightarrow> u64 \<Rightarrow> TAfterScheduleOpState" where
  "after_schedule_init type self stop_op timer loop token timeout \<equiv>
     TAfterScheduleOpState_start
       (TAfterScheduleOpState_new type self stop_op timer loop token timeout)"

abbreviation after_init ::
    "ETimerType \<Rightarrow> ptr \<Rightarrow> ptr \<Rightarrow> ptr \<Rightarrow> ptr \<Rightarrow> bool \<Rightarrow> u64 \<Rightarrow> TAfterOpState" where
  "after_init type child stop_op timer loop token timeout \<equiv>
     TAfterOpState_start (TAfterOpState_new type child stop_op timer loop token timeout)"

lemmas timer_new_defs = TAfterScheduleOpState_start_def TAfterScheduleOpState_new_def
  TAfterOpState_start_def TAfterOpState_new_def TStopOperation_new_def

lemma after_schedule_init_Ready:
  "in_phase Ready (queued (Self s) (trace s)) (StopOp s) (Timer s) (trace s)"
  if "self \<noteq> stop_op" "s = after_schedule_init type self stop_op timer loop token timeout"
  using that by (simp add: timer_new_defs handler_defs queued_def active_def closing_def inited_def)

lemma after_init_Ready:
  "in_phase Ready (running (Op s) (trace s)) (StopOp s) (Timer s) (trace s) \<and> TAfterOpState_wf s"
  if "s = after_init type child stop_op timer loop token timeout"
  by (simp add: that timer_new_defs handler_defs queued_def active_def closing_def inited_def
      running_def TAfterOpState_wf_def)

text \<open>A step leaves what its operation was constructed with.\<close>

lemma timer_step_frame:
  "Self (TAfterScheduleOpState_step e s) = Self s" "Timer (TAfterScheduleOpState_step e s) = Timer s"
  "Loop (TAfterScheduleOpState_step e s) = Loop s" "Timeout (TAfterScheduleOpState_step e s) = Timeout s"
  "Type (TAfterScheduleOpState_step e s) = Type s"
  "Timer (TAfterOpState_step e' t) = Timer t" "Loop (TAfterOpState_step e' t) = Loop t"
  "Timeout (TAfterOpState_step e' t) = Timeout t" "Type (TAfterOpState_step e' t) = Type t" "Op (TAfterOpState_step e' t) = Op t"
  by (cases e; simp add: handler_defs after_schedule_defs; fail | cases e'; simp add: handler_defs after_defs)+

lemma timer_run_frame:
  "Self (fold TAfterScheduleOpState_step es s) = Self s" "Timer (fold TAfterScheduleOpState_step es s) = Timer s"
  "Loop (fold TAfterScheduleOpState_step es s) = Loop s" "Timeout (fold TAfterScheduleOpState_step es s) = Timeout s"
  "Type (fold TAfterScheduleOpState_step es s) = Type s"
  by (induction es arbitrary: s) (simp_all add: timer_step_frame)

lemma timer_start_error_cong:
  "Timer s = Timer t \<Longrightarrow> Timeout s = Timeout t \<Longrightarrow> Type s = Type t \<Longrightarrow> timer_start_error e s = timer_start_error e t"
proof -
  assume a: "Timer s = Timer t" "Timeout s = Timeout t" "Type s = Type t"
  then have "timer_timeout now s = timer_timeout now t" for now by (simp add: timer_timeout_def split: ETimerType.splits)
  then show ?thesis using a by (cases e) simp_all
qed

text \<open>The branch of \<open>Apply\<close> and of \<open>set_value\<close> in which \<open>uv_timer_init\<close> fails.\<close>

lemma after_schedule_init_fails:
  assumes "in_phase p (queued (Self s) (trace s)) (StopOp s) (Timer s) (trace s)" "queued (Self s) (trace s)"
    and "IsError (env (uv_timer_init (Loop s) (Timer s)))"
  shows "failed_init (Timer s) (EErrc (env (uv_timer_init (Loop s) (Timer s)))) (timer_start_error (Begin env now) s)
    (trace (TAfterScheduleOpState_step (Begin env now) s))"
  using assms by (cases p) (simp_all add: failed_init_def handler_defs after_schedule_defs)

lemma after_init_fails:
  assumes "in_phase p (running (Op s) (trace s)) (StopOp s) (Timer s) (trace s)" "running (Op s) (trace s)"
    and "IsError (env (uv_timer_init (Loop s) (Timer s)))"
  shows "failed_init (Timer s) (EErrc (env (uv_timer_init (Loop s) (Timer s)))) (timer_start_error (Begin env now) s)
    (trace (TAfterOpState_step (Begin env now) s))"
  using assms by (cases p) (simp_all add: failed_init_def handler_defs after_defs)

text \<open>
  C23: an operation of \<open>schedule_after\<close> or \<open>schedule_at\<close>, in every run that the loop, libuv and a stop request may produce. While \<open>uv_timer_init\<close>
  succeeds it completes at most once and closes its timer at most once. The completion is the one owed (\<open>verdict\<close>): the error of
  \<open>uv_timer_start\<close>, else a value exactly when the timer fires before stop is requested, else stopped. A value and stopped are sent after
  the timer has been closed exactly once and is released; the error is sent with the timer initialised and not closed. When
  \<open>uv_timer_init\<close> fails, the operation completes with its error and goes on: it starts the timer that was not initialised, which completes
  it a second time at once when that fails, and otherwise leaves the timer active.
\<close>

theorem after_schedule_outcome:
  assumes "self \<noteq> stop_op"
    and "op = after_schedule_init type self stop_op timer loop token timeout"
    and "admissible TAfterScheduleOpState_enabled TAfterScheduleOpState_step op es"
  shows "oneshot_outcome timer (\<lambda>env now. timer_start_error (Begin env now) op) token es
      (trace (fold TAfterScheduleOpState_step es op)) \<and>
    (\<forall>env now. queued self (trace (fold TAfterScheduleOpState_step es op)) \<and> IsError (env (uv_timer_init loop timer)) \<longrightarrow>
      failed_init timer (EErrc (env (uv_timer_init loop timer))) (timer_start_error (Begin env now) op)
        (trace (fold TAfterScheduleOpState_step (es @ [Begin env now]) op)))"
proof (intro conjI allI impI)
  let ?r = "fold TAfterScheduleOpState_step es op"
  have f: "Self op = self" "Self op \<noteq> SelfOp (StopOp op)" "Timer op = timer" "Token (StopOp op) = token" "Loop op = loop"
    using assms(1,2) by (simp_all add: timer_new_defs handler_defs)
  note rdy = after_schedule_init_Ready [OF assms(1,2)]
  show "oneshot_outcome timer (\<lambda>env now. timer_start_error (Begin env now) op) token es (trace ?r)"
    using after_schedule.run_outcome [OF rdy f(2) assms(3)] f by simp
  fix env now
  assume q: "queued self (trace ?r) \<and> IsError (env (uv_timer_init loop timer))"
  have "in_phase (phase_of (StopOp ?r) (Timer ?r) (trace ?r)) (queued (Self ?r) (trace ?r)) (StopOp ?r) (Timer ?r) (trace ?r)"
    using after_schedule.run_Inv [OF _ assms(3)] rdy f(2) phase_of_in_phase [OF rdy] by (simp del: in_phase.simps)
  then have "failed_init (Timer ?r) (EErrc (env (uv_timer_init (Loop ?r) (Timer ?r)))) (timer_start_error (Begin env now) ?r)
      (trace (TAfterScheduleOpState_step (Begin env now) ?r))"
    by (rule after_schedule_init_fails) (use q f in \<open>simp_all add: timer_run_frame\<close>)
  moreover have "timer_start_error (Begin env now) ?r = timer_start_error (Begin env now) op"
    by (rule timer_start_error_cong) (simp_all add: timer_run_frame)
  ultimately show "failed_init timer (EErrc (env (uv_timer_init loop timer))) (timer_start_error (Begin env now) op)
      (trace (fold TAfterScheduleOpState_step (es @ [Begin env now]) op))"
    using f by (simp add: timer_run_frame del: TAfterScheduleOpState_step.simps timer_start_error.simps)
qed

theorem after_schedule_outcome_witness:
  "oneshot_outcome 2
    (\<lambda>env now. timer_start_error (Begin env now) (after_schedule_init At 0 1 2 3 False 10)) False
    [Begin (\<lambda>_. 0) 5, Fired, HandleClosed]
    (trace (fold TAfterScheduleOpState_step [Begin (\<lambda>_. 0) 5, Fired, HandleClosed]
       (after_schedule_init At 0 1 2 3 False 10))) \<and>
   completions (trace (TAfterScheduleOpState_step (Begin (\<lambda>_. - 1) 5) (after_schedule_init At 0 1 2 3 False 10))) =
     [SetError (EErrc (- 1)), SetError (EErrc (- 1))]"
proof
  let ?op = "after_schedule_init At 0 1 2 3 False 10" and ?es = "[Begin (\<lambda>_. 0) 5, Fired, HandleClosed]"
  have a: "admissible TAfterScheduleOpState_enabled TAfterScheduleOpState_step ?op ?es"
    "admissible TAfterScheduleOpState_enabled TAfterScheduleOpState_step ?op []" by code_simp+
  show "oneshot_outcome 2 (\<lambda>env now. timer_start_error (Begin env now) ?op) False ?es
      (trace (fold TAfterScheduleOpState_step ?es ?op))"
    using after_schedule_outcome [OF _ refl a(1)] by simp
  have ne: "(0 :: ptr) \<noteq> 1" by simp
  have q: "queued 0 (trace (fold TAfterScheduleOpState_step [] ?op)) \<and> IsError ((\<lambda>_. - 1) (uv_timer_init 3 2))" by code_simp
  have "failed_init 2 (EErrc (- 1)) (timer_start_error (Begin (\<lambda>_. - 1) 5) ?op)
      (trace (fold TAfterScheduleOpState_step ([] @ [Begin (\<lambda>_. - 1) 5]) ?op))"
    by (rule after_schedule_outcome [OF ne refl a(2), THEN conjunct2, rule_format, OF q])
  then show "completions (trace (TAfterScheduleOpState_step (Begin (\<lambda>_. - 1) 5) ?op)) =
      [SetError (EErrc (- 1)), SetError (EErrc (- 1))]"
    by (simp add: failed_init_def IsError_def del: TAfterScheduleOpState_step.simps)
qed

text \<open>
  the same for \<open>after\<close> and \<open>at\<close> on a sender, from the moment the child sender completes with a
  value; in particular the receiver is in its optional whenever the handle is closed.
\<close>

theorem after_outcome:
  assumes "op = after_init type child stop_op timer loop token timeout"
    and "admissible TAfterOpState_enabled TAfterOpState_step op es"
  shows "oneshot_outcome timer (\<lambda>env now. timer_start_error (Begin env now) op) token es
    (trace (fold TAfterOpState_step es op))"
proof -
  have "Timer op = timer" "Token (StopOp op) = token"
    using assms(1) by (simp_all add: timer_new_defs handler_defs)
  then show ?thesis
    using after.run_outcome [OF after_init_Ready [OF assms(1), THEN conjunct1]
        after_init_Ready [OF assms(1), THEN conjunct2] assms(2)] by simp
qed

theorem after_outcome_witness:
  "oneshot_outcome 2 (\<lambda>env now. timer_start_error (Begin env now) (after_init After 0 1 2 3 False 10))
    False [Begin (\<lambda>_. 0) 5, RequestStop, RunStop (\<lambda>_. 0), HandleClosed]
    (trace (fold TAfterOpState_step [Begin (\<lambda>_. 0) 5, RequestStop, RunStop (\<lambda>_. 0), HandleClosed]
       (after_init After 0 1 2 3 False 10)))"
  by (rule after_outcome [of _ After 0 1]; code_simp)

text \<open>
  no timer operation gets stuck: once it has begun, whatever has happened since, at most two
  more events that the loop and libuv can deliver, none of them a further stop request, complete it.
\<close>

theorem after_schedule_can_complete:
  fixes es :: "event list"
  assumes "self \<noteq> stop_op"
    and "op = after_schedule_init type self stop_op timer loop token timeout"
    and "admissible TAfterScheduleOpState_enabled TAfterScheduleOpState_step op es"
    and "r = fold TAfterScheduleOpState_step es op"
    and "\<not> queued self (trace r)"
  shows "\<exists>es' c. length es' \<le> 2 \<and> RequestStop \<notin> set es' \<and>
    admissible TAfterScheduleOpState_enabled TAfterScheduleOpState_step r es' \<and>
    completions (trace (fold TAfterScheduleOpState_step es' r)) = [c]"
proof -
  note rdy = after_schedule_init_Ready [OF assms(1,2)]
  have wf: "Self op \<noteq> SelfOp (StopOp op)" "Self op = self"
    using assms(1,2) by (simp_all add: timer_new_defs handler_defs)
  have "Self (TAfterScheduleOpState_step e s) = Self s" for e s
    by (cases e) (simp_all add: handler_defs after_schedule_defs)
  then have "Self (fold TAfterScheduleOpState_step es s) = Self s" for s
    by (induction es arbitrary: s) simp_all
  then show ?thesis
    using after_schedule.run_can_complete [OF rdy wf(1) assms(3)] assms(4,5) wf(2) by simp
qed

theorem after_schedule_can_complete_witness:
  "\<exists>es' c. length es' \<le> 2 \<and> RequestStop \<notin> set es' \<and>
    admissible TAfterScheduleOpState_enabled TAfterScheduleOpState_step
      (fold TAfterScheduleOpState_step [Begin (\<lambda>_. 0) 5] (after_schedule_init At 0 1 2 3 True 10))
      es' \<and>
    completions (trace (fold TAfterScheduleOpState_step es'
      (fold TAfterScheduleOpState_step [Begin (\<lambda>_. 0) 5]
        (after_schedule_init At 0 1 2 3 True 10)))) = [c]"
proof -
  have "admissible TAfterScheduleOpState_enabled TAfterScheduleOpState_step
      (after_schedule_init At 0 1 2 3 True 10) [Begin (\<lambda>_. 0) 5]"
    "\<not> queued 0 (trace (fold TAfterScheduleOpState_step [Begin (\<lambda>_. 0) 5]
        (after_schedule_init At 0 1 2 3 True 10)))"
    by code_simp+
  from after_schedule_can_complete [OF _ refl this(1) refl this(2)] show ?thesis by simp
qed

text \<open>
  C25: \<open>at\<close> never waits less than to its deadline and never more: the relative timeout added to the
  loop's time is the deadline, or the loop's time when the deadline has passed (no wrap-around);
  \<open>after\<close> passes its timeout on.
\<close>

theorem timer_timeout_reaches_deadline:
  "unat (timer_timeout now op) =
     (case Type op of At \<Rightarrow> unat (Timeout op) - unat now | After \<Rightarrow> unat (Timeout op))"
proof (cases "now > Timeout op")
  case True
  then show ?thesis
    by (cases "Type op") (simp_all add: timer_timeout_def word_less_nat_alt)
next
  case False
  then show ?thesis
    by (cases "Type op") (simp_all add: timer_timeout_def unat_sub not_less)
qed

end
