(* ===== verification/Signal_Ops.thy ===== *)
theory Signal_Ops
  imports Oneshot
begin

text \<open>
  include/uvexec/algorithms/upon_signal_op_state.hpp: the operation states of
  \<open>schedule_upon_signal\<close> (\<open>TUponSignalScheduleOpState\<close>) and of \<open>upon_signal\<close> on a sender
  (\<open>TUponSignalOpState\<close>). They interpret the same contract as the timers, for the runs in which
  \<open>uv_signal_init\<close> succeeds; what the code does when it fails is a theorem of its own.
\<close>

record TSignalOp = cop +
  Signal_h :: ptr
  Signum :: int

section \<open>\<open>TUponSignalScheduleOpState\<close>\<close>

record TUponSignalScheduleOpState = TSignalOp +
  USelf :: ptr

definition TUponSignalScheduleOpState_new ::
    "ptr \<Rightarrow> ptr \<Rightarrow> ptr \<Rightarrow> ptr \<Rightarrow> bool \<Rightarrow> int \<Rightarrow> TUponSignalScheduleOpState" where
  "TUponSignalScheduleOpState_new self stop_op handle loop token signum =
     \<lparr>trace = [], StopOp = TStopOperation_new token stop_op, Loop = loop, Signal_h = handle,
      Signum = signum, USelf = self\<rparr>"

definition TUponSignalScheduleOpState_start ::
    "TUponSignalScheduleOpState \<Rightarrow> TUponSignalScheduleOpState" where
  "TUponSignalScheduleOpState_start op = Schedule (USelf op) op"

definition TUponSignalScheduleOpState_Apply ::
    "uvenv \<Rightarrow> TUponSignalScheduleOpState \<Rightarrow> TUponSignalScheduleOpState" where
  "TUponSignalScheduleOpState_Apply env op =
     (let (err, op) = Init_signal env (Signal_h op) (Loop op) op;
          op = (if IsError err then set_error (EErrc err) op else op);
          (err, op) = SignalOnce env (Signal_h op) SignalCallback (Signum op) op
      in if IsError err then set_error (EErrc err) op else Setup op)"

definition TUponSignalScheduleOpState_SignalCallback ::
    "TUponSignalScheduleOpState \<Rightarrow> TUponSignalScheduleOpState" where
  "TUponSignalScheduleOpState_SignalCallback op =
     (let (used, op) = Reset op
      in if \<not> used then Close (Signal_h op) (Some CloseCallback) op else op)"

definition TUponSignalScheduleOpState_CloseCallback ::
    "TUponSignalScheduleOpState \<Rightarrow> TUponSignalScheduleOpState" where
  "TUponSignalScheduleOpState_CloseCallback op =
     (let (gone, op) = ResetUnsafe op
      in if \<not> gone then set_stopped op else set_value [] op)"

definition TUponSignalScheduleOpState_StopCallback ::
    "uvenv \<Rightarrow> TUponSignalScheduleOpState \<Rightarrow> TUponSignalScheduleOpState" where
  "TUponSignalScheduleOpState_StopCallback env op =
     (let (_, op) = SignalStop env (Signal_h op) op
      in Close (Signal_h op) (Some CloseCallback) op)"

fun TUponSignalScheduleOpState_step ::
    "event \<Rightarrow> TUponSignalScheduleOpState \<Rightarrow> TUponSignalScheduleOpState" where
  "TUponSignalScheduleOpState_step (Begin env now) op =
     TUponSignalScheduleOpState_Apply env (emit (Applied (USelf op)) op)"
| "TUponSignalScheduleOpState_step Fired op =
     TUponSignalScheduleOpState_SignalCallback (emit (Callback SignalCallback (Signal_h op)) op)"
| "TUponSignalScheduleOpState_step RequestStop op = request_stop op"
| "TUponSignalScheduleOpState_step (RunStop env) op =
     TUponSignalScheduleOpState_StopCallback env (emit (Applied (SelfOp (StopOp op))) op)"
| "TUponSignalScheduleOpState_step HandleClosed op =
     TUponSignalScheduleOpState_CloseCallback (emit (Callback CloseCallback (Signal_h op)) op)"

text \<open>
  When the surroundings may deliver the events, in the runs in which \<open>uv_signal_init\<close> succeeds. It may fail; the step the code then makes is a
  theorem, and the run is followed no further.
\<close>

fun TUponSignalScheduleOpState_enabled :: "event \<Rightarrow> TUponSignalScheduleOpState \<Rightarrow> bool" where
  "TUponSignalScheduleOpState_enabled (Begin env now) op \<longleftrightarrow>
     queued (USelf op) (trace op) \<and> \<not> IsError (env (uv_signal_init (Loop op) (Signal_h op)))"
| "TUponSignalScheduleOpState_enabled Fired op \<longleftrightarrow> active (Signal_h op) (trace op)"
| "TUponSignalScheduleOpState_enabled RequestStop op \<longleftrightarrow> \<not> Token (StopOp op)"
| "TUponSignalScheduleOpState_enabled (RunStop env) op \<longleftrightarrow> queued (SelfOp (StopOp op)) (trace op)"
| "TUponSignalScheduleOpState_enabled HandleClosed op \<longleftrightarrow> closing (Signal_h op) (trace op)"

fun signal_start_error :: "event \<Rightarrow> 'a TSignalOp_scheme \<Rightarrow> EErrc option" where
  "signal_start_error (Begin env now) op =
     (let err = env (uv_signal_start_oneshot (Signal_h op) SignalCallback (Signum op))
      in if IsError err then Some (EErrc err) else None)"
| "signal_start_error e op = None"

lemmas upon_signal_schedule_defs = TUponSignalScheduleOpState_Apply_def
  TUponSignalScheduleOpState_SignalCallback_def TUponSignalScheduleOpState_CloseCallback_def
  TUponSignalScheduleOpState_StopCallback_def

interpretation upon_signal_schedule: phased_op TUponSignalScheduleOpState_enabled
  TUponSignalScheduleOpState_step StopOp Signal_h trace "\<lambda>op. queued (USelf op) (trace op)"
  "\<lambda>op. USelf op \<noteq> SelfOp (StopOp op)" signal_start_error
proof
  fix s :: TUponSignalScheduleOpState and e p
  assume "in_phase p (queued (USelf s) (trace s)) (StopOp s) (Signal_h s) (trace s)"
    "USelf s \<noteq> SelfOp (StopOp s)" "TUponSignalScheduleOpState_enabled e s"
  then show "in_phase (spec_step (Token (StopOp s)) (signal_start_error e s) e p)
      (queued (USelf (TUponSignalScheduleOpState_step e s))
        (trace (TUponSignalScheduleOpState_step e s)))
      (StopOp (TUponSignalScheduleOpState_step e s)) (Signal_h (TUponSignalScheduleOpState_step e s))
      (trace (TUponSignalScheduleOpState_step e s)) \<and>
    USelf (TUponSignalScheduleOpState_step e s) \<noteq>
      SelfOp (StopOp (TUponSignalScheduleOpState_step e s))"
    by (cases e; cases p) (simp_all add: handler_defs upon_signal_schedule_defs)
next
  fix s :: TUponSignalScheduleOpState and e
  show "Token (StopOp (TUponSignalScheduleOpState_step e s)) \<longleftrightarrow>
      Token (StopOp s) \<or> e = RequestStop"
    by (cases e) (simp_all add: handler_defs upon_signal_schedule_defs)
  show "Signal_h (TUponSignalScheduleOpState_step e s) = Signal_h s"
    by (cases e) (simp_all add: handler_defs upon_signal_schedule_defs)
  show "signal_start_error (Begin env now) (TUponSignalScheduleOpState_step RequestStop s) =
      signal_start_error (Begin env now) s" for env now
    by (simp add: handler_defs)
qed simp_all

section \<open>\<open>TUponSignalOpState\<close>\<close>

record TUponSignalOpState = TSignalOp +
  UOp :: ptr
  UReceiver :: bool

definition TUponSignalOpState_new ::
    "ptr \<Rightarrow> ptr \<Rightarrow> ptr \<Rightarrow> ptr \<Rightarrow> bool \<Rightarrow> int \<Rightarrow> TUponSignalOpState" where
  "TUponSignalOpState_new child stop_op handle loop token signum =
     \<lparr>trace = [], StopOp = TStopOperation_new token stop_op, Loop = loop, Signal_h = handle,
      Signum = signum, UOp = child, UReceiver = False\<rparr>"

definition TUponSignalOpState_start :: "TUponSignalOpState \<Rightarrow> TUponSignalOpState" where
  "TUponSignalOpState_start op = emit (Started (UOp op)) op"

definition TUponSignalReceiver_set_value :: "uvenv \<Rightarrow> TUponSignalOpState \<Rightarrow> TUponSignalOpState" where
  "TUponSignalReceiver_set_value env op =
     (let (err, op) = Init_signal env (Signal_h op) (Loop op) op;
          op = (if IsError err then set_error (EErrc err) op else op);
          (err, op) = SignalOnce env (Signal_h op) SignalCallback (Signum op) op
      in if IsError err then set_error (EErrc err) op else Setup (op\<lparr>UReceiver := True\<rparr>))"

definition TUponSignalOpState_SignalCallback :: "TUponSignalOpState \<Rightarrow> TUponSignalOpState" where
  "TUponSignalOpState_SignalCallback op =
     (let (used, op) = Reset op
      in if \<not> used then Close (Signal_h op) (Some CloseCallback) op else op)"

definition TUponSignalOpState_CloseCallback :: "TUponSignalOpState \<Rightarrow> TUponSignalOpState" where
  "TUponSignalOpState_CloseCallback op =
     (let (gone, op) = ResetUnsafe op
      in if \<not> UReceiver op then emit (Undefined ''empty optional'') op
         else if \<not> gone then set_stopped op else set_value [] op)"

definition TUponSignalOpState_StopCallback :: "uvenv \<Rightarrow> TUponSignalOpState \<Rightarrow> TUponSignalOpState" where
  "TUponSignalOpState_StopCallback env op =
     (let (_, op) = SignalStop env (Signal_h op) op
      in Close (Signal_h op) (Some CloseCallback) op)"

fun TUponSignalOpState_step :: "event \<Rightarrow> TUponSignalOpState \<Rightarrow> TUponSignalOpState" where
  "TUponSignalOpState_step (Begin env now) op =
     TUponSignalReceiver_set_value env (emit (ChildDone (UOp op)) op)"
| "TUponSignalOpState_step Fired op =
     TUponSignalOpState_SignalCallback (emit (Callback SignalCallback (Signal_h op)) op)"
| "TUponSignalOpState_step RequestStop op = request_stop op"
| "TUponSignalOpState_step (RunStop env) op =
     TUponSignalOpState_StopCallback env (emit (Applied (SelfOp (StopOp op))) op)"
| "TUponSignalOpState_step HandleClosed op =
     TUponSignalOpState_CloseCallback (emit (Callback CloseCallback (Signal_h op)) op)"

fun TUponSignalOpState_enabled :: "event \<Rightarrow> TUponSignalOpState \<Rightarrow> bool" where
  "TUponSignalOpState_enabled (Begin env now) op \<longleftrightarrow>
     running (UOp op) (trace op) \<and> \<not> IsError (env (uv_signal_init (Loop op) (Signal_h op)))"
| "TUponSignalOpState_enabled Fired op \<longleftrightarrow> active (Signal_h op) (trace op)"
| "TUponSignalOpState_enabled RequestStop op \<longleftrightarrow> \<not> Token (StopOp op)"
| "TUponSignalOpState_enabled (RunStop env) op \<longleftrightarrow> queued (SelfOp (StopOp op)) (trace op)"
| "TUponSignalOpState_enabled HandleClosed op \<longleftrightarrow> closing (Signal_h op) (trace op)"

definition TUponSignalOpState_wf :: "TUponSignalOpState \<Rightarrow> bool" where
  "TUponSignalOpState_wf op \<longleftrightarrow>
     running (UOp op) (trace op) \<or> completions (trace op) \<noteq> [] \<or> UReceiver op"

lemmas upon_signal_defs = TUponSignalReceiver_set_value_def TUponSignalOpState_SignalCallback_def
  TUponSignalOpState_CloseCallback_def TUponSignalOpState_StopCallback_def
  TUponSignalOpState_wf_def

interpretation upon_signal: phased_op TUponSignalOpState_enabled TUponSignalOpState_step
  StopOp Signal_h trace "\<lambda>op. running (UOp op) (trace op)" TUponSignalOpState_wf signal_start_error
proof
  fix s :: TUponSignalOpState and e p
  assume "in_phase p (running (UOp s) (trace s)) (StopOp s) (Signal_h s) (trace s)"
    "TUponSignalOpState_wf s" "TUponSignalOpState_enabled e s"
  then show "in_phase (spec_step (Token (StopOp s)) (signal_start_error e s) e p)
      (running (UOp (TUponSignalOpState_step e s)) (trace (TUponSignalOpState_step e s)))
      (StopOp (TUponSignalOpState_step e s)) (Signal_h (TUponSignalOpState_step e s))
      (trace (TUponSignalOpState_step e s)) \<and> TUponSignalOpState_wf (TUponSignalOpState_step e s)"
    by (cases e; cases p) (simp_all add: handler_defs upon_signal_defs)
next
  fix s :: TUponSignalOpState and e
  show "Token (StopOp (TUponSignalOpState_step e s)) \<longleftrightarrow> Token (StopOp s) \<or> e = RequestStop"
    by (cases e) (simp_all add: handler_defs upon_signal_defs)
  show "Signal_h (TUponSignalOpState_step e s) = Signal_h s"
    by (cases e) (simp_all add: handler_defs upon_signal_defs)
  show "signal_start_error (Begin env now) (TUponSignalOpState_step RequestStop s) =
      signal_start_error (Begin env now) s" for env now
    by (simp add: handler_defs)
qed simp_all

section \<open>Properties\<close>

abbreviation upon_signal_schedule_init ::
    "ptr \<Rightarrow> ptr \<Rightarrow> ptr \<Rightarrow> ptr \<Rightarrow> bool \<Rightarrow> int \<Rightarrow> TUponSignalScheduleOpState" where
  "upon_signal_schedule_init self stop_op handle loop token signum \<equiv>
     TUponSignalScheduleOpState_start
       (TUponSignalScheduleOpState_new self stop_op handle loop token signum)"

abbreviation upon_signal_init ::
    "ptr \<Rightarrow> ptr \<Rightarrow> ptr \<Rightarrow> ptr \<Rightarrow> bool \<Rightarrow> int \<Rightarrow> TUponSignalOpState" where
  "upon_signal_init child stop_op handle loop token signum \<equiv>
     TUponSignalOpState_start (TUponSignalOpState_new child stop_op handle loop token signum)"

lemmas signal_new_defs = TUponSignalScheduleOpState_start_def TUponSignalScheduleOpState_new_def
  TUponSignalOpState_start_def TUponSignalOpState_new_def TStopOperation_new_def

lemma upon_signal_schedule_init_Ready:
  "in_phase Ready (queued (USelf s) (trace s)) (StopOp s) (Signal_h s) (trace s)"
  if "self \<noteq> stop_op" "s = upon_signal_schedule_init self stop_op handle loop token signum"
  using that
  by (simp add: signal_new_defs handler_defs queued_def active_def closing_def inited_def)

lemma upon_signal_init_Ready:
  "in_phase Ready (running (UOp s) (trace s)) (StopOp s) (Signal_h s) (trace s) \<and>
   TUponSignalOpState_wf s"
  if "s = upon_signal_init child stop_op handle loop token signum"
  by (simp add: that signal_new_defs handler_defs queued_def active_def closing_def inited_def
      running_def TUponSignalOpState_wf_def)

text \<open>
  an operation of \<open>schedule_upon_signal\<close>, in every run in which \<open>uv_signal_init\<close> succeeds: at
  most one completion, which is the one owed (the error of \<open>uv_signal_start_oneshot\<close>, else a value
  exactly when the signal comes before stop is requested, else stopped), and the signal handle is
  closed exactly once before a value or stopped is sent.
\<close>

theorem upon_signal_schedule_outcome:
  assumes "self \<noteq> stop_op"
    and "op = upon_signal_schedule_init self stop_op handle loop token signum"
    and "admissible TUponSignalScheduleOpState_enabled TUponSignalScheduleOpState_step op es"
  shows "oneshot_outcome handle (\<lambda>env now. signal_start_error (Begin env now) op) token es
    (trace (fold TUponSignalScheduleOpState_step es op))"
proof -
  have "USelf op \<noteq> SelfOp (StopOp op)" "Signal_h op = handle" "Token (StopOp op) = token"
    using assms(1,2) by (simp_all add: signal_new_defs handler_defs)
  then show ?thesis
    using upon_signal_schedule.run_outcome
      [OF upon_signal_schedule_init_Ready [OF assms(1,2)] _ assms(3)] by simp
qed

theorem upon_signal_schedule_outcome_witness:
  "oneshot_outcome 2
    (\<lambda>env now. signal_start_error (Begin env now) (upon_signal_schedule_init 0 1 2 3 False 15)) False
    [Begin (\<lambda>_. 0) 0, RequestStop, Fired, RunStop (\<lambda>_. 0), HandleClosed]
    (trace (fold TUponSignalScheduleOpState_step
       [Begin (\<lambda>_. 0) 0, RequestStop, Fired, RunStop (\<lambda>_. 0), HandleClosed]
       (upon_signal_schedule_init 0 1 2 3 False 15)))"
  by (rule upon_signal_schedule_outcome [of 0 1]; code_simp)

text \<open>
  the same for \<open>upon_signal\<close> on a sender, from the child's completion with a value.
\<close>

theorem upon_signal_outcome:
  assumes "op = upon_signal_init child stop_op handle loop token signum"
    and "admissible TUponSignalOpState_enabled TUponSignalOpState_step op es"
  shows "oneshot_outcome handle (\<lambda>env now. signal_start_error (Begin env now) op) token es
    (trace (fold TUponSignalOpState_step es op))"
proof -
  have "Signal_h op = handle" "Token (StopOp op) = token"
    using assms(1) by (simp_all add: signal_new_defs handler_defs)
  then show ?thesis
    using upon_signal.run_outcome [OF upon_signal_init_Ready [OF assms(1), THEN conjunct1]
        upon_signal_init_Ready [OF assms(1), THEN conjunct2] assms(2)] by simp
qed

theorem upon_signal_outcome_witness:
  "oneshot_outcome 2 (\<lambda>env now. signal_start_error (Begin env now) (upon_signal_init 0 1 2 3 False 15))
    False [Begin (\<lambda>_. 0) 0, Fired, HandleClosed]
    (trace (fold TUponSignalOpState_step [Begin (\<lambda>_. 0) 0, Fired, HandleClosed]
       (upon_signal_init 0 1 2 3 False 15)))"
  by (rule upon_signal_outcome [of _ 0 1]; code_simp)

text \<open>The branch of \<open>Apply\<close> and of \<open>set_value\<close> in which \<open>uv_signal_init\<close> fails.\<close>

lemma upon_signal_schedule_init_fails:
  assumes "in_phase p (queued (USelf s) (trace s)) (StopOp s) (Signal_h s) (trace s)" "queued (USelf s) (trace s)"
    and "IsError (env (uv_signal_init (Loop s) (Signal_h s)))"
  shows "failed_init (Signal_h s) (EErrc (env (uv_signal_init (Loop s) (Signal_h s)))) (signal_start_error (Begin env now) s)
    (trace (TUponSignalScheduleOpState_step (Begin env now) s))"
  using assms by (cases p) (simp_all add: failed_init_def handler_defs upon_signal_schedule_defs)

lemma upon_signal_init_fails:
  assumes "in_phase p (running (UOp s) (trace s)) (StopOp s) (Signal_h s) (trace s)" "running (UOp s) (trace s)"
    and "IsError (env (uv_signal_init (Loop s) (Signal_h s)))"
  shows "failed_init (Signal_h s) (EErrc (env (uv_signal_init (Loop s) (Signal_h s)))) (signal_start_error (Begin env now) s)
    (trace (TUponSignalOpState_step (Begin env now) s))"
  using assms by (cases p) (simp_all add: failed_init_def handler_defs upon_signal_defs)

text \<open>
  when \<open>uv_signal_init\<close> fails, \<open>Apply\<close> reports the error and goes on: it starts the handle that
  was not initialised, and then either reports a second error, or registers the
  stop callback and leaves the started watcher to complete the receiver again.
\<close>

theorem upon_signal_init_failure_continues:
  assumes "IsError (env (uv_signal_init (Loop op) (Signal_h op)))"
  shows "\<exists>st. completions (trace (TUponSignalScheduleOpState_Apply env op)) =
      completions (trace op) @ SetError (EErrc (env (uv_signal_init (Loop op) (Signal_h op)))) #
        (if IsError st then [SetError (EErrc st)] else []) \<and>
    st = env (uv_signal_start_oneshot (Signal_h op) SignalCallback (Signum op)) \<and>
    UvCall (uv_signal_start_oneshot (Signal_h op) SignalCallback (Signum op)) st
      \<in> set (trace (TUponSignalScheduleOpState_Apply env op)) \<and>
    (\<not> IsError st \<longrightarrow>
      StopCallback (StopOp (TUponSignalScheduleOpState_Apply env op)) \<and>
      active (Signal_h op) (trace (TUponSignalScheduleOpState_Apply env op)))"
  using assms by (simp add: handler_defs upon_signal_schedule_defs)

theorem upon_signal_init_failure_continues_witness:
  "\<exists>st. completions (trace (TUponSignalScheduleOpState_Apply (\<lambda>_. -1)
      (upon_signal_schedule_init 0 1 2 3 False 15))) =
      [SetError (EErrc (-1)), SetError (EErrc (-1))] \<and> st = (-1 :: int)"
proof -
  have "IsError ((\<lambda>_. -1) (uv_signal_init 3 2))" by (simp add: IsError_def)
  then show ?thesis
    using upon_signal_init_failure_continues
      [of "\<lambda>_. -1" "upon_signal_schedule_init 0 1 2 3 False 15"]
    by (simp add: signal_new_defs handler_defs)
qed

end
