(* ===== verification/Stream_Op.thy ===== *)
theory Stream_Op
  imports Stop_Operation
begin

text \<open>
  The contract of an operation that reads from a socket until it has what it wants: it is begun
  with a buffer by its child sender, libuv then delivers data as long as reading is on, each
  delivery either goes on or completes the operation (\<open>decide\<close>), and a stop request cancels it. The
  socket belongs to somebody else: it is left open and with reading off. The locale
  \<open>stream_op\<close> is interpreted in Read_Ops and Receive_Ops on the four operation states of the code.
\<close>

text \<open>The fields that reading operations share. \<open>ChildOp\<close> is the operation state of the child sender,
  which brings the buffer; \<open>HasReceiver\<close>: the optional holds the receiver.\<close>

record TSocketOp = cop +
  ChildOp :: ptr
  Socket :: ptr
  HasReceiver :: bool

text \<open>Completing \<open>*std::move(self->Receiver)\<close>.\<close>

definition complete_optional :: "completion \<Rightarrow> 'a TSocketOp_scheme \<Rightarrow> 'a TSocketOp_scheme" where
  "complete_optional c op =
     (if HasReceiver op then emit (Signal c) op else emit (Undefined ''empty optional'') op)"

text \<open>\<open>static_cast<TUvError>\<close> of a \<open>std::ptrdiff_t\<close>: the low 32 bits, signed.\<close>

definition to_int32 :: "int \<Rightarrow> TUvError" where
  "to_int32 n = signed_take_bit 31 n"

declare complete_optional_def [handler_defs]

datatype ('b, 'd) sevent =
    SBegin uvenv 'b | SData uvenv 'd | SRequestStop | SRunStop uvenv

datatype 'a sphase = SReady 'a | SArmed 'a | SStopping | SDone completion

fun sspec_step ::
    "('a \<Rightarrow> 'd \<Rightarrow> 'a + completion) \<Rightarrow> bool \<Rightarrow> EErrc option \<Rightarrow> ('b, 'd) sevent \<Rightarrow> 'a sphase \<Rightarrow>
     'a sphase" where
  "sspec_step decide tok res (SBegin env b) (SReady a) =
     (case res of Some e \<Rightarrow> SDone (SetError e) | None \<Rightarrow> if tok then SStopping else SArmed a)"
| "sspec_step decide tok res (SData env d) (SArmed a) =
     (case decide a d of Inl a' \<Rightarrow> SArmed a' | Inr c \<Rightarrow> SDone c)"
| "sspec_step decide tok res SRequestStop (SArmed a) = SStopping"
| "sspec_step decide tok res (SRunStop env) SStopping = SDone SetStopped"
| "sspec_step decide tok res e p = p"

text \<open>The completion owed for the data delivered: the first decisive delivery before a stop
  request.\<close>

fun stream_data ::
    "('a \<Rightarrow> 'd \<Rightarrow> 'a + completion) \<Rightarrow> 'a \<Rightarrow> ('b, 'd) sevent list \<Rightarrow> completion option" where
  "stream_data decide a [] = None"
| "stream_data decide a (SData env d # es) =
     (case decide a d of Inl a' \<Rightarrow> stream_data decide a' es | Inr c \<Rightarrow> Some c)"
| "stream_data decide a (SRequestStop # es) = Some SetStopped"
| "stream_data decide a (e # es) = stream_data decide a es"

fun stream_verdict ::
    "('a \<Rightarrow> 'd \<Rightarrow> 'a + completion) \<Rightarrow> (uvenv \<Rightarrow> EErrc option) \<Rightarrow> bool \<Rightarrow> 'a \<Rightarrow>
     ('b, 'd) sevent list \<Rightarrow> completion option" where
  "stream_verdict decide err tok a [] = None"
| "stream_verdict decide err tok a (SBegin env b # es) =
     (case err env of
        Some e \<Rightarrow> Some (SetError e)
      | None \<Rightarrow> if tok then Some SetStopped else stream_data decide a es)"
| "stream_verdict decide err tok a (SRequestStop # es) = stream_verdict decide err True a es"
| "stream_verdict decide err tok a (e # es) = stream_verdict decide err tok a es"

text \<open>
  What the client sees: at most one completion, the one owed; after it the socket is not being read;
  the socket is never closed, and no undefined behaviour. A completion that is owed and not a
  stop has been sent (a stop takes until the loop applies the stop operation).
\<close>

definition stream_outcome ::
    "('a \<Rightarrow> 'd \<Rightarrow> 'a + completion) \<Rightarrow> ptr \<Rightarrow> (uvenv \<Rightarrow> EErrc option) \<Rightarrow> bool \<Rightarrow> 'a \<Rightarrow>
     ('b, 'd) sevent list \<Rightarrow> effect list \<Rightarrow> bool" where
  "stream_outcome decide h err tok a es tr \<longleftrightarrow>
     length (completions tr) \<le> 1 \<and> closes h tr = 0 \<and> \<not> undefined_in tr \<and>
     (\<forall>c \<in> set (completions tr). stream_verdict decide err tok a es = Some c \<and> \<not> active h tr) \<and>
     (\<forall>c. stream_verdict decide err tok a es = Some c \<and> c \<noteq> SetStopped \<longrightarrow> completions tr = [c])"

text \<open>What holds in each phase.\<close>

fun in_sphase ::
    "'a sphase \<Rightarrow> 'a \<Rightarrow> bool \<Rightarrow> TStopOperation \<Rightarrow> ptr \<Rightarrow> effect list \<Rightarrow> bool" where
  "in_sphase (SReady a) acc pend so h tr \<longleftrightarrow>
     acc = a \<and> pend \<and> \<not> Used so \<and> \<not> StopCallback so \<and> \<not> queued (SelfOp so) tr \<and>
     \<not> active h tr \<and> closes h tr = 0 \<and> completions tr = [] \<and> \<not> undefined_in tr"
| "in_sphase (SArmed a) acc pend so h tr \<longleftrightarrow>
     acc = a \<and> \<not> pend \<and> \<not> Used so \<and> StopCallback so \<and> \<not> Token so \<and>
     \<not> queued (SelfOp so) tr \<and>
     active h tr \<and> closes h tr = 0 \<and> completions tr = [] \<and> \<not> undefined_in tr"
| "in_sphase SStopping acc pend so h tr \<longleftrightarrow>
     \<not> pend \<and> Used so \<and> StopCallback so \<and> Token so \<and> queued (SelfOp so) tr \<and>
     active h tr \<and> closes h tr = 0 \<and> completions tr = [] \<and> \<not> undefined_in tr"
| "in_sphase (SDone c) acc pend so h tr \<longleftrightarrow>
     \<not> pend \<and> \<not> StopCallback so \<and> \<not> queued (SelfOp so) tr \<and>
     \<not> active h tr \<and> closes h tr = 0 \<and> completions tr = [c] \<and> \<not> undefined_in tr"

locale stream_op =
  fixes enabled :: "('b, 'd) sevent \<Rightarrow> 's \<Rightarrow> bool"
    and step :: "('b, 'd) sevent \<Rightarrow> 's \<Rightarrow> 's"
    and so :: "'s \<Rightarrow> TStopOperation"
    and h :: "'s \<Rightarrow> ptr"
    and tr :: "'s \<Rightarrow> effect list"
    and pend :: "'s \<Rightarrow> bool"
    and wf :: "'s \<Rightarrow> bool"
    and acc :: "'s \<Rightarrow> 'a"
    and res :: "('b, 'd) sevent \<Rightarrow> 's \<Rightarrow> EErrc option"
    and decide :: "'a \<Rightarrow> 'd \<Rightarrow> 'a + completion"
  assumes sphase_step:
      "in_sphase p (acc s) (pend s) (so s) (h s) (tr s) \<Longrightarrow> wf s \<Longrightarrow> enabled e s \<Longrightarrow>
       in_sphase (sspec_step decide (Token (so s)) (res e s) e p)
         (acc (step e s)) (pend (step e s)) (so (step e s)) (h (step e s)) (tr (step e s)) \<and>
       wf (step e s)"
    and Token_step: "Token (so (step e s)) \<longleftrightarrow> Token (so s) \<or> e = SRequestStop"
    and h_step: "h (step e s) = h s"
    and res_step: "res (SBegin env b) (step SRequestStop s) = res (SBegin env b) s"
    and res_buffer: "res (SBegin env b) s = res (SBegin env b') s"
    and enabled_SBegin: "enabled (SBegin env b) s \<Longrightarrow> pend s"
    and enabled_SData: "enabled (SData env d) s \<Longrightarrow> active (h s) (tr s)"
    and enabled_SRunStop: "enabled (SRunStop env) s \<longleftrightarrow> queued (SelfOp (so s)) (tr s)"
begin

lemma h_run: "h (fold step es s) = h s"
  by (induction es arbitrary: s) (simp_all add: h_step)

text \<open>A run ends in a phase that agrees with the completion owed from where it started.\<close>

lemma run_done:
  assumes "in_sphase (SDone c) (acc s) (pend s) (so s) (h s) (tr s)" "wf s"
    and "admissible enabled step s es"
  shows "in_sphase (SDone c) (acc (fold step es s)) (pend (fold step es s)) (so (fold step es s))
    (h s) (tr (fold step es s))"
  using assms
proof (induction es arbitrary: s)
  case (Cons e es)
  have "in_sphase (SDone c) (acc (step e s)) (pend (step e s)) (so (step e s)) (h (step e s))
      (tr (step e s)) \<and> wf (step e s)"
    using sphase_step [OF Cons.prems(1,2), of e] Cons.prems(3) by simp
  with Cons.IH [of "step e s"] Cons.prems(3) show ?case by (simp add: h_step)
qed simp

lemma run_stopping:
  assumes "in_sphase SStopping (acc s) (pend s) (so s) (h s) (tr s)" "wf s"
    and "admissible enabled step s es"
  shows "\<exists>p \<in> {SStopping, SDone SetStopped}.
    in_sphase p (acc (fold step es s)) (pend (fold step es s)) (so (fold step es s))
      (h s) (tr (fold step es s))"
  using assms
proof (induction es arbitrary: s)
  case (Cons e es)
  let ?p = "sspec_step decide (Token (so s)) (res e s) e (SStopping :: 'a sphase)"
  have st: "in_sphase ?p (acc (step e s)) (pend (step e s)) (so (step e s)) (h (step e s))
      (tr (step e s))" "wf (step e s)"
    using sphase_step [OF Cons.prems(1,2), of e] Cons.prems(3) by auto
  have adm: "admissible enabled step (step e s) es" using Cons.prems(3) by simp
  show ?case
  proof (cases "?p = SStopping")
    case True
    then show ?thesis using Cons.IH [of "step e s"] st adm by (simp add: h_step)
  next
    case False
    then have "?p = SDone SetStopped" by (cases e) simp_all
    then show ?thesis using run_done [of SetStopped "step e s" es] st adm by (simp add: h_step)
  qed
qed simp

lemma run_armed:
  assumes "in_sphase (SArmed a) (acc s) (pend s) (so s) (h s) (tr s)" "wf s"
    and "admissible enabled step s es"
  shows "\<exists>p. in_sphase p (acc (fold step es s)) (pend (fold step es s)) (so (fold step es s))
      (h s) (tr (fold step es s)) \<and>
    (\<forall>c. p = SDone c \<longrightarrow> stream_data decide a es = Some c) \<and>
    (\<forall>c. stream_data decide a es = Some c \<and> c \<noteq> SetStopped \<longrightarrow> p = SDone c)"
  using assms
proof (induction es arbitrary: s a)
  case Nil
  then show ?case by (intro exI [of _ "SArmed a"]) simp
next
  case (Cons e es)
  let ?p = "sspec_step decide (Token (so s)) (res e s) e (SArmed a)"
  have st: "in_sphase ?p (acc (step e s)) (pend (step e s)) (so (step e s)) (h (step e s))
      (tr (step e s))" "wf (step e s)"
    using sphase_step [OF Cons.prems(1,2), of e] Cons.prems(3) by auto
  have adm: "admissible enabled step (step e s) es" and en: "enabled e s"
    using Cons.prems(3) by simp_all
  show ?case
  proof (cases e)
    case (SBegin env b)
    then show ?thesis using enabled_SBegin [of env b s] en Cons.prems(1) by simp
  next
    case (SData env d)
    show ?thesis
    proof (cases "decide a d")
      case (Inl a')
      then show ?thesis using Cons.IH [of a' "step e s"] st adm SData by (simp add: h_step)
    next
      case (Inr c)
      then have "in_sphase (SDone c) (acc (step e s)) (pend (step e s)) (so (step e s))
          (h (step e s)) (tr (step e s))"
        using st(1) SData by simp
      from run_done [OF this st(2) adm] show ?thesis
        using SData Inr by (intro exI [of _ "SDone c"]) (simp add: h_step)
    qed
  next
    case SRequestStop
    then have "in_sphase SStopping (acc (step e s)) (pend (step e s)) (so (step e s))
        (h (step e s)) (tr (step e s))"
      using st(1) by simp
    from run_stopping [OF this st(2) adm] obtain p where "p \<in> {SStopping, SDone SetStopped}"
      "in_sphase p (acc (fold step es (step e s))) (pend (fold step es (step e s)))
        (so (fold step es (step e s))) (h (step e s)) (tr (fold step es (step e s)))" by blast
    then show ?thesis
      using SRequestStop by (intro exI [of _ p]) (auto simp: h_step simp del: in_sphase.simps)
  next
    case (SRunStop env)
    then show ?thesis using enabled_SRunStop [of env s] en Cons.prems(1) by simp
  qed
qed

lemma run_ready:
  assumes "in_sphase (SReady a) (acc s) (pend s) (so s) (h s) (tr s)" "wf s"
    and "admissible enabled step s es"
  shows "\<exists>p. in_sphase p (acc (fold step es s)) (pend (fold step es s)) (so (fold step es s))
      (h s) (tr (fold step es s)) \<and>
    (\<forall>c. p = SDone c \<longrightarrow>
       stream_verdict decide (\<lambda>env. res (SBegin env b) s) (Token (so s)) a es = Some c) \<and>
    (\<forall>c. stream_verdict decide (\<lambda>env. res (SBegin env b) s) (Token (so s)) a es = Some c \<and>
       c \<noteq> SetStopped \<longrightarrow> p = SDone c)"
  using assms
proof (induction es arbitrary: s)
  case Nil
  then show ?case by (intro exI [of _ "SReady a"]) simp
next
  case (Cons e es)
  let ?p = "sspec_step decide (Token (so s)) (res e s) e (SReady a)"
  have st: "in_sphase ?p (acc (step e s)) (pend (step e s)) (so (step e s)) (h (step e s))
      (tr (step e s))" "wf (step e s)"
    using sphase_step [OF Cons.prems(1,2), of e] Cons.prems(3) by auto
  have adm: "admissible enabled step (step e s) es" and en: "enabled e s"
    using Cons.prems(3) by simp_all
  show ?case
  proof (cases e)
    case (SBegin env b')
    have r: "res e s = res (SBegin env b) s" using SBegin res_buffer by blast
    consider x where "res e s = Some x" | "res e s = None" "Token (so s)"
      | "res e s = None" "\<not> Token (so s)" by (cases "res e s") auto
    then show ?thesis
    proof cases
      case 1
      then have "in_sphase (SDone (SetError x)) (acc (step e s)) (pend (step e s)) (so (step e s))
          (h (step e s)) (tr (step e s))"
        using st(1) SBegin by simp
      moreover have "res (SBegin env b) s = Some x" using 1 r by simp
      ultimately show ?thesis
        using run_done [of "SetError x" "step e s" es] st(2) adm SBegin
        by (intro exI [of _ "SDone (SetError x)"]) (simp add: h_step del: in_sphase.simps)
    next
      case 2
      then have "in_sphase SStopping (acc (step e s)) (pend (step e s)) (so (step e s))
          (h (step e s)) (tr (step e s))"
        using st(1) SBegin by simp
      from run_stopping [OF this st(2) adm] obtain p where "p \<in> {SStopping, SDone SetStopped}"
        "in_sphase p (acc (fold step es (step e s))) (pend (fold step es (step e s)))
          (so (fold step es (step e s))) (h (step e s)) (tr (fold step es (step e s)))" by blast
      moreover have "res (SBegin env b) s = None" using 2 r by simp
      ultimately show ?thesis
        using 2 SBegin by (intro exI [of _ p]) (auto simp: h_step simp del: in_sphase.simps)
    next
      case 3
      then have "in_sphase (SArmed a) (acc (step e s)) (pend (step e s)) (so (step e s))
          (h (step e s)) (tr (step e s))"
        using st(1) SBegin by simp
      moreover have "res (SBegin env b) s = None" using 3 r by simp
      ultimately show ?thesis
        using run_armed [of a "step e s" es] st(2) adm 3 SBegin
        by (simp add: h_step del: in_sphase.simps)
    qed
  next
    case (SData env d)
    then show ?thesis using enabled_SData [of env d s] en Cons.prems(1) by simp
  next
    case SRequestStop
    then have 1: "in_sphase (SReady a) (acc (step e s)) (pend (step e s)) (so (step e s))
        (h (step e s)) (tr (step e s))"
      using st(1) by simp
    have "Token (so (step e s))" using Token_step SRequestStop by simp
    then show ?thesis using Cons.IH [OF 1 st(2) adm] SRequestStop by (simp add: h_step res_step)
  next
    case (SRunStop env)
    then show ?thesis using enabled_SRunStop [of env s] en Cons.prems(1) by simp
  qed
qed

lemma run_outcome:
  assumes "in_sphase (SReady a) (acc s) (pend s) (so s) (h s) (tr s)" "wf s"
    and "admissible enabled step s es"
  shows "stream_outcome decide (h s) (\<lambda>env. res (SBegin env b) s) (Token (so s)) a es
    (tr (fold step es s))"
proof -
  obtain p where p: "in_sphase p (acc (fold step es s)) (pend (fold step es s))
      (so (fold step es s)) (h s) (tr (fold step es s))"
    "\<forall>c. p = SDone c \<longrightarrow>
       stream_verdict decide (\<lambda>env. res (SBegin env b) s) (Token (so s)) a es = Some c"
    "\<forall>c. stream_verdict decide (\<lambda>env. res (SBegin env b) s) (Token (so s)) a es = Some c \<and>
       c \<noteq> SetStopped \<longrightarrow> p = SDone c"
    using run_ready [OF assms] by blast
  then have "completions (tr (fold step es s)) = (case p of SDone c \<Rightarrow> [c] | _ \<Rightarrow> [])"
    by (cases p) simp_all
  with p show ?thesis by (cases p) (auto simp: stream_outcome_def)
qed

end

end
