(* ===== verification/Read_Ops.thy ===== *)
theory Read_Ops
  imports Stream_Op
begin

text \<open>
  \<open>TReadSomeOpState\<close> (include/uvexec/algorithms/read_some_op_state.hpp) and \<open>TReadUntilOpState\<close>
  (include/uvexec/algorithms/read_until_op_state.hpp): reading from a TCP stream once, and until
  a condition of the user is satisfied. \<open>nrd\<close> is what libuv passes to the read callback: the
  number of bytes, 0 for nothing, or a negative error, \<open>UV_EOF\<close> among them.
\<close>

section \<open>\<open>TReadSomeOpState\<close>\<close>

record TReadSomeOpState = TSocketOp +
  Buf :: uv_buf_t

definition TReadSomeOpState_new :: "ptr \<Rightarrow> ptr \<Rightarrow> ptr \<Rightarrow> ptr \<Rightarrow> bool \<Rightarrow> TReadSomeOpState" where
  "TReadSomeOpState_new child stop_op stream loop token =
     \<lparr>trace = [], StopOp = TStopOperation_new token stop_op, Loop = loop, ChildOp = child,
      Socket = stream, HasReceiver = False, Buf = \<lparr>base = 0, len = 0\<rparr>\<rparr>"

definition TReadSomeOpState_start :: "TReadSomeOpState \<Rightarrow> TReadSomeOpState" where
  "TReadSomeOpState_start op = emit (Started (ChildOp op)) op"

definition TReadSomeReceiver_StartRead :: "uvenv \<Rightarrow> TReadSomeOpState \<Rightarrow> TReadSomeOpState" where
  "TReadSomeReceiver_StartRead env op =
     (let (err, op) = ReadStart env (Socket op) ReadCallback op
      in if IsError err then set_error (EErrc err) op else Setup (op\<lparr>HasReceiver := True\<rparr>))"

definition TReadSomeReceiver_set_value ::
    "uvenv \<Rightarrow> uv_buf_t \<Rightarrow> TReadSomeOpState \<Rightarrow> TReadSomeOpState" where
  "TReadSomeReceiver_set_value env buff op = TReadSomeReceiver_StartRead env (op\<lparr>Buf := buff\<rparr>)"

definition TReadSomeOpState_ReadCallback ::
    "platform \<Rightarrow> uvenv \<Rightarrow> int \<Rightarrow> TReadSomeOpState \<Rightarrow> TReadSomeOpState" where
  "TReadSomeOpState_ReadCallback P env nrd op =
     (if nrd = 0 then op
      else let (used, op) = Reset op
           in if \<not> used then
                let (_, op) = ReadStop env (Socket op) op
                in if nrd < 0 then
                     (if nrd = UV_EOF P then complete_optional (SetValue [0]) op
                      else complete_optional (SetError (EErrc (to_int32 nrd))) op)
                   else complete_optional (SetValue [of_int nrd]) op
              else op)"

definition TReadSomeOpState_AllocateBuf :: "TReadSomeOpState \<Rightarrow> uv_buf_t" where
  "TReadSomeOpState_AllocateBuf op = Buf op"

definition TReadSomeOpState_StopCallback :: "uvenv \<Rightarrow> TReadSomeOpState \<Rightarrow> TReadSomeOpState" where
  "TReadSomeOpState_StopCallback env op =
     (let (_, op) = ResetUnsafe op;
          (_, op) = ReadStop env (Socket op) op
      in complete_optional SetStopped op)"

fun TReadSomeOpState_step ::
    "platform \<Rightarrow> (uv_buf_t, int) sevent \<Rightarrow> TReadSomeOpState \<Rightarrow> TReadSomeOpState" where
  "TReadSomeOpState_step P (SBegin env buff) op =
     TReadSomeReceiver_set_value env buff (emit (ChildDone (ChildOp op)) op)"
| "TReadSomeOpState_step P (SData env nrd) op =
     TReadSomeOpState_ReadCallback P env nrd (emit (Callback ReadCallback (Socket op)) op)"
| "TReadSomeOpState_step P SRequestStop op = request_stop op"
| "TReadSomeOpState_step P (SRunStop env) op =
     TReadSomeOpState_StopCallback env (emit (Applied (SelfOp (StopOp op))) op)"

text \<open>libuv calls the read callback only between a successful \<open>uv_read_start\<close> and
  \<open>uv_read_stop\<close>; the child sender completes with a value at most once, after its start.\<close>

fun TReadSomeOpState_enabled :: "(uv_buf_t, int) sevent \<Rightarrow> TReadSomeOpState \<Rightarrow> bool" where
  "TReadSomeOpState_enabled (SBegin env buff) op \<longleftrightarrow> running (ChildOp op) (trace op)"
| "TReadSomeOpState_enabled (SData env nrd) op \<longleftrightarrow> active (Socket op) (trace op)"
| "TReadSomeOpState_enabled SRequestStop op \<longleftrightarrow> \<not> Token (StopOp op)"
| "TReadSomeOpState_enabled (SRunStop env) op \<longleftrightarrow> queued (SelfOp (StopOp op)) (trace op)"

text \<open>The contract: the first delivery that is not empty decides.\<close>

definition decide_read_some :: "platform \<Rightarrow> unit \<Rightarrow> int \<Rightarrow> unit + completion" where
  "decide_read_some P a nrd =
     (if nrd = 0 then Inl ()
      else Inr (if nrd = UV_EOF P \<and> nrd < 0 then SetValue [0]
                else if nrd < 0 then SetError (EErrc (to_int32 nrd))
                else SetValue [of_int nrd]))"

fun read_start_error :: "('b, 'd) sevent \<Rightarrow> 'a TSocketOp_scheme \<Rightarrow> EErrc option" where
  "read_start_error (SBegin env b) op =
     (let err = env (uv_read_start (Socket op) ReadCallback)
      in if IsError err then Some (EErrc err) else None)"
| "read_start_error e op = None"

definition socket_op_wf :: "'a TSocketOp_scheme \<Rightarrow> bool" where
  "socket_op_wf op \<longleftrightarrow>
     running (ChildOp op) (trace op) \<or> completions (trace op) \<noteq> [] \<or> HasReceiver op"

lemmas read_some_defs = TReadSomeReceiver_set_value_def TReadSomeReceiver_StartRead_def
  TReadSomeOpState_ReadCallback_def TReadSomeOpState_StopCallback_def socket_op_wf_def

interpretation read_some: stream_op TReadSomeOpState_enabled "TReadSomeOpState_step P"
  StopOp Socket trace "\<lambda>op. running (ChildOp op) (trace op)" socket_op_wf "\<lambda>_. ()"
  read_start_error "decide_read_some P"
  for P
proof
  fix s :: TReadSomeOpState and e p
  assume "in_sphase p () (running (ChildOp s) (trace s)) (StopOp s) (Socket s) (trace s)"
    "socket_op_wf s" "TReadSomeOpState_enabled e s"
  then show "in_sphase (sspec_step (decide_read_some P) (Token (StopOp s)) (read_start_error e s) e p)
      () (running (ChildOp (TReadSomeOpState_step P e s)) (trace (TReadSomeOpState_step P e s)))
      (StopOp (TReadSomeOpState_step P e s)) (Socket (TReadSomeOpState_step P e s))
      (trace (TReadSomeOpState_step P e s)) \<and> socket_op_wf (TReadSomeOpState_step P e s)"
    by (cases e; cases p) (simp_all add: handler_defs read_some_defs decide_read_some_def)
next
  fix s :: TReadSomeOpState and e
  show "Token (StopOp (TReadSomeOpState_step P e s)) \<longleftrightarrow> Token (StopOp s) \<or> e = SRequestStop"
    by (cases e) (simp_all add: handler_defs read_some_defs)
  show "Socket (TReadSomeOpState_step P e s) = Socket s"
    by (cases e) (simp_all add: handler_defs read_some_defs)
qed (simp_all add: handler_defs)

section \<open>\<open>TReadUntilOpState\<close>\<close>

text \<open>
  The condition is a callable object of the user that may keep state (\<open>'c\<close>), which the operation
  state owns; \<open>BufPtr\<close> is the address of the user's \<open>std::span\<close>, which is read at each allocation,
  so that the condition may move it on.
\<close>

record 'c TReadUntilOpState = TSocketOp +
  Condition :: "'c \<Rightarrow> size_t \<Rightarrow> bool \<times> 'c"
  CondState :: 'c
  BufPtr :: ptr
  ReadTotal :: size_t

definition TReadUntilOpState_new ::
    "ptr \<Rightarrow> ptr \<Rightarrow> ptr \<Rightarrow> ptr \<Rightarrow> bool \<Rightarrow> ('c \<Rightarrow> size_t \<Rightarrow> bool \<times> 'c) \<Rightarrow> 'c \<Rightarrow>
     'c TReadUntilOpState" where
  "TReadUntilOpState_new child stop_op stream loop token condition c =
     \<lparr>trace = [], StopOp = TStopOperation_new token stop_op, Loop = loop, ChildOp = child,
      Socket = stream, HasReceiver = False, Condition = condition, CondState = c, BufPtr = 0,
      ReadTotal = 0\<rparr>"

definition TReadUntilOpState_start :: "'c TReadUntilOpState \<Rightarrow> 'c TReadUntilOpState" where
  "TReadUntilOpState_start op = emit (Started (ChildOp op)) op"

definition TReadUntilReceiver_set_value ::
    "uvenv \<Rightarrow> ptr \<Rightarrow> 'c TReadUntilOpState \<Rightarrow> 'c TReadUntilOpState" where
  "TReadUntilReceiver_set_value env buff op =
     (let op = op\<lparr>BufPtr := buff\<rparr>;
          (err, op) = ReadStart env (Socket op) ReadCallback op
      in if IsError err then set_error (EErrc err) op else Setup (op\<lparr>HasReceiver := True\<rparr>))"

definition TReadUntilOpState_ReadCallback ::
    "platform \<Rightarrow> uvenv \<Rightarrow> int \<Rightarrow> 'c TReadUntilOpState \<Rightarrow> 'c TReadUntilOpState" where
  "TReadUntilOpState_ReadCallback P env nrd op =
     (if \<not> TStopOperation_bool (StopOp op) then op
      else if nrd < 0 then
        let (used, op) = Reset op
        in if \<not> used then
             let (_, op) = ReadStop env (Socket op) op
             in if nrd = UV_EOF P then complete_optional (SetValue [ReadTotal op]) op
                else complete_optional (SetError (EErrc (to_int32 nrd))) op
           else op
      else if nrd > 0 then
        let op = op\<lparr>ReadTotal := ReadTotal op + of_int nrd\<rparr>;
            (satisfied, c) = Condition op (CondState op) (of_int nrd);
            op = op\<lparr>CondState := c\<rparr>
        in if satisfied then
             let (used, op) = Reset op
             in if \<not> used then
                  let (_, op) = ReadStop env (Socket op) op
                  in complete_optional (SetValue [ReadTotal op]) op
                else op
           else op
      else op)"

definition TReadUntilOpState_AllocateBuf ::
    "(ptr \<Rightarrow> uv_buf_t) \<Rightarrow> 'c TReadUntilOpState \<Rightarrow> uv_buf_t" where
  "TReadUntilOpState_AllocateBuf spans op = spans (BufPtr op)"

definition TReadUntilOpState_StopCallback ::
    "uvenv \<Rightarrow> 'c TReadUntilOpState \<Rightarrow> 'c TReadUntilOpState" where
  "TReadUntilOpState_StopCallback env op =
     (let (_, op) = ResetUnsafe op;
          (_, op) = ReadStop env (Socket op) op
      in complete_optional SetStopped op)"

fun TReadUntilOpState_step ::
    "platform \<Rightarrow> (ptr, int) sevent \<Rightarrow> 'c TReadUntilOpState \<Rightarrow> 'c TReadUntilOpState" where
  "TReadUntilOpState_step P (SBegin env buff) op =
     TReadUntilReceiver_set_value env buff (emit (ChildDone (ChildOp op)) op)"
| "TReadUntilOpState_step P (SData env nrd) op =
     TReadUntilOpState_ReadCallback P env nrd (emit (Callback ReadCallback (Socket op)) op)"
| "TReadUntilOpState_step P SRequestStop op = request_stop op"
| "TReadUntilOpState_step P (SRunStop env) op =
     TReadUntilOpState_StopCallback env (emit (Applied (SelfOp (StopOp op))) op)"

fun TReadUntilOpState_enabled :: "(ptr, int) sevent \<Rightarrow> 'c TReadUntilOpState \<Rightarrow> bool" where
  "TReadUntilOpState_enabled (SBegin env buff) op \<longleftrightarrow> running (ChildOp op) (trace op)"
| "TReadUntilOpState_enabled (SData env nrd) op \<longleftrightarrow> active (Socket op) (trace op)"
| "TReadUntilOpState_enabled SRequestStop op \<longleftrightarrow> \<not> Token (StopOp op)"
| "TReadUntilOpState_enabled (SRunStop env) op \<longleftrightarrow> queued (SelfOp (StopOp op)) (trace op)"

text \<open>The contract: add up the deliveries until the condition holds for one of them; an end of file
  gives what has been read, another error is passed on.\<close>

definition decide_read_until ::
    "platform \<Rightarrow> ('c \<Rightarrow> size_t \<Rightarrow> bool \<times> 'c) \<Rightarrow> size_t \<times> 'c \<Rightarrow> int \<Rightarrow>
     size_t \<times> 'c + completion" where
  "decide_read_until P condition a nrd =
     (case a of (rd, c) \<Rightarrow>
        if nrd < 0 then
          Inr (if nrd = UV_EOF P then SetValue [rd] else SetError (EErrc (to_int32 nrd)))
        else if nrd = 0 then Inl (rd, c)
        else case condition c (of_int nrd) of (satisfied, c') \<Rightarrow>
          if satisfied then Inr (SetValue [rd + of_int nrd])
          else Inl (rd + of_int nrd, c'))"

lemmas read_until_defs = TReadUntilReceiver_set_value_def TReadUntilOpState_ReadCallback_def
  TReadUntilOpState_StopCallback_def socket_op_wf_def

interpretation read_until: stream_op TReadUntilOpState_enabled "TReadUntilOpState_step P"
  StopOp Socket trace "\<lambda>op. running (ChildOp op) (trace op)"
  "\<lambda>op. socket_op_wf op \<and> Condition op = condition" "\<lambda>op. (ReadTotal op, CondState op)"
  read_start_error "decide_read_until P condition"
  for P and condition :: "'c \<Rightarrow> size_t \<Rightarrow> bool \<times> 'c"
proof
  fix s :: "'c TReadUntilOpState" and e p
  assume "in_sphase p (ReadTotal s, CondState s) (running (ChildOp s) (trace s)) (StopOp s)
      (Socket s) (trace s)"
    "socket_op_wf s \<and> Condition s = condition" "TReadUntilOpState_enabled e s"
  then show "in_sphase
      (sspec_step (decide_read_until P condition) (Token (StopOp s)) (read_start_error e s) e p)
      (ReadTotal (TReadUntilOpState_step P e s), CondState (TReadUntilOpState_step P e s))
      (running (ChildOp (TReadUntilOpState_step P e s)) (trace (TReadUntilOpState_step P e s)))
      (StopOp (TReadUntilOpState_step P e s)) (Socket (TReadUntilOpState_step P e s))
      (trace (TReadUntilOpState_step P e s)) \<and>
      socket_op_wf (TReadUntilOpState_step P e s) \<and>
      Condition (TReadUntilOpState_step P e s) = condition"
    by (cases e; cases p)
      (auto simp: handler_defs read_until_defs decide_read_until_def split: prod.splits)
next
  fix s :: "'c TReadUntilOpState" and e
  show "Token (StopOp (TReadUntilOpState_step P e s)) \<longleftrightarrow> Token (StopOp s) \<or> e = SRequestStop"
    by (cases e) (simp_all add: handler_defs read_until_defs split: prod.splits)
  show "Socket (TReadUntilOpState_step P e s) = Socket s"
    by (cases e) (simp_all add: handler_defs read_until_defs split: prod.splits)
qed (simp_all add: handler_defs)

section \<open>Properties\<close>

abbreviation read_some_init :: "ptr \<Rightarrow> ptr \<Rightarrow> ptr \<Rightarrow> ptr \<Rightarrow> bool \<Rightarrow> TReadSomeOpState" where
  "read_some_init child stop_op stream loop token \<equiv>
     TReadSomeOpState_start (TReadSomeOpState_new child stop_op stream loop token)"

abbreviation read_until_init ::
    "ptr \<Rightarrow> ptr \<Rightarrow> ptr \<Rightarrow> ptr \<Rightarrow> bool \<Rightarrow> ('c \<Rightarrow> size_t \<Rightarrow> bool \<times> 'c) \<Rightarrow> 'c \<Rightarrow>
     'c TReadUntilOpState" where
  "read_until_init child stop_op stream loop token condition c \<equiv>
     TReadUntilOpState_start (TReadUntilOpState_new child stop_op stream loop token condition c)"

lemmas read_new_defs = TReadSomeOpState_start_def TReadSomeOpState_new_def
  TReadUntilOpState_start_def TReadUntilOpState_new_def TStopOperation_new_def

lemma read_some_init_Ready:
  assumes "op = read_some_init child stop_op stream loop token"
  shows "in_sphase (SReady ()) () (running (ChildOp op) (trace op)) (StopOp op) (Socket op) (trace op)"
    and "socket_op_wf op" "Socket op = stream" "Token (StopOp op) = token"
  by (simp_all add: assms read_new_defs handler_defs queued_def active_def running_def
      socket_op_wf_def)

lemma read_until_init_Ready:
  assumes "op = read_until_init child stop_op stream loop token condition c"
  shows "in_sphase (SReady (0, c)) (ReadTotal op, CondState op) (running (ChildOp op) (trace op))
      (StopOp op) (Socket op) (trace op)"
    and "socket_op_wf op \<and> Condition op = condition" "Socket op = stream"
      "Token (StopOp op) = token"
  by (simp_all add: assms read_new_defs handler_defs queued_def active_def running_def
      socket_op_wf_def)

text \<open>
  C13: \<open>read_some\<close>, in every run: at most one completion, and it is the one owed: the error of
  \<open>uv_read_start\<close>, else what the first non-empty delivery before a stop request says (the byte count, 0
  at the end of the file, the error), else stopped. After it the stream is not read any
  more and it has not been closed.
\<close>

theorem read_some_outcome:
  assumes "op = read_some_init child stop_op stream loop token"
    and "admissible TReadSomeOpState_enabled (TReadSomeOpState_step P) op es"
  shows "stream_outcome (decide_read_some P) stream (\<lambda>env. read_start_error (SBegin env ()) op)
    token () es (trace (fold (TReadSomeOpState_step P) es op))"
proof -
  note r = read_some_init_Ready [OF assms(1)]
  have "(\<lambda>env. read_start_error (SBegin env \<lparr>base = 0, len = 0\<rparr>) op) =
      (\<lambda>env. read_start_error (SBegin env ()) op)" by simp
  then show ?thesis
    using read_some.run_outcome [OF r(1,2) assms(2), of "\<lparr>base = 0, len = 0\<rparr>"] r(3,4) by simp
qed

definition sample_platform :: platform where
  "sample_platform = \<lparr>UV_EINVAL = -22, UV_EOF = -4095, AF_INET = 2, AF_INET6 = 10,
     sizeof_sockaddr_in = 16, sizeof_sockaddr_in6 = 28\<rparr>"

theorem read_some_outcome_witness:
  "stream_outcome (decide_read_some sample_platform) 2
     (\<lambda>env. read_start_error (SBegin env ()) (read_some_init 0 1 2 3 False)) False ()
     [SBegin (\<lambda>_. 0) \<lparr>base = 64, len = 10\<rparr>, SData (\<lambda>_. 0) 0, SData (\<lambda>_. 0) 7]
     (trace (fold (TReadSomeOpState_step sample_platform)
       [SBegin (\<lambda>_. 0) \<lparr>base = 64, len = 10\<rparr>, SData (\<lambda>_. 0) 0, SData (\<lambda>_. 0) 7]
       (read_some_init 0 1 2 3 False)))"
  by (rule read_some_outcome [OF refl]) code_simp

text \<open>
  \<open>read_until\<close>, in every run: the same, with the contract that adds up the deliveries until the
  condition holds for one of them, reports the total, and at the end of the file
  reports what has been read so far.
\<close>

theorem read_until_outcome:
  assumes "op = read_until_init child stop_op stream loop token condition c"
    and "admissible TReadUntilOpState_enabled (TReadUntilOpState_step P) op es"
  shows "stream_outcome (decide_read_until P condition) stream
    (\<lambda>env. read_start_error (SBegin env ()) op) token (0, c) es
    (trace (fold (TReadUntilOpState_step P) es op))"
proof -
  note r = read_until_init_Ready [OF assms(1)]
  have "(\<lambda>env. read_start_error (SBegin env (0::ptr)) op) =
      (\<lambda>env. read_start_error (SBegin env ()) op)" by simp
  then show ?thesis
    using read_until.run_outcome [OF r(1,2) assms(2), of 0] r(3,4) by simp
qed

theorem read_until_outcome_witness:
  "stream_outcome (decide_read_until sample_platform (\<lambda>c n. (n = 3, c + 1))) 2
     (\<lambda>env. read_start_error (SBegin env ())
       (read_until_init 0 1 2 3 False (\<lambda>c n. (n = 3, c + 1)) (0::nat))) False (0, 0::nat)
     [SBegin (\<lambda>_. 0) (64::ptr), SData (\<lambda>_. 0) 7, SData (\<lambda>_. 0) 3]
     (trace (fold (TReadUntilOpState_step sample_platform)
       [SBegin (\<lambda>_. 0) (64::ptr), SData (\<lambda>_. 0) 7, SData (\<lambda>_. 0) 3]
       (read_until_init 0 1 2 3 False (\<lambda>c n. (n = 3, c + 1)) (0::nat))))"
  by (rule read_until_outcome [OF refl]) code_simp

lemma stream_data_read_until:
  assumes "\<forall>n \<in> set ns. 0 < n" "\<forall>c n. n \<in> set ns \<longrightarrow> \<not> fst (condition c (of_int n))"
  shows "\<exists>c'. stream_data (decide_read_until P condition) (rd, c) (map (SData env) ns @ es) =
    stream_data (decide_read_until P condition) (rd + of_int (sum_list ns), c') es"
  using assms
proof (induction ns arbitrary: rd c)
  case Nil
  then show ?case by auto
next
  case (Cons n ns)
  obtain c1 where "condition c (of_int n) = (False, c1)"
    using Cons.prems(2) by (cases "condition c (of_int n)") (metis fst_conv list.set_intros(1))
  then show ?case
    using Cons.IH [of "rd + of_int n" c1] Cons.prems
    by (auto simp: decide_read_until_def add.assoc)
qed

text \<open>
  \<open>read_until\<close> reports the total: when libuv delivers chunks of which the condition rejects all but the last,
  the operation completes at the last one with the sum of their sizes (modulo 2^64); when the
  file ends after chunks that were all rejected, it completes with their sum.
\<close>

theorem read_until_reports_total:
  assumes "op = read_until_init child stop_op stream loop False condition c"
    and "admissible TReadUntilOpState_enabled (TReadUntilOpState_step P) op
      (SBegin env b # map (SData env) (ns @ [m]))"
    and "0 \<le> env (uv_read_start stream ReadCallback)" "UV_EOF P < 0"
    and "\<forall>n \<in> set ns. 0 < n" "\<forall>c n. n \<in> set ns \<longrightarrow> \<not> fst (condition c (of_int n))"
    and "m = UV_EOF P \<or> 0 < m \<and> (\<forall>c. fst (condition c (of_int m)))"
  shows "completions (trace (fold (TReadUntilOpState_step P)
      (SBegin env b # map (SData env) (ns @ [m])) op)) =
    [SetValue [of_int (sum_list (ns @ (if m = UV_EOF P then [] else [m])))]]"
proof -
  note r = read_until_init_Ready [OF assms(1)]
  obtain c1 where 1: "stream_data (decide_read_until P condition) (0, c)
      (map (SData env) ns @ map (SData env) [m] :: (ptr, int) sevent list) =
    stream_data (decide_read_until P condition) (0 + of_int (sum_list ns), c1)
      (map (SData env) [m] :: (ptr, int) sevent list)"
    using stream_data_read_until [OF assms(5,6), of P 0 c env
        "map (SData env) [m] :: (ptr, int) sevent list"] by blast
  have "stream_data (decide_read_until P condition) (0 + of_int (sum_list ns), c1)
      (map (SData env) [m] :: (ptr, int) sevent list) =
    Some (SetValue [of_int (sum_list (ns @ (if m = UV_EOF P then [] else [m])))])"
    using assms(4,7) by (auto simp: decide_read_until_def split: prod.splits) (metis fst_conv)
  then have "stream_verdict (decide_read_until P condition)
      (\<lambda>env. read_start_error (SBegin env b) op) (Token (StopOp op)) (0, c)
      (SBegin env b # map (SData env) (ns @ [m])) =
    Some (SetValue [of_int (sum_list (ns @ (if m = UV_EOF P then [] else [m])))])"
    using 1 r(3,4) assms(3) by (simp add: IsError_def)
  then show ?thesis
    using read_until.run_outcome [OF r(1,2) assms(2), of b] unfolding stream_outcome_def by blast
qed

theorem read_until_reports_total_witness:
  "completions (trace (fold (TReadUntilOpState_step sample_platform)
     (SBegin (\<lambda>_. 0) 64 # map (SData (\<lambda>_. 0)) ([7, 5] @ [3]))
     (read_until_init 0 1 2 3 False (\<lambda>c n. (n = 3, c + 1)) (0::nat)))) = [SetValue [15]]"
proof -
  have "admissible TReadUntilOpState_enabled (TReadUntilOpState_step sample_platform)
      (read_until_init 0 1 2 3 False (\<lambda>c n. (n = 3, c + 1)) (0::nat))
      (SBegin (\<lambda>_. 0) 64 # map (SData (\<lambda>_. 0)) ([7, 5] @ [3]))"
    by code_simp
  from read_until_reports_total [OF refl this] show ?thesis
    by (simp add: sample_platform_def)
qed

end
