(* ===== verification/Receive_Ops.thy ===== *)
theory Receive_Ops
  imports Stream_Op
begin

text \<open>
  \<open>TReceiveOpState\<close> and \<open>TReceiveFromOpState\<close> of include/uvexec/algorithms/receive_op_state.hpp:
  receiving one datagram on a UDP socket, without and with the address of its sender. A
  delivery is the pair of \<open>nrd\<close> and the address libuv passes, which is null when there is nothing to
  receive (\<open>nrd = 0\<close>) or an error.
\<close>

type_synonym datagram = "int \<times> sockaddr option"

section \<open>\<open>TReceiveOpState\<close>\<close>

record TReceiveOpState = TSocketOp +
  Buf :: uv_buf_t

definition TReceiveOpState_new :: "ptr \<Rightarrow> ptr \<Rightarrow> ptr \<Rightarrow> ptr \<Rightarrow> bool \<Rightarrow> TReceiveOpState" where
  "TReceiveOpState_new child stop_op socket loop token =
     \<lparr>trace = [], StopOp = TStopOperation_new token stop_op, Loop = loop, ChildOp = child,
      Socket = socket, HasReceiver = False, Buf = \<lparr>base = 0, len = 0\<rparr>\<rparr>"

definition TReceiveOpState_start :: "TReceiveOpState \<Rightarrow> TReceiveOpState" where
  "TReceiveOpState_start op = emit (Started (ChildOp op)) op"

definition TReceiveReceiver_StartReceive :: "uvenv \<Rightarrow> TReceiveOpState \<Rightarrow> TReceiveOpState" where
  "TReceiveReceiver_StartReceive env op =
     (let (err, op) = ReceiveStart env (Socket op) ReceiveCallback op
      in if IsError err then set_error (EErrc err) op else Setup (op\<lparr>HasReceiver := True\<rparr>))"

definition TReceiveReceiver_set_value ::
    "uvenv \<Rightarrow> uv_buf_t \<Rightarrow> TReceiveOpState \<Rightarrow> TReceiveOpState" where
  "TReceiveReceiver_set_value env buff op = TReceiveReceiver_StartReceive env (op\<lparr>Buf := buff\<rparr>)"

definition TReceiveOpState_ReceiveCallback ::
    "uvenv \<Rightarrow> datagram \<Rightarrow> TReceiveOpState \<Rightarrow> TReceiveOpState" where
  "TReceiveOpState_ReceiveCallback env d op =
     (let (nrd, addr) = d
      in if addr = None \<and> nrd = 0 then op
         else let (used, op) = Reset op
              in if \<not> used then
                   let (_, op) = ReceiveStop env (Socket op) op
                   in if nrd < 0 then complete_optional (SetError (EErrc (to_int32 nrd))) op
                      else complete_optional (SetValue [of_int nrd]) op
                 else op)"

definition TReceiveOpState_AllocateBuf :: "TReceiveOpState \<Rightarrow> uv_buf_t" where
  "TReceiveOpState_AllocateBuf op = Buf op"

definition TReceiveOpState_StopCallback :: "uvenv \<Rightarrow> TReceiveOpState \<Rightarrow> TReceiveOpState" where
  "TReceiveOpState_StopCallback env op =
     (let (_, op) = ResetUnsafe op;
          (_, op) = ReceiveStop env (Socket op) op
      in complete_optional SetStopped op)"

fun TReceiveOpState_step ::
    "(uv_buf_t, datagram) sevent \<Rightarrow> TReceiveOpState \<Rightarrow> TReceiveOpState" where
  "TReceiveOpState_step (SBegin env buff) op =
     TReceiveReceiver_set_value env buff (emit (ChildDone (ChildOp op)) op)"
| "TReceiveOpState_step (SData env d) op =
     TReceiveOpState_ReceiveCallback env d (emit (Callback ReceiveCallback (Socket op)) op)"
| "TReceiveOpState_step SRequestStop op = request_stop op"
| "TReceiveOpState_step (SRunStop env) op =
     TReceiveOpState_StopCallback env (emit (Applied (SelfOp (StopOp op))) op)"

text \<open>libuv calls the callback only while receiving is on, and passes the address of the sender with
  every datagram.\<close>

fun TReceiveOpState_enabled :: "(uv_buf_t, datagram) sevent \<Rightarrow> TReceiveOpState \<Rightarrow> bool" where
  "TReceiveOpState_enabled (SBegin env buff) op \<longleftrightarrow> running (ChildOp op) (trace op)"
| "TReceiveOpState_enabled (SData env d) op \<longleftrightarrow>
     active (Socket op) (trace op) \<and> (0 < fst d \<longrightarrow> snd d \<noteq> None)"
| "TReceiveOpState_enabled SRequestStop op \<longleftrightarrow> \<not> Token (StopOp op)"
| "TReceiveOpState_enabled (SRunStop env) op \<longleftrightarrow> queued (SelfOp (StopOp op)) (trace op)"

text \<open>The contract: the first datagram, which may be empty, or the first error decides.\<close>

fun decide_receive :: "unit \<Rightarrow> datagram \<Rightarrow> unit + completion" where
  "decide_receive a (nrd, addr) =
     (if addr = None \<and> nrd = 0 then Inl ()
      else Inr (if nrd < 0 then SetError (EErrc (to_int32 nrd)) else SetValue [of_int nrd]))"

fun receive_start_error :: "('b, 'd) sevent \<Rightarrow> 'a TSocketOp_scheme \<Rightarrow> EErrc option" where
  "receive_start_error (SBegin env b) op =
     (let err = env (uv_udp_recv_start (Socket op) ReceiveCallback)
      in if IsError err then Some (EErrc err) else None)"
| "receive_start_error e op = None"

definition receive_op_wf :: "'a TSocketOp_scheme \<Rightarrow> bool" where
  "receive_op_wf op \<longleftrightarrow>
     running (ChildOp op) (trace op) \<or> completions (trace op) \<noteq> [] \<or> HasReceiver op"

lemmas receive_defs = TReceiveReceiver_set_value_def TReceiveReceiver_StartReceive_def
  TReceiveOpState_ReceiveCallback_def TReceiveOpState_StopCallback_def receive_op_wf_def

interpretation receive: stream_op TReceiveOpState_enabled TReceiveOpState_step
  StopOp Socket trace "\<lambda>op. running (ChildOp op) (trace op)" receive_op_wf "\<lambda>_. ()"
  receive_start_error decide_receive
proof
  fix s :: TReceiveOpState and e p
  assume A: "in_sphase p () (running (ChildOp s) (trace s)) (StopOp s) (Socket s) (trace s)"
    "receive_op_wf s" "TReceiveOpState_enabled e s"
  show "in_sphase (sspec_step decide_receive (Token (StopOp s)) (receive_start_error e s) e p)
      () (running (ChildOp (TReceiveOpState_step e s)) (trace (TReceiveOpState_step e s)))
      (StopOp (TReceiveOpState_step e s)) (Socket (TReceiveOpState_step e s))
      (trace (TReceiveOpState_step e s)) \<and> receive_op_wf (TReceiveOpState_step e s)"
  proof (cases e)
    case (SData env d)
    obtain nrd addr where d: "d = (nrd, addr)" by (cases d)
    show ?thesis
      using A SData d
      by (cases "addr = None \<and> nrd = 0"; cases p; cases "nrd < 0")
        (simp_all add: handler_defs receive_defs)
  qed (use A in \<open>cases p; simp add: handler_defs receive_defs\<close>)+
next
  fix s :: TReceiveOpState and e
  show "Token (StopOp (TReceiveOpState_step e s)) \<longleftrightarrow> Token (StopOp s) \<or> e = SRequestStop"
    by (cases e) (simp_all add: handler_defs receive_defs split: prod.splits)
  show "Socket (TReceiveOpState_step e s) = Socket s"
    by (cases e) (simp_all add: handler_defs receive_defs split: prod.splits)
qed (simp_all add: handler_defs)

section \<open>\<open>TReceiveFromOpState\<close>\<close>

text \<open>\<open>Endpoint\<close> is the caller's address object, \<open>EndpointAddr\<close> its contents, and \<open>EpKind\<close> its type,
  one of the endpoint types of the socket.\<close>

record TReceiveFromOpState = TSocketOp +
  FromBuf :: uv_buf_t
  EpKind :: addr_kind
  Endpoint :: ptr
  EndpointAddr :: sockaddr

definition TReceiveFromOpState_new ::
    "ptr \<Rightarrow> ptr \<Rightarrow> ptr \<Rightarrow> ptr \<Rightarrow> bool \<Rightarrow> addr_kind \<Rightarrow> sockaddr \<Rightarrow> TReceiveFromOpState" where
  "TReceiveFromOpState_new child stop_op socket loop token kind addr =
     \<lparr>trace = [], StopOp = TStopOperation_new token stop_op, Loop = loop, ChildOp = child,
      Socket = socket, HasReceiver = False, FromBuf = \<lparr>base = 0, len = 0\<rparr>, EpKind = kind,
      Endpoint = 0, EndpointAddr = addr\<rparr>"

definition TReceiveFromOpState_start :: "TReceiveFromOpState \<Rightarrow> TReceiveFromOpState" where
  "TReceiveFromOpState_start op = emit (Started (ChildOp op)) op"

definition TReceiveFromReceiver_StartReceive ::
    "uvenv \<Rightarrow> TReceiveFromOpState \<Rightarrow> TReceiveFromOpState" where
  "TReceiveFromReceiver_StartReceive env op =
     (let (err, op) = ReceiveStart env (Socket op) ReceiveCallback op
      in if IsError err then set_error (EErrc err) op else Setup (op\<lparr>HasReceiver := True\<rparr>))"

definition TReceiveFromReceiver_set_value ::
    "uvenv \<Rightarrow> uv_buf_t \<times> ptr \<Rightarrow> TReceiveFromOpState \<Rightarrow> TReceiveFromOpState" where
  "TReceiveFromReceiver_set_value env b op =
     (let (buff, ep) = b
      in TReceiveFromReceiver_StartReceive env (op\<lparr>FromBuf := buff, Endpoint := ep\<rparr>))"

definition TReceiveFromOpState_ReceiveCallback ::
    "platform \<Rightarrow> uvenv \<Rightarrow> datagram \<Rightarrow> TReceiveFromOpState \<Rightarrow> TReceiveFromOpState" where
  "TReceiveFromOpState_ReceiveCallback P env d op =
     (let (nrd, addr) = d
      in if addr = None \<and> nrd = 0 then op
         else let (used, op) = Reset op
              in if \<not> used then
                   let (_, op) = ReceiveStop env (Socket op) op
                   in if nrd < 0 then complete_optional (SetError (EErrc (to_int32 nrd))) op
                      else case addr of
                        None \<Rightarrow> emit (Undefined ''null address'') op
                      | Some a \<Rightarrow>
                          let (err, ep) = CopyAddress P (EpKind op) a (EndpointAddr op);
                              op = op\<lparr>EndpointAddr := ep\<rparr>
                          in if IsError err then complete_optional (SetError (EErrc err)) op
                             else complete_optional (SetValue [of_int nrd]) op
                 else op)"

definition TReceiveFromOpState_AllocateBuf :: "TReceiveFromOpState \<Rightarrow> uv_buf_t" where
  "TReceiveFromOpState_AllocateBuf op = FromBuf op"

definition TReceiveFromOpState_StopCallback ::
    "uvenv \<Rightarrow> TReceiveFromOpState \<Rightarrow> TReceiveFromOpState" where
  "TReceiveFromOpState_StopCallback env op =
     (let (_, op) = ResetUnsafe op;
          (_, op) = ReceiveStop env (Socket op) op
      in complete_optional SetStopped op)"

fun TReceiveFromOpState_step ::
    "platform \<Rightarrow> (uv_buf_t \<times> ptr, datagram) sevent \<Rightarrow> TReceiveFromOpState \<Rightarrow> TReceiveFromOpState" where
  "TReceiveFromOpState_step P (SBegin env b) op =
     TReceiveFromReceiver_set_value env b (emit (ChildDone (ChildOp op)) op)"
| "TReceiveFromOpState_step P (SData env d) op =
     TReceiveFromOpState_ReceiveCallback P env d (emit (Callback ReceiveCallback (Socket op)) op)"
| "TReceiveFromOpState_step P SRequestStop op = request_stop op"
| "TReceiveFromOpState_step P (SRunStop env) op =
     TReceiveFromOpState_StopCallback env (emit (Applied (SelfOp (StopOp op))) op)"

fun TReceiveFromOpState_enabled ::
    "(uv_buf_t \<times> ptr, datagram) sevent \<Rightarrow> TReceiveFromOpState \<Rightarrow> bool" where
  "TReceiveFromOpState_enabled (SBegin env b) op \<longleftrightarrow> running (ChildOp op) (trace op)"
| "TReceiveFromOpState_enabled (SData env d) op \<longleftrightarrow>
     active (Socket op) (trace op) \<and> (0 < fst d \<longrightarrow> snd d \<noteq> None)"
| "TReceiveFromOpState_enabled SRequestStop op \<longleftrightarrow> \<not> Token (StopOp op)"
| "TReceiveFromOpState_enabled (SRunStop env) op \<longleftrightarrow> queued (SelfOp (StopOp op)) (trace op)"

text \<open>The contract: as for \<open>TReceiveOpState\<close>, and a datagram whose sender is of another address family than the
  endpoint is the error of \<open>CopyAddress\<close>. The contents of the endpoint are the state.\<close>

fun decide_receive_from ::
    "platform \<Rightarrow> addr_kind \<Rightarrow> sockaddr \<Rightarrow> datagram \<Rightarrow> sockaddr + completion" where
  "decide_receive_from P k ep (nrd, None) =
     (if nrd = 0 then Inl ep else Inr (SetError (EErrc (to_int32 nrd))))"
| "decide_receive_from P k ep (nrd, Some a) =
     Inr (if nrd < 0 then SetError (EErrc (to_int32 nrd))
          else let err = fst (CopyAddress P k a ep)
               in if IsError err then SetError (EErrc err) else SetValue [of_int nrd])"

lemmas receive_from_defs = TReceiveFromReceiver_set_value_def TReceiveFromReceiver_StartReceive_def
  TReceiveFromOpState_ReceiveCallback_def TReceiveFromOpState_StopCallback_def receive_op_wf_def

interpretation receive_from: stream_op TReceiveFromOpState_enabled "TReceiveFromOpState_step P"
  StopOp Socket trace "\<lambda>op. running (ChildOp op) (trace op)"
  "\<lambda>op. receive_op_wf op \<and> EpKind op = k" EndpointAddr
  receive_start_error "decide_receive_from P k"
  for P k
proof
  fix s :: TReceiveFromOpState and e p
  assume A: "in_sphase p (EndpointAddr s) (running (ChildOp s) (trace s)) (StopOp s) (Socket s) (trace s)"
    "receive_op_wf s \<and> EpKind s = k" "TReceiveFromOpState_enabled e s"
  show "in_sphase
      (sspec_step (decide_receive_from P k) (Token (StopOp s)) (receive_start_error e s) e p)
      (EndpointAddr (TReceiveFromOpState_step P e s))
      (running (ChildOp (TReceiveFromOpState_step P e s)) (trace (TReceiveFromOpState_step P e s)))
      (StopOp (TReceiveFromOpState_step P e s)) (Socket (TReceiveFromOpState_step P e s))
      (trace (TReceiveFromOpState_step P e s)) \<and>
      receive_op_wf (TReceiveFromOpState_step P e s) \<and> EpKind (TReceiveFromOpState_step P e s) = k"
  proof (cases e)
    case (SData env d)
    obtain nrd addr where d: "d = (nrd, addr)" by (cases d)
    show ?thesis
    proof (cases addr)
      case None
      then show ?thesis
        using A SData d
        by (cases "nrd = 0"; cases p; cases "nrd < 0") (simp_all add: handler_defs receive_from_defs)
    next
      case (Some a)
      obtain err ep where c: "CopyAddress P k a (EndpointAddr s) = (err, ep)"
        by (cases "CopyAddress P k a (EndpointAddr s)")
      show ?thesis
        using A SData d Some c
        by (cases "nrd < 0"; cases p; cases "err < 0") (simp_all add: handler_defs receive_from_defs)
    qed
  qed (use A in \<open>cases p; simp add: handler_defs receive_from_defs split: prod.splits\<close>)+
next
  fix s :: TReceiveFromOpState and e
  show "Token (StopOp (TReceiveFromOpState_step P e s)) \<longleftrightarrow> Token (StopOp s) \<or> e = SRequestStop"
    by (cases e) (simp_all add: handler_defs receive_from_defs split: prod.splits option.splits)
  show "Socket (TReceiveFromOpState_step P e s) = Socket s"
    by (cases e) (simp_all add: handler_defs receive_from_defs split: prod.splits option.splits)
qed (simp_all add: handler_defs)

section \<open>Properties\<close>

abbreviation receive_init :: "ptr \<Rightarrow> ptr \<Rightarrow> ptr \<Rightarrow> ptr \<Rightarrow> bool \<Rightarrow> TReceiveOpState" where
  "receive_init child stop_op socket loop token \<equiv>
     TReceiveOpState_start (TReceiveOpState_new child stop_op socket loop token)"

abbreviation receive_from_init ::
    "ptr \<Rightarrow> ptr \<Rightarrow> ptr \<Rightarrow> ptr \<Rightarrow> bool \<Rightarrow> addr_kind \<Rightarrow> sockaddr \<Rightarrow> TReceiveFromOpState" where
  "receive_from_init child stop_op socket loop token kind addr \<equiv>
     TReceiveFromOpState_start
       (TReceiveFromOpState_new child stop_op socket loop token kind addr)"

lemmas receive_new_defs = TReceiveOpState_start_def TReceiveOpState_new_def
  TReceiveFromOpState_start_def TReceiveFromOpState_new_def TStopOperation_new_def

lemma receive_init_Ready:
  assumes "op = receive_init child stop_op socket loop token"
  shows "in_sphase (SReady ()) () (running (ChildOp op) (trace op)) (StopOp op) (Socket op) (trace op)"
    and "receive_op_wf op" "Socket op = socket" "Token (StopOp op) = token"
  by (simp_all add: assms receive_new_defs handler_defs queued_def active_def running_def
      receive_op_wf_def)

lemma receive_from_init_Ready:
  assumes "op = receive_from_init child stop_op socket loop token k ep"
  shows "in_sphase (SReady ep) (EndpointAddr op) (running (ChildOp op) (trace op))
      (StopOp op) (Socket op) (trace op)"
    and "receive_op_wf op \<and> EpKind op = k" "Socket op = socket" "Token (StopOp op) = token"
  by (simp_all add: assms receive_new_defs handler_defs queued_def active_def running_def
      receive_op_wf_def)

text \<open>
  \<open>receive\<close>, in every run: at most one completion, and it is the one owed: the error of
  \<open>uv_udp_recv_start\<close>, else the size of the first datagram before a stop request (an empty datagram counts, an
  empty delivery does not) or the first error, else stopped. After it the socket is not
  received from any more and it has not been closed.
\<close>

theorem receive_outcome:
  assumes "op = receive_init child stop_op socket loop token"
    and "admissible TReceiveOpState_enabled TReceiveOpState_step op es"
  shows "stream_outcome decide_receive socket (\<lambda>env. receive_start_error (SBegin env ()) op)
    token () es (trace (fold TReceiveOpState_step es op))"
proof -
  note r = receive_init_Ready [OF assms(1)]
  have "(\<lambda>env. receive_start_error (SBegin env \<lparr>base = 0, len = 0\<rparr>) op) =
      (\<lambda>env. receive_start_error (SBegin env ()) op)" by simp
  then show ?thesis
    using receive.run_outcome [OF r(1,2) assms(2), of "\<lparr>base = 0, len = 0\<rparr>"] r(3,4) by simp
qed

theorem receive_outcome_witness:
  "stream_outcome decide_receive 2
     (\<lambda>env. receive_start_error (SBegin env ()) (receive_init 0 1 2 3 False)) False ()
     [SBegin (\<lambda>_. 0) \<lparr>base = 64, len = 10\<rparr>, SData (\<lambda>_. 0) (0, None), SRequestStop,
      SRunStop (\<lambda>_. 0)]
     (trace (fold TReceiveOpState_step
       [SBegin (\<lambda>_. 0) \<lparr>base = 64, len = 10\<rparr>, SData (\<lambda>_. 0) (0, None), SRequestStop,
        SRunStop (\<lambda>_. 0)] (receive_init 0 1 2 3 False)))"
  by (rule receive_outcome [OF refl]) code_simp

text \<open>
  C14: \<open>receive_from\<close>, in every run: at most one completion, and it is the one owed: the error of
  \<open>uv_udp_recv_start\<close>, else what the first datagram before a stop request says (its byte count, its error, or
  \<open>UV_EINVAL\<close> when the address family of its sender is not the one of the endpoint), else stopped. After it the
  socket does not receive any more and it has not been closed.
\<close>

theorem receive_from_outcome:
  assumes "op = receive_from_init child stop_op socket loop token kind ep"
    and "admissible TReceiveFromOpState_enabled (TReceiveFromOpState_step P) op es"
  shows "stream_outcome (decide_receive_from P kind) socket
    (\<lambda>env. receive_start_error (SBegin env ()) op) token ep es
    (trace (fold (TReceiveFromOpState_step P) es op))"
proof -
  note r = receive_from_init_Ready [OF assms(1)]
  have "(\<lambda>env. receive_start_error (SBegin env (\<lparr>base = 0, len = 0\<rparr>, 0::ptr)) op) =
      (\<lambda>env. receive_start_error (SBegin env ()) op)" by simp
  then show ?thesis
    using receive_from.run_outcome [OF r(1,2) assms(2), of "(\<lparr>base = 0, len = 0\<rparr>, 0)"] r(3,4)
    by simp
qed

definition inet_platform :: platform where
  "inet_platform = \<lparr>UV_EINVAL = -22, UV_EOF = -4095, AF_INET = 2, AF_INET6 = 10,
     sizeof_sockaddr_in = 16, sizeof_sockaddr_in6 = 28\<rparr>"

theorem receive_from_outcome_witness:
  "stream_outcome (decide_receive_from inet_platform TIp4Addr) 2
     (\<lambda>env. receive_start_error (SBegin env ())
       (receive_from_init 0 1 2 3 False TIp4Addr \<lparr>sa_family = 0, sa_bytes = []\<rparr>)) False
     \<lparr>sa_family = 0, sa_bytes = []\<rparr>
     [SBegin (\<lambda>_. 0) (\<lparr>base = 64, len = 10\<rparr>, 8::ptr),
      SData (\<lambda>_. 0) (3, Some \<lparr>sa_family = 10, sa_bytes = []\<rparr>)]
     (trace (fold (TReceiveFromOpState_step inet_platform)
       [SBegin (\<lambda>_. 0) (\<lparr>base = 64, len = 10\<rparr>, 8::ptr),
        SData (\<lambda>_. 0) (3, Some \<lparr>sa_family = 10, sa_bytes = []\<rparr>)]
       (receive_from_init 0 1 2 3 False TIp4Addr \<lparr>sa_family = 0, sa_bytes = []\<rparr>)))"
  by (rule receive_from_outcome [OF refl]) code_simp

end
