(* ===== verification/Loop_Clients.thy ===== *)
theory Loop_Clients
  imports Scheduling Timer_Ops Signal_Ops Read_Ops Receive_Ops
begin

text \<open>
  What the loop's operation list may rely on when an operation state uses it: the locale
  \<open>loop_client\<close>. A handler calls \<open>TLoop::Schedule\<close> at most once, only for an address of its own
  operation state and never while that address is still in the list; it runs as \<open>Apply\<close> of an
  address exactly when the list hands that address back. Interpreted on the nine operation states that are
  scheduled on a loop, and on the datatype \<open>loop_op\<close> of all of them, which Loop_System puts on one list.
\<close>

section \<open>The effects on the list\<close>

definition new_effects :: "effect list \<Rightarrow> effect list \<Rightarrow> effect list" where
  "new_effects tr tr' = drop (length tr) tr'"

definition scheduled_in :: "effect list \<Rightarrow> ptr list" where
  "scheduled_in es = concat (map (\<lambda>e. case e of Scheduled p \<Rightarrow> [p] | _ \<Rightarrow> []) es)"

definition applied_in :: "effect list \<Rightarrow> ptr list" where
  "applied_in es = concat (map (\<lambda>e. case e of Applied p \<Rightarrow> [p] | _ \<Rightarrow> []) es)"

text \<open>The calls of \<open>Schedule\<close> by a handler.\<close>

definition schedule_calls :: "effect list \<Rightarrow> effect list \<Rightarrow> ptr list" where
  "schedule_calls tr tr' = scheduled_in (new_effects tr tr')"

text \<open>A handler that runs as \<open>Apply\<close> of \<open>ap\<close> (\<open>None\<close>: for another reason), of an operation with the
  addresses \<open>A\<close>.\<close>

definition list_effects :: "ptr set \<Rightarrow> ptr option \<Rightarrow> effect list \<Rightarrow> effect list \<Rightarrow> bool" where
  "list_effects A ap tr tr' \<longleftrightarrow>
     tr' = tr @ new_effects tr tr' \<and>
     applied_in (new_effects tr tr') = (case ap of None \<Rightarrow> [] | Some p \<Rightarrow> [p]) \<and>
     (case schedule_calls tr tr' of
        [] \<Rightarrow> True
      | q # qs \<Rightarrow> qs = [] \<and> q \<in> A \<and> \<not> queued q tr)"

lemma new_effects_append [simp]: "new_effects tr (tr @ es) = es"
  by (simp add: new_effects_def)

lemma new_effects_same [simp]: "new_effects tr tr = []"
  by (simp add: new_effects_def)

lemma scheduled_in_simps [simp]:
  "scheduled_in [] = []"
  "scheduled_in (e # es) = (case e of Scheduled p \<Rightarrow> [p] | _ \<Rightarrow> []) @ scheduled_in es"
  by (simp_all add: scheduled_in_def)

lemma applied_in_simps [simp]:
  "applied_in [] = []"
  "applied_in (e # es) = (case e of Applied p \<Rightarrow> [p] | _ \<Rightarrow> []) @ applied_in es"
  by (simp_all add: applied_in_def)

lemma schedule_calls_append [simp]: "schedule_calls tr (tr @ es) = scheduled_in es"
  by (simp add: schedule_calls_def)

lemma schedule_calls_same [simp]: "schedule_calls tr tr = []"
  by (simp add: schedule_calls_def)

lemma list_effects_append [simp]:
  "list_effects A ap tr (tr @ es) \<longleftrightarrow>
     applied_in es = (case ap of None \<Rightarrow> [] | Some p \<Rightarrow> [p]) \<and>
     (case scheduled_in es of [] \<Rightarrow> True | q # qs \<Rightarrow> qs = [] \<and> q \<in> A \<and> \<not> queued q tr)"
  by (simp add: list_effects_def)

lemma list_effects_Nil [simp]:
  "list_effects A ap [] es \<longleftrightarrow>
     applied_in es = (case ap of None \<Rightarrow> [] | Some p \<Rightarrow> [p]) \<and>
     (case scheduled_in es of [] \<Rightarrow> True | q # qs \<Rightarrow> qs = [] \<and> q \<in> A)"
  using list_effects_append [of A ap "[]" es] by (simp split: list.split)

lemma list_effects_same [simp]: "list_effects A None tr tr"
  by (simp add: list_effects_def)

lemma queued_fold:
  assumes "set (applied_in es) \<inter> set (scheduled_in es) = {}"
  shows "fold (queued_upd p) es b \<longleftrightarrow>
    b \<and> p \<notin> set (applied_in es) \<or> p \<in> set (scheduled_in es)"
  using assms
proof (induction es arbitrary: b)
  case (Cons e es)
  then show ?case by (cases e) auto
qed simp

lemma list_effects_queued:
  assumes "list_effects A ap tr tr'" "\<forall>p. ap = Some p \<longrightarrow> queued p tr"
  shows "queued p tr' \<longleftrightarrow> queued p tr \<and> ap \<noteq> Some p \<or> p \<in> set (schedule_calls tr tr')"
proof -
  let ?es = "new_effects tr tr'"
  have tr': "tr' = tr @ ?es" and ap: "set (applied_in ?es) = set_option ap"
    using assms(1) by (auto simp: list_effects_def split: option.splits)
  have "set (applied_in ?es) \<inter> set (scheduled_in ?es) = {}"
    using assms ap by (auto simp: list_effects_def schedule_calls_def split: list.splits)
  from queued_fold [OF this, of p "queued p tr"] show ?thesis
    using ap by (subst tr') (auto simp: schedule_calls_def)
qed

section \<open>The interface\<close>

text \<open>
  \<open>fresh\<close>: as its constructor leaves it. \<open>applies e s\<close>: the address as whose \<open>Apply\<close> the event enters the
  operation; \<open>ok\<close>: what else the event needs of its surroundings. \<open>work\<close>: a bound on how often the
  operation can still be applied unless something else happens to it.
\<close>

locale loop_client = guarded_steps enabled step Inv
  for enabled :: "'e \<Rightarrow> 's \<Rightarrow> bool"
    and step :: "'e \<Rightarrow> 's \<Rightarrow> 's"
    and Inv :: "'s \<Rightarrow> bool" +
  fixes fresh :: "'s \<Rightarrow> bool"
    and begin_op :: "'s \<Rightarrow> 's"
    and tr :: "'s \<Rightarrow> effect list"
    and addrs :: "'s \<Rightarrow> ptr set"
    and applies :: "'e \<Rightarrow> 's \<Rightarrow> ptr option"
    and ok :: "'e \<Rightarrow> 's \<Rightarrow> bool"
    and work :: "'s \<Rightarrow> nat"
  assumes begin_Inv: "fresh s \<Longrightarrow> Inv (begin_op s)"
    and fresh_tr: "fresh s \<Longrightarrow> tr s = []"
    and begin_effects: "fresh s \<Longrightarrow> list_effects (addrs s) None (tr s) (tr (begin_op s))"
    and step_effects:
      "Inv s \<Longrightarrow> enabled e s \<Longrightarrow> list_effects (addrs s) (applies e s) (tr s) (tr (step e s))"
    and addrs_begin: "addrs (begin_op s) = addrs s"
    and addrs_step: "addrs (step e s) = addrs s"
    and applies_addrs: "applies e s = Some p \<Longrightarrow> p \<in> addrs s"
    and applies_enabled: "applies e s = Some p \<Longrightarrow> enabled e s \<longleftrightarrow> queued p (tr s) \<and> ok e s"
    and applies_of_addrs: "p \<in> addrs s \<Longrightarrow> \<exists>e. applies e s = Some p \<and> ok e s"
    and work_step: "Inv s \<Longrightarrow> enabled e s \<Longrightarrow> applies e s = Some p \<Longrightarrow> work (step e s) < work s"
begin

lemma queued_begin:
  "fresh s \<Longrightarrow> queued p (tr (begin_op s)) \<longleftrightarrow> p \<in> set (schedule_calls (tr s) (tr (begin_op s)))"
  using list_effects_queued [OF begin_effects] by (simp add: fresh_tr)

lemma queued_step:
  assumes "Inv s" "enabled e s"
  shows "queued p (tr (step e s)) \<longleftrightarrow>
    queued p (tr s) \<and> applies e s \<noteq> Some p \<or> p \<in> set (schedule_calls (tr s) (tr (step e s)))"
  by (rule list_effects_queued [OF step_effects [OF assms]])
    (use applies_enabled assms(2) in blast)

lemma calls_begin:
  assumes "fresh s"
  obtains "schedule_calls (tr s) (tr (begin_op s)) = []"
  | q where "schedule_calls (tr s) (tr (begin_op s)) = [q]" "q \<in> addrs s"
  using begin_effects [OF assms] by (auto simp: list_effects_def split: list.splits)

lemma calls_step:
  assumes "Inv s" "enabled e s"
  obtains "schedule_calls (tr s) (tr (step e s)) = []"
  | q where "schedule_calls (tr s) (tr (step e s)) = [q]" "q \<in> addrs s" "\<not> queued q (tr s)"
  using step_effects [OF assms] by (auto simp: list_effects_def split: list.splits)

lemma addrs_run: "addrs (fold step es s) = addrs s"
  by (induction es arbitrary: s) (simp_all add: addrs_step)

text \<open>Only its own addresses are ever in the list on behalf of an operation.\<close>

lemma queued_addrs:
  assumes "fresh s" "admissible enabled step (begin_op s) es"
    and "queued p (tr (fold step es (begin_op s)))"
  shows "p \<in> addrs s"
proof -
  have "queued p (tr (fold step es r)) \<Longrightarrow> p \<in> addrs r"
    if "Inv r" "\<forall>p. queued p (tr r) \<longrightarrow> p \<in> addrs r" "admissible enabled step r es" for r
    using that
  proof (induction es arbitrary: r)
    case (Cons e es)
    have en: "enabled e r" using Cons.prems(4) by simp
    have "p \<in> addrs (step e r)" if "queued p (tr (step e r))" for p
      using queued_step [OF Cons.prems(2) en] calls_step [OF Cons.prems(2) en] that Cons.prems(3)
      by (metis addrs_step empty_iff list.set(1) list.set_intros(1) set_ConsD)
    then have "\<forall>p. queued p (tr (step e r)) \<longrightarrow> p \<in> addrs (step e r)" by blast
    from Cons.IH [OF _ step_Inv [OF Cons.prems(2) en] this] Cons.prems show ?case
      by (simp add: addrs_step)
  qed simp
  moreover have "\<forall>p. queued p (tr (begin_op s)) \<longrightarrow> p \<in> addrs (begin_op s)"
    by (rule calls_begin [OF assms(1)]) (simp_all add: queued_begin [OF assms(1)] addrs_begin)
  ultimately show ?thesis
    using begin_Inv [OF assms(1)] assms(2,3) by (metis addrs_begin)
qed

end

section \<open>\<open>schedule\<close>\<close>

definition schedule_fresh :: "TScheduleOpState \<Rightarrow> bool" where
  "schedule_fresh op \<longleftrightarrow> trace op = []"

fun schedule_applies :: "schedule_event \<Rightarrow> TScheduleOpState \<Rightarrow> ptr option" where
  "schedule_applies ScApply op = Some (SelfPtr op)"
| "schedule_applies ScRequestStop op = None"

interpretation schedule_client: loop_client schedule_enabled TScheduleOpState_step "\<lambda>_. True"
  schedule_fresh TScheduleOpState_start trace "\<lambda>op. {SelfPtr op}" schedule_applies "\<lambda>_ _. True"
  "\<lambda>op. of_bool (queued (SelfPtr op) (trace op))"
proof (unfold_locales, goal_cases)
  case (5 s e)
  then show ?case by (cases e) (simp_all add: TScheduleOpState_Apply_def)
next
  case (7 e s)
  then show ?case by (cases e) (simp_all add: TScheduleOpState_Apply_def emit_def)
next
  case (8 e s p)
  then show ?case by (cases e) simp_all
next
  case (9 e s p)
  then show ?case by (cases e) simp_all
next
  case (10 p s)
  then show ?case by (intro exI [of _ ScApply]) simp
next
  case (11 s e p)
  then show ?case by (cases e) (simp_all add: TScheduleOpState_Apply_def emit_def)
qed (simp_all add: schedule_fresh_def TScheduleOpState_start_def Schedule_def emit_def)

section \<open>Timers and signals\<close>

text \<open>\<open>self\<close>: the address of the operation itself, where it is scheduled to begin; \<open>c\<close>: the init call of
  its handle, taken to succeed in the runs of the contract. What happens where it fails is \<open>op_init_fails\<close> below.\<close>

fun oneshot_applies :: "ptr option \<Rightarrow> TStopOperation \<Rightarrow> event \<Rightarrow> ptr option" where
  "oneshot_applies self so (Begin env now) = self"
| "oneshot_applies self so (RunStop env) = Some (SelfOp so)"
| "oneshot_applies self so e = None"

fun oneshot_ok :: "uv_call \<Rightarrow> event \<Rightarrow> bool" where
  "oneshot_ok c (Begin env now) \<longleftrightarrow> \<not> IsError (env c)"
| "oneshot_ok c e \<longleftrightarrow> True"

definition cop_fresh :: "'a cop_scheme \<Rightarrow> bool" where
  "cop_fresh op \<longleftrightarrow> trace op = [] \<and> \<not> Used (StopOp op) \<and> \<not> StopCallback (StopOp op)"

definition self_addrs :: "ptr option \<Rightarrow> TStopOperation \<Rightarrow> ptr set" where
  "self_addrs self so = insert (SelfOp so) (set_option self)"

text \<open>When it is applied to begin, it may push its stop operation.\<close>

definition oneshot_work :: "ptr option \<Rightarrow> TStopOperation \<Rightarrow> effect list \<Rightarrow> nat" where
  "oneshot_work self so tr =
     (case self of None \<Rightarrow> 0 | Some p \<Rightarrow> 2 * of_bool (queued p tr)) + of_bool (queued (SelfOp so) tr)"

lemma self_addrs_simps [simp]: "SelfOp so \<in> self_addrs self so" "p \<in> self_addrs (Some p) so"
  by (simp_all add: self_addrs_def)

lemma oneshot_applies_in: "oneshot_applies self so e = Some p \<Longrightarrow> p \<in> self_addrs self so"
  by (cases e) (simp_all add: self_addrs_def)

lemma oneshot_applies_of:
  assumes "p \<in> self_addrs self so"
  shows "\<exists>e. oneshot_applies self so e = Some p \<and> oneshot_ok c e"
proof (cases "self = Some p")
  case True
  then show ?thesis by (intro exI [of _ "Begin (\<lambda>_. 0) 0"]) (simp add: IsError_def)
next
  case False
  with assms have "p = SelfOp so" by (auto simp: self_addrs_def)
  then show ?thesis by (intro exI [of _ "RunStop (\<lambda>_. 0)"]) simp
qed

definition timer_schedule_fresh :: "TAfterScheduleOpState \<Rightarrow> bool" where
  "timer_schedule_fresh op \<longleftrightarrow> cop_fresh op \<and> Self op \<noteq> SelfOp (StopOp op)"

definition timer_schedule_inv :: "TAfterScheduleOpState \<Rightarrow> bool" where
  "timer_schedule_inv op \<longleftrightarrow>
     (\<exists>p. in_phase p (queued (Self op) (trace op)) (StopOp op) (Timer op) (trace op)) \<and>
     Self op \<noteq> SelfOp (StopOp op)"

lemmas client_defs = cop_fresh_def self_addrs_def inited_def active_def closing_def queued_def
  running_def

interpretation timer_schedule_client: loop_client TAfterScheduleOpState_enabled
  TAfterScheduleOpState_step timer_schedule_inv timer_schedule_fresh TAfterScheduleOpState_start
  trace "\<lambda>op. self_addrs (Some (Self op)) (StopOp op)"
  "\<lambda>e op. oneshot_applies (Some (Self op)) (StopOp op) e"
  "\<lambda>e op. oneshot_ok (uv_timer_init (Loop op) (Timer op)) e"
  "\<lambda>op. oneshot_work (Some (Self op)) (StopOp op) (trace op)"
proof (unfold_locales, goal_cases)
  case (1 s e)
  then show ?case unfolding timer_schedule_inv_def using after_schedule.phased_step by blast
next
  case (2 s)
  then show ?case
    by (auto simp: timer_schedule_inv_def timer_schedule_fresh_def TAfterScheduleOpState_start_def
        handler_defs client_defs intro: exI [of _ Ready])
next
  case (5 s e)
  then obtain p where "in_phase p (queued (Self s) (trace s)) (StopOp s) (Timer s) (trace s)"
    by (auto simp: timer_schedule_inv_def)
  with 5 show ?case
    by (cases e; cases p) (simp_all add: handler_defs after_schedule_defs self_addrs_def)
next
  case (7 e s)
  then show ?case by (cases e) (simp_all add: handler_defs after_schedule_defs self_addrs_def)
next
  case (9 e s p)
  then show ?case by (cases e) simp_all
next
  case (11 s e p)
  then obtain q where "in_phase q (queued (Self s) (trace s)) (StopOp s) (Timer s) (trace s)"
    "Self s \<noteq> SelfOp (StopOp s)"
    by (auto simp: timer_schedule_inv_def)
  with 11 show ?case
    by (cases e; cases q) (simp_all add: handler_defs after_schedule_defs oneshot_work_def)
qed (simp_all add: timer_schedule_fresh_def cop_fresh_def TAfterScheduleOpState_start_def
    handler_defs oneshot_applies_in oneshot_applies_of)

definition timer_inv :: "TAfterOpState \<Rightarrow> bool" where
  "timer_inv op \<longleftrightarrow>
     (\<exists>p. in_phase p (running (Op op) (trace op)) (StopOp op) (Timer op) (trace op)) \<and>
     TAfterOpState_wf op"

interpretation timer_client: loop_client TAfterOpState_enabled TAfterOpState_step timer_inv
  cop_fresh TAfterOpState_start trace "\<lambda>op. self_addrs None (StopOp op)"
  "\<lambda>e op. oneshot_applies None (StopOp op) e" "\<lambda>e op. oneshot_ok (uv_timer_init (Loop op) (Timer op)) e"
  "\<lambda>op. oneshot_work None (StopOp op) (trace op)"
proof (unfold_locales, goal_cases)
  case (1 s e)
  then show ?case unfolding timer_inv_def using after.phased_step by blast
next
  case (2 s)
  then show ?case
    by (auto simp: timer_inv_def TAfterOpState_wf_def TAfterOpState_start_def handler_defs client_defs
        intro: exI [of _ Ready])
next
  case (5 s e)
  then obtain p where "in_phase p (running (Op s) (trace s)) (StopOp s) (Timer s) (trace s)"
      "TAfterOpState_wf s"
    by (auto simp: timer_inv_def)
  with 5 show ?case
    by (cases e; cases p) (simp_all add: handler_defs after_defs self_addrs_def)
next
  case (7 e s)
  then show ?case by (cases e) (simp_all add: handler_defs after_defs self_addrs_def)
next
  case (9 e s p)
  then show ?case by (cases e) simp_all
next
  case (11 s e p)
  then obtain q where "in_phase q (running (Op s) (trace s)) (StopOp s) (Timer s) (trace s)"
      "TAfterOpState_wf s"
    by (auto simp: timer_inv_def)
  with 11 show ?case
    by (cases e; cases q) (simp_all add: handler_defs after_defs oneshot_work_def)
qed (simp_all add: cop_fresh_def TAfterOpState_start_def handler_defs oneshot_applies_in
    oneshot_applies_of)

definition signal_schedule_fresh :: "TUponSignalScheduleOpState \<Rightarrow> bool" where
  "signal_schedule_fresh op \<longleftrightarrow> cop_fresh op \<and> USelf op \<noteq> SelfOp (StopOp op)"

definition signal_schedule_inv :: "TUponSignalScheduleOpState \<Rightarrow> bool" where
  "signal_schedule_inv op \<longleftrightarrow>
     (\<exists>p. in_phase p (queued (USelf op) (trace op)) (StopOp op) (Signal_h op) (trace op)) \<and>
     USelf op \<noteq> SelfOp (StopOp op)"

interpretation signal_schedule_client: loop_client TUponSignalScheduleOpState_enabled
  TUponSignalScheduleOpState_step signal_schedule_inv signal_schedule_fresh
  TUponSignalScheduleOpState_start trace "\<lambda>op. self_addrs (Some (USelf op)) (StopOp op)"
  "\<lambda>e op. oneshot_applies (Some (USelf op)) (StopOp op) e"
  "\<lambda>e op. oneshot_ok (uv_signal_init (Loop op) (Signal_h op)) e"
  "\<lambda>op. oneshot_work (Some (USelf op)) (StopOp op) (trace op)"
proof (unfold_locales, goal_cases)
  case (1 s e)
  then show ?case unfolding signal_schedule_inv_def using upon_signal_schedule.phased_step by blast
next
  case (2 s)
  then show ?case
    by (auto simp: signal_schedule_inv_def signal_schedule_fresh_def
        TUponSignalScheduleOpState_start_def handler_defs client_defs intro: exI [of _ Ready])
next
  case (5 s e)
  then obtain p where "in_phase p (queued (USelf s) (trace s)) (StopOp s) (Signal_h s) (trace s)"
    by (auto simp: signal_schedule_inv_def)
  with 5 show ?case
    by (cases e; cases p) (simp_all add: handler_defs upon_signal_schedule_defs self_addrs_def)
next
  case (7 e s)
  then show ?case by (cases e) (simp_all add: handler_defs upon_signal_schedule_defs self_addrs_def)
next
  case (9 e s p)
  then show ?case by (cases e) simp_all
next
  case (11 s e p)
  then obtain q where "in_phase q (queued (USelf s) (trace s)) (StopOp s) (Signal_h s) (trace s)"
    "USelf s \<noteq> SelfOp (StopOp s)"
    by (auto simp: signal_schedule_inv_def)
  with 11 show ?case
    by (cases e; cases q) (simp_all add: handler_defs upon_signal_schedule_defs oneshot_work_def)
qed (simp_all add: signal_schedule_fresh_def cop_fresh_def TUponSignalScheduleOpState_start_def
    handler_defs oneshot_applies_in oneshot_applies_of)

definition signal_inv :: "TUponSignalOpState \<Rightarrow> bool" where
  "signal_inv op \<longleftrightarrow>
     (\<exists>p. in_phase p (running (UOp op) (trace op)) (StopOp op) (Signal_h op) (trace op)) \<and>
     TUponSignalOpState_wf op"

interpretation signal_client: loop_client TUponSignalOpState_enabled TUponSignalOpState_step
  signal_inv cop_fresh TUponSignalOpState_start trace "\<lambda>op. self_addrs None (StopOp op)"
  "\<lambda>e op. oneshot_applies None (StopOp op) e"
  "\<lambda>e op. oneshot_ok (uv_signal_init (Loop op) (Signal_h op)) e"
  "\<lambda>op. oneshot_work None (StopOp op) (trace op)"
proof (unfold_locales, goal_cases)
  case (1 s e)
  then show ?case unfolding signal_inv_def using upon_signal.phased_step by blast
next
  case (2 s)
  then show ?case
    by (auto simp: signal_inv_def TUponSignalOpState_wf_def TUponSignalOpState_start_def handler_defs
        client_defs intro: exI [of _ Ready])
next
  case (5 s e)
  then obtain p where "in_phase p (running (UOp s) (trace s)) (StopOp s) (Signal_h s) (trace s)"
      "TUponSignalOpState_wf s"
    by (auto simp: signal_inv_def)
  with 5 show ?case
    by (cases e; cases p) (simp_all add: handler_defs upon_signal_defs self_addrs_def)
next
  case (7 e s)
  then show ?case by (cases e) (simp_all add: handler_defs upon_signal_defs self_addrs_def)
next
  case (9 e s p)
  then show ?case by (cases e) simp_all
next
  case (11 s e p)
  then obtain q where "in_phase q (running (UOp s) (trace s)) (StopOp s) (Signal_h s) (trace s)"
      "TUponSignalOpState_wf s"
    by (auto simp: signal_inv_def)
  with 11 show ?case
    by (cases e; cases q) (simp_all add: handler_defs upon_signal_defs oneshot_work_def)
qed (simp_all add: cop_fresh_def TUponSignalOpState_start_def handler_defs oneshot_applies_in
    oneshot_applies_of)

section \<open>Reading and receiving\<close>

fun stream_applies :: "TStopOperation \<Rightarrow> ('b, 'd) sevent \<Rightarrow> ptr option" where
  "stream_applies so (SRunStop env) = Some (SelfOp so)"
| "stream_applies so e = None"

lemma stream_applies_in: "stream_applies so e = Some p \<Longrightarrow> p = SelfOp so"
  by (cases e) simp_all

lemma stream_applies_of: "\<exists>e :: ('b, 'd) sevent. stream_applies so e = Some (SelfOp so)"
  by (intro exI [of _ "SRunStop (\<lambda>_. 0)"]) simp

definition read_some_inv :: "TReadSomeOpState \<Rightarrow> bool" where
  "read_some_inv op \<longleftrightarrow>
     (\<exists>p. in_sphase p () (running (ChildOp op) (trace op)) (StopOp op) (Socket op) (trace op)) \<and>
     socket_op_wf op"

interpretation read_some_client: loop_client TReadSomeOpState_enabled "TReadSomeOpState_step P"
  read_some_inv cop_fresh TReadSomeOpState_start trace "\<lambda>op. {SelfOp (StopOp op)}"
  "\<lambda>e op. stream_applies (StopOp op) e" "\<lambda>_ _. True"
  "\<lambda>op. of_bool (queued (SelfOp (StopOp op)) (trace op))"
  for P
proof (unfold_locales, goal_cases)
  case (1 s e)
  then obtain p where "in_sphase p () (running (ChildOp s) (trace s)) (StopOp s) (Socket s)
      (trace s)" "socket_op_wf s"
    by (auto simp: read_some_inv_def)
  from read_some.sphase_step [OF this(1) _ 1(2)] this(2) show ?case
    unfolding read_some_inv_def by blast
next
  case (2 s)
  then show ?case
    by (auto simp: read_some_inv_def socket_op_wf_def TReadSomeOpState_start_def handler_defs client_defs
        intro: exI [of _ "SReady ()"])
next
  case (5 s e)
  then obtain p where "in_sphase p () (running (ChildOp s) (trace s)) (StopOp s) (Socket s)
      (trace s)"
    by (auto simp: read_some_inv_def)
  with 5 show ?case
    by (cases e; cases p) (simp_all add: handler_defs read_some_defs split: prod.splits option.splits)
next
  case (7 e s)
  then show ?case
    by (cases e) (simp_all add: handler_defs read_some_defs split: prod.splits option.splits)
next
  case (9 e s p)
  then show ?case by (cases e) simp_all
next
  case (11 s e p)
  then obtain q where "in_sphase q () (running (ChildOp s) (trace s)) (StopOp s) (Socket s)
      (trace s)"
    by (auto simp: read_some_inv_def)
  with 11 show ?case
    by (cases e; cases q) (simp_all add: handler_defs read_some_defs split: prod.splits option.splits)
qed (auto simp: cop_fresh_def TReadSomeOpState_start_def handler_defs dest: stream_applies_in
    intro: stream_applies_of)

definition read_until_inv :: "'c TReadUntilOpState \<Rightarrow> bool" where
  "read_until_inv op \<longleftrightarrow>
     (\<exists>p. in_sphase p (ReadTotal op, CondState op) (running (ChildOp op) (trace op)) (StopOp op) (Socket op) (trace op)) \<and>
     socket_op_wf op"

interpretation read_until_client: loop_client TReadUntilOpState_enabled "TReadUntilOpState_step P"
  read_until_inv cop_fresh TReadUntilOpState_start trace "\<lambda>op. {SelfOp (StopOp op)}"
  "\<lambda>e op. stream_applies (StopOp op) e" "\<lambda>_ _. True"
  "\<lambda>op. of_bool (queued (SelfOp (StopOp op)) (trace op))"
  for P
proof (unfold_locales, goal_cases)
  case (1 s e)
  then obtain p where "in_sphase p (ReadTotal s, CondState s) (running (ChildOp s) (trace s)) (StopOp s) (Socket s)
      (trace s)" "socket_op_wf s"
    by (auto simp: read_until_inv_def)
  from read_until.sphase_step [OF this(1) _ 1(2), of "Condition s"] this(2) show ?case
    unfolding read_until_inv_def by blast
next
  case (2 s)
  then show ?case
    by (auto simp: read_until_inv_def socket_op_wf_def TReadUntilOpState_start_def handler_defs client_defs
        intro: exI [of _ "SReady (ReadTotal s, CondState s)"])
next
  case (5 s e)
  then obtain p where "in_sphase p (ReadTotal s, CondState s) (running (ChildOp s) (trace s)) (StopOp s) (Socket s)
      (trace s)"
    by (auto simp: read_until_inv_def)
  with 5 show ?case
    by (cases e; cases p) (simp_all add: handler_defs read_until_defs split: prod.splits option.splits)
next
  case (7 e s)
  then show ?case
    by (cases e) (simp_all add: handler_defs read_until_defs split: prod.splits option.splits)
next
  case (9 e s p)
  then show ?case by (cases e) simp_all
next
  case (11 s e p)
  then obtain q where "in_sphase q (ReadTotal s, CondState s) (running (ChildOp s) (trace s)) (StopOp s) (Socket s)
      (trace s)"
    by (auto simp: read_until_inv_def)
  with 11 show ?case
    by (cases e; cases q) (simp_all add: handler_defs read_until_defs split: prod.splits option.splits)
qed (auto simp: cop_fresh_def TReadUntilOpState_start_def handler_defs dest: stream_applies_in
    intro: stream_applies_of)

definition receive_inv :: "TReceiveOpState \<Rightarrow> bool" where
  "receive_inv op \<longleftrightarrow>
     (\<exists>p. in_sphase p () (running (ChildOp op) (trace op)) (StopOp op) (Socket op) (trace op)) \<and>
     receive_op_wf op"

interpretation receive_client: loop_client TReceiveOpState_enabled TReceiveOpState_step
  receive_inv cop_fresh TReceiveOpState_start trace "\<lambda>op. {SelfOp (StopOp op)}"
  "\<lambda>e op. stream_applies (StopOp op) e" "\<lambda>_ _. True"
  "\<lambda>op. of_bool (queued (SelfOp (StopOp op)) (trace op))"
proof (unfold_locales, goal_cases)
  case (1 s e)
  then obtain p where "in_sphase p () (running (ChildOp s) (trace s)) (StopOp s) (Socket s)
      (trace s)" "receive_op_wf s"
    by (auto simp: receive_inv_def)
  from receive.sphase_step [OF this(1) _ 1(2)] this(2) show ?case
    unfolding receive_inv_def by blast
next
  case (2 s)
  then show ?case
    by (auto simp: receive_inv_def receive_op_wf_def TReceiveOpState_start_def handler_defs client_defs
        intro: exI [of _ "SReady ()"])
next
  case (5 s e)
  then obtain p where "in_sphase p () (running (ChildOp s) (trace s)) (StopOp s) (Socket s)
      (trace s)"
    by (auto simp: receive_inv_def)
  with 5 show ?case
    by (cases e; cases p) (simp_all add: handler_defs receive_defs split: prod.splits option.splits)
next
  case (7 e s)
  then show ?case
    by (cases e) (simp_all add: handler_defs receive_defs split: prod.splits option.splits)
next
  case (9 e s p)
  then show ?case by (cases e) simp_all
next
  case (11 s e p)
  then obtain q where "in_sphase q () (running (ChildOp s) (trace s)) (StopOp s) (Socket s)
      (trace s)"
    by (auto simp: receive_inv_def)
  with 11 show ?case
    by (cases e; cases q) (simp_all add: handler_defs receive_defs split: prod.splits option.splits)
qed (auto simp: cop_fresh_def TReceiveOpState_start_def handler_defs dest: stream_applies_in
    intro: stream_applies_of)

definition receive_from_inv :: "TReceiveFromOpState \<Rightarrow> bool" where
  "receive_from_inv op \<longleftrightarrow>
     (\<exists>p. in_sphase p (EndpointAddr op) (running (ChildOp op) (trace op)) (StopOp op) (Socket op) (trace op)) \<and>
     receive_op_wf op"

interpretation receive_from_client: loop_client TReceiveFromOpState_enabled "TReceiveFromOpState_step P"
  receive_from_inv cop_fresh TReceiveFromOpState_start trace "\<lambda>op. {SelfOp (StopOp op)}"
  "\<lambda>e op. stream_applies (StopOp op) e" "\<lambda>_ _. True"
  "\<lambda>op. of_bool (queued (SelfOp (StopOp op)) (trace op))"
  for P
proof (unfold_locales, goal_cases)
  case (1 s e)
  then obtain p where "in_sphase p (EndpointAddr s) (running (ChildOp s) (trace s)) (StopOp s) (Socket s)
      (trace s)" "receive_op_wf s"
    by (auto simp: receive_from_inv_def)
  from receive_from.sphase_step [OF this(1) _ 1(2), of "EpKind s"] this(2) show ?case
    unfolding receive_from_inv_def by blast
next
  case (2 s)
  then show ?case
    by (auto simp: receive_from_inv_def receive_op_wf_def TReceiveFromOpState_start_def handler_defs client_defs
        intro: exI [of _ "SReady (EndpointAddr s)"])
next
  case (5 s e)
  then obtain p where "in_sphase p (EndpointAddr s) (running (ChildOp s) (trace s)) (StopOp s) (Socket s)
      (trace s)"
    by (auto simp: receive_from_inv_def)
  with 5 show ?case
    by (cases e; cases p) (simp_all add: handler_defs receive_from_defs split: prod.splits option.splits)
next
  case (7 e s)
  then show ?case
    by (cases e) (simp_all add: handler_defs receive_from_defs split: prod.splits option.splits)
next
  case (9 e s p)
  then show ?case by (cases e) simp_all
next
  case (11 s e p)
  then obtain q where "in_sphase q (EndpointAddr s) (running (ChildOp s) (trace s)) (StopOp s) (Socket s)
      (trace s)"
    by (auto simp: receive_from_inv_def)
  with 11 show ?case
    by (cases e; cases q) (simp_all add: handler_defs receive_from_defs split: prod.splits option.splits)
qed (auto simp: cop_fresh_def TReceiveFromOpState_start_def handler_defs dest: stream_applies_in
    intro: stream_applies_of)

section \<open>All of them\<close>

text \<open>
  The operations of one program: \<open>'c\<close> is the state of the condition of \<open>read_until\<close>, the two timer
  classes serve \<open>after\<close> and \<open>at\<close>. An event of another class does not concern an operation.
\<close>

datatype 'c loop_op =
    ScheduleOp TScheduleOpState
  | TimerScheduleOp TAfterScheduleOpState
  | TimerOp TAfterOpState
  | SignalScheduleOp TUponSignalScheduleOpState
  | SignalOp TUponSignalOpState
  | ReadSomeOp TReadSomeOpState
  | ReadUntilOp "'c TReadUntilOpState"
  | ReceiveOp TReceiveOpState
  | ReceiveFromOp TReceiveFromOpState

datatype loop_event =
    ScheduleEvent schedule_event
  | OneshotEvent event
  | ReadSomeEvent "(uv_buf_t, int) sevent"
  | ReadUntilEvent "(ptr, int) sevent"
  | ReceiveEvent "(uv_buf_t, datagram) sevent"
  | ReceiveFromEvent "(uv_buf_t \<times> ptr, datagram) sevent"

primrec op_trace :: "'c loop_op \<Rightarrow> effect list" where
  "op_trace (ScheduleOp op) = trace op"
| "op_trace (TimerScheduleOp op) = trace op"
| "op_trace (TimerOp op) = trace op"
| "op_trace (SignalScheduleOp op) = trace op"
| "op_trace (SignalOp op) = trace op"
| "op_trace (ReadSomeOp op) = trace op"
| "op_trace (ReadUntilOp op) = trace op"
| "op_trace (ReceiveOp op) = trace op"
| "op_trace (ReceiveFromOp op) = trace op"

primrec op_begin :: "'c loop_op \<Rightarrow> 'c loop_op" where
  "op_begin (ScheduleOp op) = ScheduleOp (TScheduleOpState_start op)"
| "op_begin (TimerScheduleOp op) = TimerScheduleOp (TAfterScheduleOpState_start op)"
| "op_begin (TimerOp op) = TimerOp (TAfterOpState_start op)"
| "op_begin (SignalScheduleOp op) = SignalScheduleOp (TUponSignalScheduleOpState_start op)"
| "op_begin (SignalOp op) = SignalOp (TUponSignalOpState_start op)"
| "op_begin (ReadSomeOp op) = ReadSomeOp (TReadSomeOpState_start op)"
| "op_begin (ReadUntilOp op) = ReadUntilOp (TReadUntilOpState_start op)"
| "op_begin (ReceiveOp op) = ReceiveOp (TReceiveOpState_start op)"
| "op_begin (ReceiveFromOp op) = ReceiveFromOp (TReceiveFromOpState_start op)"

text \<open>As their constructors leave them, the own address apart from the one of the stop operation.\<close>

primrec op_fresh :: "'c loop_op \<Rightarrow> bool" where
  "op_fresh (ScheduleOp op) = schedule_fresh op"
| "op_fresh (TimerScheduleOp op) = timer_schedule_fresh op"
| "op_fresh (TimerOp op) = cop_fresh op"
| "op_fresh (SignalScheduleOp op) = signal_schedule_fresh op"
| "op_fresh (SignalOp op) = cop_fresh op"
| "op_fresh (ReadSomeOp op) = cop_fresh op"
| "op_fresh (ReadUntilOp op) = cop_fresh op"
| "op_fresh (ReceiveOp op) = cop_fresh op"
| "op_fresh (ReceiveFromOp op) = cop_fresh op"

primrec op_addrs :: "'c loop_op \<Rightarrow> ptr set" where
  "op_addrs (ScheduleOp op) = {SelfPtr op}"
| "op_addrs (TimerScheduleOp op) = self_addrs (Some (Self op)) (StopOp op)"
| "op_addrs (TimerOp op) = self_addrs None (StopOp op)"
| "op_addrs (SignalScheduleOp op) = self_addrs (Some (USelf op)) (StopOp op)"
| "op_addrs (SignalOp op) = self_addrs None (StopOp op)"
| "op_addrs (ReadSomeOp op) = {SelfOp (StopOp op)}"
| "op_addrs (ReadUntilOp op) = {SelfOp (StopOp op)}"
| "op_addrs (ReceiveOp op) = {SelfOp (StopOp op)}"
| "op_addrs (ReceiveFromOp op) = {SelfOp (StopOp op)}"

primrec op_inv :: "'c loop_op \<Rightarrow> bool" where
  "op_inv (ScheduleOp op) = True"
| "op_inv (TimerScheduleOp op) = timer_schedule_inv op"
| "op_inv (TimerOp op) = timer_inv op"
| "op_inv (SignalScheduleOp op) = signal_schedule_inv op"
| "op_inv (SignalOp op) = signal_inv op"
| "op_inv (ReadSomeOp op) = read_some_inv op"
| "op_inv (ReadUntilOp op) = read_until_inv op"
| "op_inv (ReceiveOp op) = receive_inv op"
| "op_inv (ReceiveFromOp op) = receive_from_inv op"

primrec op_step :: "platform \<Rightarrow> loop_event \<Rightarrow> 'c loop_op \<Rightarrow> 'c loop_op" where
  "op_step P e (ScheduleOp op) =
     (case e of ScheduleEvent x \<Rightarrow> ScheduleOp (TScheduleOpState_step x op) | _ \<Rightarrow> ScheduleOp op)"
| "op_step P e (TimerScheduleOp op) =
     (case e of OneshotEvent x \<Rightarrow> TimerScheduleOp (TAfterScheduleOpState_step x op) | _ \<Rightarrow> TimerScheduleOp op)"
| "op_step P e (TimerOp op) =
     (case e of OneshotEvent x \<Rightarrow> TimerOp (TAfterOpState_step x op) | _ \<Rightarrow> TimerOp op)"
| "op_step P e (SignalScheduleOp op) =
     (case e of OneshotEvent x \<Rightarrow> SignalScheduleOp (TUponSignalScheduleOpState_step x op) | _ \<Rightarrow> SignalScheduleOp op)"
| "op_step P e (SignalOp op) =
     (case e of OneshotEvent x \<Rightarrow> SignalOp (TUponSignalOpState_step x op) | _ \<Rightarrow> SignalOp op)"
| "op_step P e (ReadSomeOp op) =
     (case e of ReadSomeEvent x \<Rightarrow> ReadSomeOp (TReadSomeOpState_step P x op) | _ \<Rightarrow> ReadSomeOp op)"
| "op_step P e (ReadUntilOp op) =
     (case e of ReadUntilEvent x \<Rightarrow> ReadUntilOp (TReadUntilOpState_step P x op) | _ \<Rightarrow> ReadUntilOp op)"
| "op_step P e (ReceiveOp op) =
     (case e of ReceiveEvent x \<Rightarrow> ReceiveOp (TReceiveOpState_step x op) | _ \<Rightarrow> ReceiveOp op)"
| "op_step P e (ReceiveFromOp op) =
     (case e of ReceiveFromEvent x \<Rightarrow> ReceiveFromOp (TReceiveFromOpState_step P x op) | _ \<Rightarrow> ReceiveFromOp op)"

primrec op_enabled :: "loop_event \<Rightarrow> 'c loop_op \<Rightarrow> bool" where
  "op_enabled e (ScheduleOp op) =
     (case e of ScheduleEvent x \<Rightarrow> schedule_enabled x op | _ \<Rightarrow> False)"
| "op_enabled e (TimerScheduleOp op) =
     (case e of OneshotEvent x \<Rightarrow> TAfterScheduleOpState_enabled x op | _ \<Rightarrow> False)"
| "op_enabled e (TimerOp op) =
     (case e of OneshotEvent x \<Rightarrow> TAfterOpState_enabled x op | _ \<Rightarrow> False)"
| "op_enabled e (SignalScheduleOp op) =
     (case e of OneshotEvent x \<Rightarrow> TUponSignalScheduleOpState_enabled x op | _ \<Rightarrow> False)"
| "op_enabled e (SignalOp op) =
     (case e of OneshotEvent x \<Rightarrow> TUponSignalOpState_enabled x op | _ \<Rightarrow> False)"
| "op_enabled e (ReadSomeOp op) =
     (case e of ReadSomeEvent x \<Rightarrow> TReadSomeOpState_enabled x op | _ \<Rightarrow> False)"
| "op_enabled e (ReadUntilOp op) =
     (case e of ReadUntilEvent x \<Rightarrow> TReadUntilOpState_enabled x op | _ \<Rightarrow> False)"
| "op_enabled e (ReceiveOp op) =
     (case e of ReceiveEvent x \<Rightarrow> TReceiveOpState_enabled x op | _ \<Rightarrow> False)"
| "op_enabled e (ReceiveFromOp op) =
     (case e of ReceiveFromEvent x \<Rightarrow> TReceiveFromOpState_enabled x op | _ \<Rightarrow> False)"

primrec op_applies :: "loop_event \<Rightarrow> 'c loop_op \<Rightarrow> ptr option" where
  "op_applies e (ScheduleOp op) =
     (case e of ScheduleEvent x \<Rightarrow> schedule_applies x op | _ \<Rightarrow> None)"
| "op_applies e (TimerScheduleOp op) =
     (case e of OneshotEvent x \<Rightarrow> oneshot_applies (Some (Self op)) (StopOp op) x | _ \<Rightarrow> None)"
| "op_applies e (TimerOp op) =
     (case e of OneshotEvent x \<Rightarrow> oneshot_applies None (StopOp op) x | _ \<Rightarrow> None)"
| "op_applies e (SignalScheduleOp op) =
     (case e of OneshotEvent x \<Rightarrow> oneshot_applies (Some (USelf op)) (StopOp op) x | _ \<Rightarrow> None)"
| "op_applies e (SignalOp op) =
     (case e of OneshotEvent x \<Rightarrow> oneshot_applies None (StopOp op) x | _ \<Rightarrow> None)"
| "op_applies e (ReadSomeOp op) =
     (case e of ReadSomeEvent x \<Rightarrow> stream_applies (StopOp op) x | _ \<Rightarrow> None)"
| "op_applies e (ReadUntilOp op) =
     (case e of ReadUntilEvent x \<Rightarrow> stream_applies (StopOp op) x | _ \<Rightarrow> None)"
| "op_applies e (ReceiveOp op) =
     (case e of ReceiveEvent x \<Rightarrow> stream_applies (StopOp op) x | _ \<Rightarrow> None)"
| "op_applies e (ReceiveFromOp op) =
     (case e of ReceiveFromEvent x \<Rightarrow> stream_applies (StopOp op) x | _ \<Rightarrow> None)"

primrec op_ok :: "loop_event \<Rightarrow> 'c loop_op \<Rightarrow> bool" where
  "op_ok e (ScheduleOp op) =
     (case e of ScheduleEvent x \<Rightarrow> True | _ \<Rightarrow> False)"
| "op_ok e (TimerScheduleOp op) =
     (case e of OneshotEvent x \<Rightarrow> oneshot_ok (uv_timer_init (Loop op) (Timer op)) x | _ \<Rightarrow> False)"
| "op_ok e (TimerOp op) =
     (case e of OneshotEvent x \<Rightarrow> oneshot_ok (uv_timer_init (Loop op) (Timer op)) x | _ \<Rightarrow> False)"
| "op_ok e (SignalScheduleOp op) =
     (case e of OneshotEvent x \<Rightarrow> oneshot_ok (uv_signal_init (Loop op) (Signal_h op)) x | _ \<Rightarrow> False)"
| "op_ok e (SignalOp op) =
     (case e of OneshotEvent x \<Rightarrow> oneshot_ok (uv_signal_init (Loop op) (Signal_h op)) x | _ \<Rightarrow> False)"
| "op_ok e (ReadSomeOp op) =
     (case e of ReadSomeEvent x \<Rightarrow> True | _ \<Rightarrow> False)"
| "op_ok e (ReadUntilOp op) =
     (case e of ReadUntilEvent x \<Rightarrow> True | _ \<Rightarrow> False)"
| "op_ok e (ReceiveOp op) =
     (case e of ReceiveEvent x \<Rightarrow> True | _ \<Rightarrow> False)"
| "op_ok e (ReceiveFromOp op) =
     (case e of ReceiveFromEvent x \<Rightarrow> True | _ \<Rightarrow> False)"

primrec op_work :: "'c loop_op \<Rightarrow> nat" where
  "op_work (ScheduleOp op) = of_bool (queued (SelfPtr op) (trace op))"
| "op_work (TimerScheduleOp op) = oneshot_work (Some (Self op)) (StopOp op) (trace op)"
| "op_work (TimerOp op) = oneshot_work None (StopOp op) (trace op)"
| "op_work (SignalScheduleOp op) = oneshot_work (Some (USelf op)) (StopOp op) (trace op)"
| "op_work (SignalOp op) = oneshot_work None (StopOp op) (trace op)"
| "op_work (ReadSomeOp op) = of_bool (queued (SelfOp (StopOp op)) (trace op))"
| "op_work (ReadUntilOp op) = of_bool (queued (SelfOp (StopOp op)) (trace op))"
| "op_work (ReceiveOp op) = of_bool (queued (SelfOp (StopOp op)) (trace op))"
| "op_work (ReceiveFromOp op) = of_bool (queued (SelfOp (StopOp op)) (trace op))"

lemmas kinds_step_Inv =
    schedule_client.step_Inv timer_schedule_client.step_Inv timer_client.step_Inv
    signal_schedule_client.step_Inv signal_client.step_Inv read_some_client.step_Inv
    read_until_client.step_Inv receive_client.step_Inv receive_from_client.step_Inv

lemmas kinds_begin_Inv =
    schedule_client.begin_Inv timer_schedule_client.begin_Inv timer_client.begin_Inv
    signal_schedule_client.begin_Inv signal_client.begin_Inv read_some_client.begin_Inv
    read_until_client.begin_Inv receive_client.begin_Inv receive_from_client.begin_Inv

lemmas kinds_fresh_tr =
    schedule_client.fresh_tr timer_schedule_client.fresh_tr timer_client.fresh_tr
    signal_schedule_client.fresh_tr signal_client.fresh_tr read_some_client.fresh_tr
    read_until_client.fresh_tr receive_client.fresh_tr receive_from_client.fresh_tr

lemmas kinds_begin_effects =
    schedule_client.begin_effects timer_schedule_client.begin_effects timer_client.begin_effects
    signal_schedule_client.begin_effects signal_client.begin_effects
    read_some_client.begin_effects read_until_client.begin_effects receive_client.begin_effects
    receive_from_client.begin_effects

lemmas kinds_step_effects =
    schedule_client.step_effects timer_schedule_client.step_effects timer_client.step_effects
    signal_schedule_client.step_effects signal_client.step_effects read_some_client.step_effects
    read_until_client.step_effects receive_client.step_effects receive_from_client.step_effects

lemmas kinds_addrs_begin =
    schedule_client.addrs_begin timer_schedule_client.addrs_begin timer_client.addrs_begin
    signal_schedule_client.addrs_begin signal_client.addrs_begin read_some_client.addrs_begin
    read_until_client.addrs_begin receive_client.addrs_begin receive_from_client.addrs_begin

lemmas kinds_addrs_step =
    schedule_client.addrs_step timer_schedule_client.addrs_step timer_client.addrs_step
    signal_schedule_client.addrs_step signal_client.addrs_step read_some_client.addrs_step
    read_until_client.addrs_step receive_client.addrs_step receive_from_client.addrs_step

lemmas kinds_applies_addrs =
    schedule_client.applies_addrs timer_schedule_client.applies_addrs timer_client.applies_addrs
    signal_schedule_client.applies_addrs signal_client.applies_addrs
    read_some_client.applies_addrs read_until_client.applies_addrs receive_client.applies_addrs
    receive_from_client.applies_addrs

lemmas kinds_applies_enabled =
    schedule_client.applies_enabled timer_schedule_client.applies_enabled
    timer_client.applies_enabled signal_schedule_client.applies_enabled
    signal_client.applies_enabled read_some_client.applies_enabled
    read_until_client.applies_enabled receive_client.applies_enabled
    receive_from_client.applies_enabled

lemmas kinds_work_step =
    schedule_client.work_step timer_schedule_client.work_step timer_client.work_step signal_schedule_client.work_step
    signal_client.work_step read_some_client.work_step read_until_client.work_step
    receive_client.work_step receive_from_client.work_step

interpretation op_client: loop_client op_enabled "op_step P" op_inv op_fresh op_begin op_trace op_addrs
  op_applies op_ok op_work
  for P
proof (unfold_locales, goal_cases)
  case (1 s e)
  then show ?case
    by (cases s; cases e) (simp_all add: kinds_step_Inv)
next
  case (2 s)
  then show ?case by (cases s) (simp_all add: kinds_begin_Inv)
next
  case (3 s)
  then show ?case by (cases s) (simp_all add: kinds_fresh_tr)
next
  case (4 s)
  then show ?case by (cases s) (simp_all add: kinds_begin_effects)
next
  case (5 s e)
  then show ?case by (cases s; cases e) (simp_all add: kinds_step_effects)
next
  case (6 s)
  then show ?case by (cases s) (simp_all add: kinds_addrs_begin)
next
  case (7 e s)
  then show ?case by (cases s; cases e) (simp_all add: kinds_addrs_step)
next
  case (8 e s p)
  then show ?case by (cases s; cases e) (auto dest: kinds_applies_addrs)
next
  case (9 e s p)
  then show ?case by (cases s; cases e) (simp_all add: kinds_applies_enabled)
next
  case (10 p s)
  then show ?case
  proof (cases s)
    case (ScheduleOp op)
    with 10 obtain x where "schedule_applies x op = Some p" "True"
      using schedule_client.applies_of_addrs [of p op] by auto
    with ScheduleOp show ?thesis by (intro exI [of _ "ScheduleEvent x"]) simp
  next
    case (TimerScheduleOp op)
    with 10 obtain x where "oneshot_applies (Some (Self op)) (StopOp op) x = Some p" "oneshot_ok (uv_timer_init (Loop op) (Timer op)) x"
      using timer_schedule_client.applies_of_addrs [of p op] by auto
    with TimerScheduleOp show ?thesis by (intro exI [of _ "OneshotEvent x"]) simp
  next
    case (TimerOp op)
    with 10 obtain x where "oneshot_applies None (StopOp op) x = Some p" "oneshot_ok (uv_timer_init (Loop op) (Timer op)) x"
      using timer_client.applies_of_addrs [of p op] by auto
    with TimerOp show ?thesis by (intro exI [of _ "OneshotEvent x"]) simp
  next
    case (SignalScheduleOp op)
    with 10 obtain x where "oneshot_applies (Some (USelf op)) (StopOp op) x = Some p" "oneshot_ok (uv_signal_init (Loop op) (Signal_h op)) x"
      using signal_schedule_client.applies_of_addrs [of p op] by auto
    with SignalScheduleOp show ?thesis by (intro exI [of _ "OneshotEvent x"]) simp
  next
    case (SignalOp op)
    with 10 obtain x where "oneshot_applies None (StopOp op) x = Some p" "oneshot_ok (uv_signal_init (Loop op) (Signal_h op)) x"
      using signal_client.applies_of_addrs [of p op] by auto
    with SignalOp show ?thesis by (intro exI [of _ "OneshotEvent x"]) simp
  next
    case (ReadSomeOp op)
    with 10 obtain x :: "(uv_buf_t, int) sevent" where "stream_applies (StopOp op) x = Some p" "True"
      using read_some_client.applies_of_addrs [of p op] by auto
    with ReadSomeOp show ?thesis by (intro exI [of _ "ReadSomeEvent x"]) simp
  next
    case (ReadUntilOp op)
    with 10 obtain x :: "(ptr, int) sevent" where "stream_applies (StopOp op) x = Some p" "True"
      using read_until_client.applies_of_addrs [of p op] by auto
    with ReadUntilOp show ?thesis by (intro exI [of _ "ReadUntilEvent x"]) simp
  next
    case (ReceiveOp op)
    with 10 obtain x :: "(uv_buf_t, datagram) sevent" where "stream_applies (StopOp op) x = Some p" "True"
      using receive_client.applies_of_addrs [of p op] by auto
    with ReceiveOp show ?thesis by (intro exI [of _ "ReceiveEvent x"]) simp
  next
    case (ReceiveFromOp op)
    with 10 obtain x :: "(uv_buf_t \<times> ptr, datagram) sevent" where "stream_applies (StopOp op) x = Some p" "True"
      using receive_from_client.applies_of_addrs [of p op] by auto
    with ReceiveFromOp show ?thesis by (intro exI [of _ "ReceiveFromEvent x"]) simp
  qed
next
  case (11 s e p)
  then show ?case by (cases s; cases e) (simp_all add: kinds_work_step del: of_bool_less_iff)
qed

section \<open>What each operation owes its receiver\<close>

text \<open>The events of a run that concern an operation of each class.\<close>

definition schedule_events :: "loop_event list \<Rightarrow> schedule_event list" where
  "schedule_events es = List.map_filter (\<lambda>e. case e of ScheduleEvent x \<Rightarrow> Some x | _ \<Rightarrow> None) es"

definition oneshot_events :: "loop_event list \<Rightarrow> event list" where
  "oneshot_events es = List.map_filter (\<lambda>e. case e of OneshotEvent x \<Rightarrow> Some x | _ \<Rightarrow> None) es"

definition read_some_events :: "loop_event list \<Rightarrow> (uv_buf_t, int) sevent list" where
  "read_some_events es = List.map_filter (\<lambda>e. case e of ReadSomeEvent x \<Rightarrow> Some x | _ \<Rightarrow> None) es"

definition read_until_events :: "loop_event list \<Rightarrow> (ptr, int) sevent list" where
  "read_until_events es = List.map_filter (\<lambda>e. case e of ReadUntilEvent x \<Rightarrow> Some x | _ \<Rightarrow> None) es"

definition receive_events :: "loop_event list \<Rightarrow> (uv_buf_t, datagram) sevent list" where
  "receive_events es = List.map_filter (\<lambda>e. case e of ReceiveEvent x \<Rightarrow> Some x | _ \<Rightarrow> None) es"

definition receive_from_events :: "loop_event list \<Rightarrow> (uv_buf_t \<times> ptr, datagram) sevent list" where
  "receive_from_events es =
     List.map_filter (\<lambda>e. case e of ReceiveFromEvent x \<Rightarrow> Some x | _ \<Rightarrow> None) es"

text \<open>The outcome of the run \<open>es\<close> of the operation that was constructed as \<open>op\<close>, by its trace.\<close>

primrec op_outcome :: "platform \<Rightarrow> 'c loop_op \<Rightarrow> loop_event list \<Rightarrow> effect list \<Rightarrow> bool" where
  "op_outcome P (ScheduleOp op) es tr \<longleftrightarrow>
     completions tr = (case schedule_verdict (StopRequested op) (schedule_events es) of
       None \<Rightarrow> [] | Some c \<Rightarrow> [c])"
| "op_outcome P (TimerScheduleOp op) es tr \<longleftrightarrow>
     oneshot_outcome (Timer op) (\<lambda>env now. timer_start_error (Begin env now) op)
       (Token (StopOp op)) (oneshot_events es) tr"
| "op_outcome P (TimerOp op) es tr \<longleftrightarrow>
     oneshot_outcome (Timer op) (\<lambda>env now. timer_start_error (Begin env now) op)
       (Token (StopOp op)) (oneshot_events es) tr"
| "op_outcome P (SignalScheduleOp op) es tr \<longleftrightarrow>
     oneshot_outcome (Signal_h op) (\<lambda>env now. signal_start_error (Begin env now) op)
       (Token (StopOp op)) (oneshot_events es) tr"
| "op_outcome P (SignalOp op) es tr \<longleftrightarrow>
     oneshot_outcome (Signal_h op) (\<lambda>env now. signal_start_error (Begin env now) op)
       (Token (StopOp op)) (oneshot_events es) tr"
| "op_outcome P (ReadSomeOp op) es tr \<longleftrightarrow>
     stream_outcome (decide_read_some P) (Socket op) (\<lambda>env. read_start_error (SBegin env () :: (unit, unit) sevent) op)
       (Token (StopOp op)) () (read_some_events es) tr"
| "op_outcome P (ReadUntilOp op) es tr \<longleftrightarrow>
     stream_outcome (decide_read_until P (Condition op)) (Socket op)
       (\<lambda>env. read_start_error (SBegin env () :: (unit, unit) sevent) op) (Token (StopOp op))
       (ReadTotal op, CondState op) (read_until_events es) tr"
| "op_outcome P (ReceiveOp op) es tr \<longleftrightarrow>
     stream_outcome decide_receive (Socket op) (\<lambda>env. receive_start_error (SBegin env () :: (unit, unit) sevent) op)
       (Token (StopOp op)) () (receive_events es) tr"
| "op_outcome P (ReceiveFromOp op) es tr \<longleftrightarrow>
     stream_outcome (decide_receive_from P (EpKind op)) (Socket op)
       (\<lambda>env. receive_start_error (SBegin env () :: (unit, unit) sevent) op) (Token (StopOp op)) (EndpointAddr op)
       (receive_from_events es) tr"

text \<open>A run of an operation among all is a run of its own class.\<close>

lemma embedded_run:
  assumes en: "\<And>e s. op_enabled e (K s) \<Longrightarrow> \<exists>x. sel e = Some x \<and> enabled x s"
    and st: "\<And>e x s. sel e = Some x \<Longrightarrow> op_step P e (K s) = K (step x s)"
    and adm: "admissible op_enabled (op_step P) (K s) es"
  shows "admissible enabled step s (List.map_filter sel es) \<and>
    fold (op_step P) es (K s) = K (fold step (List.map_filter sel es) s)"
  using adm
proof (induction es arbitrary: s)
  case Nil
  then show ?case by (simp add: map_filter_simps)
next
  case (Cons e es)
  then obtain x where x: "sel e = Some x" "enabled x s" using en [of e s] by auto
  with Cons.IH [of "step x s"] Cons.prems st [OF x(1), of s] show ?case
    by (simp add: map_filter_simps)
qed

lemmas op_events_defs = schedule_events_def oneshot_events_def read_some_events_def
  read_until_events_def receive_events_def receive_from_events_def

lemma TimerScheduleOp_outcome:
  assumes "c = TimerScheduleOp op" "op_fresh c" "admissible op_enabled (op_step P) (op_begin c) es"
  shows "op_outcome P c es (op_trace (fold (op_step P) es (op_begin c)))"
proof -
  have run: "admissible TAfterScheduleOpState_enabled TAfterScheduleOpState_step (TAfterScheduleOpState_start op) (oneshot_events es) \<and>
      fold (op_step P) es (op_begin c) = TimerScheduleOp (fold TAfterScheduleOpState_step (oneshot_events es) (TAfterScheduleOpState_start op))"
    unfolding oneshot_events_def assms(1) op_begin.simps
    by (rule embedded_run) (use assms(3) in \<open>auto simp: assms(1) split: loop_event.splits\<close>)
  have "in_phase Ready (queued (Self (TAfterScheduleOpState_start op)) (trace (TAfterScheduleOpState_start op)))
      (StopOp (TAfterScheduleOpState_start op)) (Timer (TAfterScheduleOpState_start op)) (trace (TAfterScheduleOpState_start op))"
    "Self (TAfterScheduleOpState_start op) \<noteq> SelfOp (StopOp (TAfterScheduleOpState_start op))"
    using assms(1,2) by (simp_all add: timer_schedule_fresh_def client_defs TAfterScheduleOpState_start_def handler_defs)
  from after_schedule.run_outcome [OF this conjunct1 [OF run]] run show ?thesis
    by (simp add: assms(1) TAfterScheduleOpState_start_def handler_defs)
qed

lemma TimerOp_outcome:
  assumes "c = TimerOp op" "op_fresh c" "admissible op_enabled (op_step P) (op_begin c) es"
  shows "op_outcome P c es (op_trace (fold (op_step P) es (op_begin c)))"
proof -
  have run: "admissible TAfterOpState_enabled TAfterOpState_step (TAfterOpState_start op) (oneshot_events es) \<and>
      fold (op_step P) es (op_begin c) = TimerOp (fold TAfterOpState_step (oneshot_events es) (TAfterOpState_start op))"
    unfolding oneshot_events_def assms(1) op_begin.simps
    by (rule embedded_run) (use assms(3) in \<open>auto simp: assms(1) split: loop_event.splits\<close>)
  have "in_phase Ready (running (Op (TAfterOpState_start op)) (trace (TAfterOpState_start op)))
      (StopOp (TAfterOpState_start op)) (Timer (TAfterOpState_start op)) (trace (TAfterOpState_start op))"
    "TAfterOpState_wf (TAfterOpState_start op)"
    using assms(1,2) by (simp_all add: TAfterOpState_wf_def client_defs TAfterOpState_start_def handler_defs)
  from after.run_outcome [OF this conjunct1 [OF run]] run show ?thesis
    by (simp add: assms(1) TAfterOpState_start_def handler_defs)
qed

lemma SignalScheduleOp_outcome:
  assumes "c = SignalScheduleOp op" "op_fresh c" "admissible op_enabled (op_step P) (op_begin c) es"
  shows "op_outcome P c es (op_trace (fold (op_step P) es (op_begin c)))"
proof -
  have run: "admissible TUponSignalScheduleOpState_enabled TUponSignalScheduleOpState_step (TUponSignalScheduleOpState_start op) (oneshot_events es) \<and>
      fold (op_step P) es (op_begin c) = SignalScheduleOp (fold TUponSignalScheduleOpState_step (oneshot_events es) (TUponSignalScheduleOpState_start op))"
    unfolding oneshot_events_def assms(1) op_begin.simps
    by (rule embedded_run) (use assms(3) in \<open>auto simp: assms(1) split: loop_event.splits\<close>)
  have "in_phase Ready (queued (USelf (TUponSignalScheduleOpState_start op)) (trace (TUponSignalScheduleOpState_start op)))
      (StopOp (TUponSignalScheduleOpState_start op)) (Signal_h (TUponSignalScheduleOpState_start op)) (trace (TUponSignalScheduleOpState_start op))"
    "USelf (TUponSignalScheduleOpState_start op) \<noteq> SelfOp (StopOp (TUponSignalScheduleOpState_start op))"
    using assms(1,2) by (simp_all add: signal_schedule_fresh_def client_defs TUponSignalScheduleOpState_start_def handler_defs)
  from upon_signal_schedule.run_outcome [OF this conjunct1 [OF run]] run show ?thesis
    by (simp add: assms(1) TUponSignalScheduleOpState_start_def handler_defs)
qed

lemma SignalOp_outcome:
  assumes "c = SignalOp op" "op_fresh c" "admissible op_enabled (op_step P) (op_begin c) es"
  shows "op_outcome P c es (op_trace (fold (op_step P) es (op_begin c)))"
proof -
  have run: "admissible TUponSignalOpState_enabled TUponSignalOpState_step (TUponSignalOpState_start op) (oneshot_events es) \<and>
      fold (op_step P) es (op_begin c) = SignalOp (fold TUponSignalOpState_step (oneshot_events es) (TUponSignalOpState_start op))"
    unfolding oneshot_events_def assms(1) op_begin.simps
    by (rule embedded_run) (use assms(3) in \<open>auto simp: assms(1) split: loop_event.splits\<close>)
  have "in_phase Ready (running (UOp (TUponSignalOpState_start op)) (trace (TUponSignalOpState_start op)))
      (StopOp (TUponSignalOpState_start op)) (Signal_h (TUponSignalOpState_start op)) (trace (TUponSignalOpState_start op))"
    "TUponSignalOpState_wf (TUponSignalOpState_start op)"
    using assms(1,2) by (simp_all add: TUponSignalOpState_wf_def client_defs TUponSignalOpState_start_def handler_defs)
  from upon_signal.run_outcome [OF this conjunct1 [OF run]] run show ?thesis
    by (simp add: assms(1) TUponSignalOpState_start_def handler_defs)
qed

lemma ReadSomeOp_outcome:
  assumes "c = ReadSomeOp op" "op_fresh c" "admissible op_enabled (op_step P) (op_begin c) es"
  shows "op_outcome P c es (op_trace (fold (op_step P) es (op_begin c)))"
proof -
  have run: "admissible TReadSomeOpState_enabled (TReadSomeOpState_step P) (TReadSomeOpState_start op) (read_some_events es) \<and>
      fold (op_step P) es (op_begin c) = ReadSomeOp (fold (TReadSomeOpState_step P) (read_some_events es) (TReadSomeOpState_start op))"
    unfolding read_some_events_def assms(1) op_begin.simps
    by (rule embedded_run) (use assms(3) in \<open>auto simp: assms(1) split: loop_event.splits\<close>)
  have "in_sphase (SReady ()) () (running (ChildOp (TReadSomeOpState_start op)) (trace (TReadSomeOpState_start op)))
      (StopOp (TReadSomeOpState_start op)) (Socket (TReadSomeOpState_start op)) (trace (TReadSomeOpState_start op))"
    "socket_op_wf (TReadSomeOpState_start op)"
    using assms(1,2) by (simp_all add: socket_op_wf_def client_defs TReadSomeOpState_start_def handler_defs)
  from read_some.run_outcome [OF this conjunct1 [OF run]] run show ?thesis
    by (simp add: assms(1) TReadSomeOpState_start_def handler_defs)
qed

lemma ReadUntilOp_outcome:
  assumes "c = ReadUntilOp op" "op_fresh c" "admissible op_enabled (op_step P) (op_begin c) es"
  shows "op_outcome P c es (op_trace (fold (op_step P) es (op_begin c)))"
proof -
  have run: "admissible TReadUntilOpState_enabled (TReadUntilOpState_step P) (TReadUntilOpState_start op) (read_until_events es) \<and>
      fold (op_step P) es (op_begin c) = ReadUntilOp (fold (TReadUntilOpState_step P) (read_until_events es) (TReadUntilOpState_start op))"
    unfolding read_until_events_def assms(1) op_begin.simps
    by (rule embedded_run) (use assms(3) in \<open>auto simp: assms(1) split: loop_event.splits\<close>)
  have "in_sphase (SReady (ReadTotal (TReadUntilOpState_start op), CondState (TReadUntilOpState_start op))) (ReadTotal (TReadUntilOpState_start op), CondState (TReadUntilOpState_start op)) (running (ChildOp (TReadUntilOpState_start op)) (trace (TReadUntilOpState_start op)))
      (StopOp (TReadUntilOpState_start op)) (Socket (TReadUntilOpState_start op)) (trace (TReadUntilOpState_start op))"
    "socket_op_wf (TReadUntilOpState_start op) \<and> Condition (TReadUntilOpState_start op) = Condition op"
    using assms(1,2) by (simp_all add: socket_op_wf_def client_defs TReadUntilOpState_start_def handler_defs)
  from read_until.run_outcome [OF this conjunct1 [OF run]] run show ?thesis
    by (simp add: assms(1) TReadUntilOpState_start_def handler_defs)
qed

lemma ReceiveOp_outcome:
  assumes "c = ReceiveOp op" "op_fresh c" "admissible op_enabled (op_step P) (op_begin c) es"
  shows "op_outcome P c es (op_trace (fold (op_step P) es (op_begin c)))"
proof -
  have run: "admissible TReceiveOpState_enabled TReceiveOpState_step (TReceiveOpState_start op) (receive_events es) \<and>
      fold (op_step P) es (op_begin c) = ReceiveOp (fold TReceiveOpState_step (receive_events es) (TReceiveOpState_start op))"
    unfolding receive_events_def assms(1) op_begin.simps
    by (rule embedded_run) (use assms(3) in \<open>auto simp: assms(1) split: loop_event.splits\<close>)
  have "in_sphase (SReady ()) () (running (ChildOp (TReceiveOpState_start op)) (trace (TReceiveOpState_start op)))
      (StopOp (TReceiveOpState_start op)) (Socket (TReceiveOpState_start op)) (trace (TReceiveOpState_start op))"
    "receive_op_wf (TReceiveOpState_start op)"
    using assms(1,2) by (simp_all add: receive_op_wf_def client_defs TReceiveOpState_start_def handler_defs)
  from receive.run_outcome [OF this conjunct1 [OF run]] run show ?thesis
    by (simp add: assms(1) TReceiveOpState_start_def handler_defs)
qed

lemma ReceiveFromOp_outcome:
  assumes "c = ReceiveFromOp op" "op_fresh c" "admissible op_enabled (op_step P) (op_begin c) es"
  shows "op_outcome P c es (op_trace (fold (op_step P) es (op_begin c)))"
proof -
  have run: "admissible TReceiveFromOpState_enabled (TReceiveFromOpState_step P) (TReceiveFromOpState_start op) (receive_from_events es) \<and>
      fold (op_step P) es (op_begin c) = ReceiveFromOp (fold (TReceiveFromOpState_step P) (receive_from_events es) (TReceiveFromOpState_start op))"
    unfolding receive_from_events_def assms(1) op_begin.simps
    by (rule embedded_run) (use assms(3) in \<open>auto simp: assms(1) split: loop_event.splits\<close>)
  have "in_sphase (SReady (EndpointAddr (TReceiveFromOpState_start op))) (EndpointAddr (TReceiveFromOpState_start op)) (running (ChildOp (TReceiveFromOpState_start op)) (trace (TReceiveFromOpState_start op)))
      (StopOp (TReceiveFromOpState_start op)) (Socket (TReceiveFromOpState_start op)) (trace (TReceiveFromOpState_start op))"
    "receive_op_wf (TReceiveFromOpState_start op) \<and> EpKind (TReceiveFromOpState_start op) = EpKind op"
    using assms(1,2) by (simp_all add: receive_op_wf_def client_defs TReceiveFromOpState_start_def handler_defs)
  from receive_from.run_outcome [OF this conjunct1 [OF run]] run show ?thesis
    by (simp add: assms(1) TReceiveFromOpState_start_def handler_defs)
qed

lemma ScheduleOp_outcome:
  assumes "c = ScheduleOp op" "op_fresh c" "admissible op_enabled (op_step P) (op_begin c) es"
  shows "op_outcome P c es (op_trace (fold (op_step P) es (op_begin c)))"
proof -
  have run: "admissible schedule_enabled TScheduleOpState_step (TScheduleOpState_start op)
        (schedule_events es) \<and>
      fold (op_step P) es (op_begin c) =
        ScheduleOp (fold TScheduleOpState_step (schedule_events es) (TScheduleOpState_start op))"
    unfolding schedule_events_def assms(1) op_begin.simps
    by (rule embedded_run) (use assms(3) in \<open>auto simp: assms(1) split: loop_event.splits\<close>)
  have "queued (SelfPtr (TScheduleOpState_start op)) (trace (TScheduleOpState_start op))"
    "completions (trace (TScheduleOpState_start op)) = []"
    using assms(1,2) by (simp_all add: schedule_fresh_def TScheduleOpState_start_def handler_defs
        queued_def)
  from schedule_op_run [OF this conjunct1 [OF run]] run show ?thesis
    by (simp add: assms(1) TScheduleOpState_start_def handler_defs)
qed

lemma op_run_outcome:
  assumes "op_fresh op" "admissible op_enabled (op_step P) (op_begin op) es"
  shows "op_outcome P op es (op_trace (fold (op_step P) es (op_begin op)))"
  using assms
  by (cases op) (blast intro: ScheduleOp_outcome TimerScheduleOp_outcome TimerOp_outcome
      SignalScheduleOp_outcome SignalOp_outcome ReadSomeOp_outcome ReadUntilOp_outcome
      ReceiveOp_outcome ReceiveFromOp_outcome)+

section \<open>Handles that cannot be initialised\<close>

text \<open>The handle of an operation, with the call that initialises it, and the error of its start.\<close>

primrec op_init :: "'c loop_op \<Rightarrow> (ptr \<times> uv_call) option" where
  "op_init (ScheduleOp op) = None"
| "op_init (TimerScheduleOp op) = Some (Timer op, uv_timer_init (Loop op) (Timer op))"
| "op_init (TimerOp op) = Some (Timer op, uv_timer_init (Loop op) (Timer op))"
| "op_init (SignalScheduleOp op) = Some (Signal_h op, uv_signal_init (Loop op) (Signal_h op))"
| "op_init (SignalOp op) = Some (Signal_h op, uv_signal_init (Loop op) (Signal_h op))"
| "op_init (ReadSomeOp op) = None"
| "op_init (ReadUntilOp op) = None"
| "op_init (ReceiveOp op) = None"
| "op_init (ReceiveFromOp op) = None"

primrec op_start_error :: "event \<Rightarrow> 'c loop_op \<Rightarrow> EErrc option" where
  "op_start_error e (ScheduleOp op) = None"
| "op_start_error e (TimerScheduleOp op) = timer_start_error e op"
| "op_start_error e (TimerOp op) = timer_start_error e op"
| "op_start_error e (SignalScheduleOp op) = signal_start_error e op"
| "op_start_error e (SignalOp op) = signal_start_error e op"
| "op_start_error e (ReadSomeOp op) = None"
| "op_start_error e (ReadUntilOp op) = None"
| "op_start_error e (ReceiveOp op) = None"
| "op_start_error e (ReceiveFromOp op) = None"

text \<open>An operation that may begin, but whose handle cannot be initialised.\<close>

lemma op_init_fails:
  assumes "op_inv c" "op_enabled (OneshotEvent (Begin env0 now0)) c" "op_init c = Some (h, call)" "IsError (env call)"
  shows "failed_init h (EErrc (env call)) (op_start_error (Begin env now) c)
    (op_trace (op_step P (OneshotEvent (Begin env now)) c))"
proof (cases c)
  case (TimerScheduleOp op)
  with assms show ?thesis
    using after_schedule_init_fails [of _ op env now] by (auto simp: timer_schedule_inv_def simp del: TAfterScheduleOpState_step.simps)
next
  case (TimerOp op)
  with assms show ?thesis
    using after_init_fails [of _ op env now] by (auto simp: timer_inv_def simp del: TAfterOpState_step.simps)
next
  case (SignalScheduleOp op)
  with assms show ?thesis
    using upon_signal_schedule_init_fails [of _ op env now]
    by (auto simp: signal_schedule_inv_def simp del: TUponSignalScheduleOpState_step.simps)
next
  case (SignalOp op)
  with assms show ?thesis
    using upon_signal_init_fails [of _ op env now] by (auto simp: signal_inv_def simp del: TUponSignalOpState_step.simps)
qed (use assms(3) in simp_all)

end
