(* ===== verification/Loop_System.thy ===== *)
theory Loop_System
  imports Operation_List Loop_Clients
begin

text \<open>
  One loop and the operations of a program on it: the lock-free list of Operation_List, the
  operation states of Loop_Clients, any number of threads. A thread that starts an operation or
  requests its stop runs the handler and then, access by access, the calls of \<open>Schedule\<close> that the handler makes;
  the loop's thread runs the handlers of libuv's callbacks and applies what the list hands to it. Nothing is
  assumed about the list: that an operation is applied only while it is in the list, and pushed only while it
  is not, are theorems here.
\<close>

section \<open>The accesses to the list as functions\<close>

datatype list_action =
    LoadHead nat | StoreNext nat | CasHead nat bool | FireAsync nat
  | WakeLoop | ExchangeHead | TurnNode | TurnedAll | AppliedAll

fun osys_do :: "list_action \<Rightarrow> 'a osys \<Rightarrow> 'a osys option" where
  "osys_do (LoadHead t) s =
     (case pcs s t of
        PLoad op \<Rightarrow> Some (s\<lparr>pcs := (pcs s)(t := PStore op (OpHead (ol s)))\<rparr>)
      | _ \<Rightarrow> None)"
| "osys_do (StoreNext t) s =
     (case pcs s t of
        PStore op c \<Rightarrow> Some (s\<lparr>ol := push_store op c (ol s), pcs := (pcs s)(t := PCas op c)\<rparr>)
      | _ \<Rightarrow> None)"
| "osys_do (CasHead t spurious) s =
     (case pcs s t of
        PCas op c \<Rightarrow> (case push_cas spurious op c (ol s) of ((done, c'), l) \<Rightarrow>
          Some (if done then s\<lparr>ol := l, pcs := (pcs s)(t := PFire), scheduled := scheduled s @ [op]\<rparr>
                else s\<lparr>ol := l, pcs := (pcs s)(t := PStore op c')\<rparr>))
      | _ \<Rightarrow> None)"
| "osys_do (FireAsync t) s =
     (case pcs s t of
        PFire \<Rightarrow> Some (s\<lparr>pcs := (pcs s)(t := PIdle), AsyncPending := True\<rparr>)
      | _ \<Rightarrow> None)"
| "osys_do WakeLoop s =
     (case lpc s of
        LWait \<Rightarrow> if AsyncPending s then Some (s\<lparr>lpc := LGrab, AsyncPending := False\<rparr>) else None
      | _ \<Rightarrow> None)"
| "osys_do ExchangeHead s =
     (case lpc s of
        LGrab \<Rightarrow> (case grab_exchange (ol s) of (p, l) \<Rightarrow> Some (s\<lparr>ol := l, lpc := LReverse p None\<rparr>))
      | _ \<Rightarrow> None)"
| "osys_do TurnNode s =
     (case lpc s of
        LReverse (Some cur) newTop \<Rightarrow>
          (case grab_turn cur newTop (ol s) of ((cur', newTop'), l) \<Rightarrow>
             Some (s\<lparr>ol := l, lpc := LReverse cur' newTop'\<rparr>))
      | _ \<Rightarrow> None)"
| "osys_do TurnedAll s =
     (case lpc s of
        LReverse None newTop \<Rightarrow> Some (s\<lparr>lpc := LApply newTop\<rparr>)
      | _ \<Rightarrow> None)"
| "osys_do AppliedAll s =
     (case lpc s of
        LApply None \<Rightarrow> Some (s\<lparr>lpc := LWait\<rparr>)
      | _ \<Rightarrow> None)"

text \<open>One iteration of the loop of \<open>ApplyOperations\<close>, up to the call of \<open>Apply\<close>.\<close>

definition osys_apply :: "'a osys \<Rightarrow> ('a \<times> 'a osys) option" where
  "osys_apply s =
     (case lpc s of
        LApply (Some op) \<Rightarrow> Some (op, s\<lparr>lpc := LApply (OpNext (ol s) op),
          applied := applied s @ [op], Pending := Pending s - {op}\<rparr>)
      | _ \<Rightarrow> None)"

text \<open>Thread \<open>t\<close> enters \<open>Schedule\<close> for the calls of its handler, which are one at most.\<close>

definition call_schedule :: "nat \<Rightarrow> 'a list \<Rightarrow> 'a osys \<Rightarrow> 'a osys" where
  "call_schedule t ops s =
     (case ops of
        [] \<Rightarrow> s
      | op # _ \<Rightarrow> s\<lparr>pcs := (pcs s)(t := PLoad op), Pending := insert op (Pending s)\<rparr>)"

lemma osys_do_step:
  assumes "osys_do a s = Some s'"
  shows "osys_step s s' \<and> Pending s' = Pending s \<and> applied s' = applied s"
proof (cases a)
  case (LoadHead t)
  then show ?thesis using assms by (auto intro: osys_step.load split: ppc.splits)
next
  case (StoreNext t)
  then show ?thesis using assms by (auto intro: osys_step.store split: ppc.splits)
next
  case (CasHead t b)
  then obtain op c where pc: "pcs s t = PCas op c" using assms by (auto split: ppc.splits)
  obtain r c' l where cas: "push_cas b op c (ol s) = ((r, c'), l)" by (metis surj_pair)
  show ?thesis
    using assms CasHead pc cas osys_step.cas_ok [of s t op c b c' l]
      osys_step.cas_fail [of s t op c b c' l] by (cases r) auto
next
  case (FireAsync t)
  then show ?thesis using assms by (auto intro: osys_step.fire split: ppc.splits)
next
  case WakeLoop
  then show ?thesis using assms by (auto intro: osys_step.wake split: lpc.splits if_splits)
next
  case ExchangeHead
  then show ?thesis using assms by (auto intro: osys_step.exchange split: lpc.splits prod.splits)
next
  case TurnNode
  then show ?thesis
    using assms by (auto intro: osys_step.turn split: lpc.splits prod.splits option.splits)
next
  case TurnedAll
  then show ?thesis using assms by (auto intro: osys_step.turned split: lpc.splits option.splits)
next
  case AppliedAll
  then show ?thesis using assms by (auto intro: osys_step.applied_all split: lpc.splits option.splits)
qed

lemma osys_apply_step: "osys_apply s = Some (op, s') \<Longrightarrow> osys_step s s'"
  by (auto simp: osys_apply_def intro: osys_step.apply_op split: lpc.splits option.splits)

text \<open>They are all the steps of the system: the two presentations agree.\<close>

lemma osys_step_cases:
  assumes "osys_step s s'"
  shows "(\<exists>a. osys_do a s = Some s') \<or> (\<exists>op. osys_apply s = Some (op, s')) \<or>
    (\<exists>t op. pcs s t = PIdle \<and> op \<notin> Pending s \<and> s' = call_schedule t [op] s)"
  using assms
proof (cases rule: osys_step.cases)
  case (start t op)
  then show ?thesis by (auto simp: call_schedule_def)
next
  case (load t op)
  then have "osys_do (LoadHead t) s = Some s'" by simp
  then show ?thesis by blast
next
  case (store t op c)
  then have "osys_do (StoreNext t) s = Some s'" by simp
  then show ?thesis by blast
next
  case (cas_ok t op c b c' l)
  then have "osys_do (CasHead t b) s = Some s'" by simp
  then show ?thesis by blast
next
  case (cas_fail t op c b c' l)
  then have "osys_do (CasHead t b) s = Some s'" by simp
  then show ?thesis by blast
next
  case (fire t)
  then have "osys_do (FireAsync t) s = Some s'" by simp
  then show ?thesis by blast
next
  case wake
  then have "osys_do WakeLoop s = Some s'" by simp
  then show ?thesis by blast
next
  case (exchange p l)
  then have "osys_do ExchangeHead s = Some s'" by simp
  then show ?thesis by blast
next
  case (turn cur newTop cur' newTop' l)
  then have "osys_do TurnNode s = Some s'" by simp
  then show ?thesis by blast
next
  case (turned newTop)
  then have "osys_do TurnedAll s = Some s'" by simp
  then show ?thesis by blast
next
  case (apply_op op)
  then show ?thesis by (auto simp: osys_apply_def)
next
  case applied_all
  then have "osys_do AppliedAll s = Some s'" by simp
  then show ?thesis by blast
qed

lemma osys_apply_Pending:
  assumes "osys_reach nx s" "osys_apply s = Some (op, s')"
  shows "op \<in> Pending s"
proof -
  obtain xs us vs where "osys_inv s xs us vs" using osys_reach_inv [OF assms(1)] by blast
  then show ?thesis
    using assms(2)
    by (auto simp: osys_apply_def osys_inv_def heap_inv_def owner_inv_def op_chain_Some
        split: lpc.splits option.splits)
qed

section \<open>The system\<close>

text \<open>The loop runs on thread 0. \<open>Runs\<close>: the events of each operation so far, once it is started.\<close>

record 'c psys =
  Os :: "ptr osys"
  Clients :: "nat \<Rightarrow> 'c loop_op"
  Runs :: "nat \<Rightarrow> loop_event list option"

definition psys_init :: "(ptr \<Rightarrow> ptr option) \<Rightarrow> (nat \<Rightarrow> 'c loop_op) \<Rightarrow> 'c psys" where
  "psys_init nx ops = \<lparr>Os = osys_init nx, Clients = ops, Runs = (\<lambda>_. None)\<rparr>"

text \<open>
  Where an event that is not an \<open>Apply\<close> may come from: a stop request from any thread, libuv's callbacks from the
  loop's thread in libuv, a child's value from the loop's thread.
\<close>

datatype origin = AnyThread | LoopThread | InLibuv

fun event_origin :: "loop_event \<Rightarrow> origin" where
  "event_origin (ScheduleEvent x) = AnyThread"
| "event_origin (OneshotEvent x) =
     (case x of RequestStop \<Rightarrow> AnyThread | Fired \<Rightarrow> InLibuv | HandleClosed \<Rightarrow> InLibuv | _ \<Rightarrow> LoopThread)"
| "event_origin (ReadSomeEvent x) =
     (case x of SRequestStop \<Rightarrow> AnyThread | SData env d \<Rightarrow> InLibuv | _ \<Rightarrow> LoopThread)"
| "event_origin (ReadUntilEvent x) =
     (case x of SRequestStop \<Rightarrow> AnyThread | SData env d \<Rightarrow> InLibuv | _ \<Rightarrow> LoopThread)"
| "event_origin (ReceiveEvent x) =
     (case x of SRequestStop \<Rightarrow> AnyThread | SData env d \<Rightarrow> InLibuv | _ \<Rightarrow> LoopThread)"
| "event_origin (ReceiveFromEvent x) =
     (case x of SRequestStop \<Rightarrow> AnyThread | SData env d \<Rightarrow> InLibuv | _ \<Rightarrow> LoopThread)"

definition may_deliver :: "nat \<Rightarrow> loop_event \<Rightarrow> ptr osys \<Rightarrow> bool" where
  "may_deliver t e o' \<longleftrightarrow> pcs o' t = PIdle \<and>
     (case event_origin e of
        AnyThread \<Rightarrow> True
      | LoopThread \<Rightarrow> t = 0
      | InLibuv \<Rightarrow> t = 0 \<and> lpc o' = LWait)"

text \<open>The loop's thread goes on only after its own calls of \<open>Schedule\<close> have returned.\<close>

fun of_loop :: "list_action \<Rightarrow> bool" where
  "of_loop (LoadHead t) = False"
| "of_loop (StoreNext t) = False"
| "of_loop (CasHead t b) = False"
| "of_loop (FireAsync t) = False"
| "of_loop a = True"

text \<open>A handler of operation \<open>i\<close> has run and left it in state \<open>c\<close>.\<close>

definition handled :: "nat \<Rightarrow> nat \<Rightarrow> 'c loop_op \<Rightarrow> loop_event list \<Rightarrow> 'c psys \<Rightarrow> 'c psys" where
  "handled t i c es s =
     s\<lparr>Os := call_schedule t (schedule_calls (op_trace (Clients s i)) (op_trace c)) (Os s),
       Clients := (Clients s)(i := c), Runs := (Runs s)(i := Some es)\<rparr>"

datatype psys_action =
    StartOp nat nat
  | Deliver nat nat loop_event
  | ApplyOp nat loop_event
  | ListAccess list_action

text \<open>
  \<open>ApplyOp i e\<close> has no premise on the operation but that its address is the one taken from the list,
  and that libuv initialises its handle (\<open>op_ok\<close>); a run in which libuv does not is followed up to there.
\<close>

fun psys_do :: "platform \<Rightarrow> psys_action \<Rightarrow> 'c psys \<Rightarrow> 'c psys option" where
  "psys_do P (StartOp t i) s =
     (if Runs s i = None \<and> pcs (Os s) t = PIdle
      then Some (handled t i (op_begin (Clients s i)) [] s) else None)"
| "psys_do P (Deliver t i e) s =
     (case Runs s i of
        None \<Rightarrow> None
      | Some es \<Rightarrow>
          if op_applies e (Clients s i) = None \<and> op_enabled e (Clients s i) \<and> may_deliver t e (Os s)
          then Some (handled t i (op_step P e (Clients s i)) (es @ [e]) s) else None)"
| "psys_do P (ApplyOp i e) s =
     (case (Runs s i, osys_apply (Os s)) of
        (Some es, Some (p, o')) \<Rightarrow>
          if op_applies e (Clients s i) = Some p \<and> op_ok e (Clients s i) \<and> pcs (Os s) 0 = PIdle
          then Some (handled 0 i (op_step P e (Clients s i)) (es @ [e]) (s\<lparr>Os := o'\<rparr>)) else None
      | _ \<Rightarrow> None)"
| "psys_do P (ListAccess a) s =
     (if of_loop a \<and> pcs (Os s) 0 \<noteq> PIdle then None
      else map_option (\<lambda>o'. s\<lparr>Os := o'\<rparr>) (osys_do a (Os s)))"

primrec psys_run :: "platform \<Rightarrow> psys_action list \<Rightarrow> 'c psys \<Rightarrow> 'c psys option" where
  "psys_run P [] s = Some s"
| "psys_run P (a # as) s =
     (case psys_do P a s of None \<Rightarrow> None | Some s' \<Rightarrow> psys_run P as s')"

text \<open>The operations of a program: freshly constructed, each at addresses of its own.\<close>

definition program_ops :: "(nat \<Rightarrow> 'c loop_op) \<Rightarrow> bool" where
  "program_ops ops \<longleftrightarrow> (\<forall>i. op_fresh (ops i)) \<and>
     (\<forall>i j. i \<noteq> j \<longrightarrow> op_addrs (ops i) \<inter> op_addrs (ops j) = {})"

section \<open>The invariant\<close>

text \<open>Each operation has been through a run that its contract admits.\<close>

definition client_run :: "platform \<Rightarrow> 'c loop_op \<Rightarrow> 'c loop_op \<Rightarrow> loop_event list option \<Rightarrow> bool" where
  "client_run P op c r \<longleftrightarrow>
     (case r of
        None \<Rightarrow> c = op
      | Some es \<Rightarrow> admissible op_enabled (op_step P) (op_begin op) es \<and>
          c = fold (op_step P) es (op_begin op))"

text \<open>The list holds what the operations take to be in it; \<open>ap\<close>: except the one being applied.\<close>

definition psys_inv_but ::
    "ptr option \<Rightarrow> platform \<Rightarrow> (ptr \<Rightarrow> ptr option) \<Rightarrow> (nat \<Rightarrow> 'c loop_op) \<Rightarrow> 'c psys \<Rightarrow> bool" where
  "psys_inv_but ap P nx ops s \<longleftrightarrow>
     osys_reach nx (Os s) \<and>
     (\<forall>i. client_run P (ops i) (Clients s i) (Runs s i)) \<and>
     (\<forall>p. p \<in> Pending (Os s) \<longleftrightarrow> ap \<noteq> Some p \<and> (\<exists>i. queued p (op_trace (Clients s i))))"

abbreviation psys_inv ::
    "platform \<Rightarrow> (ptr \<Rightarrow> ptr option) \<Rightarrow> (nat \<Rightarrow> 'c loop_op) \<Rightarrow> 'c psys \<Rightarrow> bool" where
  "psys_inv \<equiv> psys_inv_but None"

lemma client_run_inv:
  assumes "op_fresh op" "client_run P op c (Some es)"
  shows "op_inv c" "op_addrs c = op_addrs op"
  using assms op_client.run_Inv [OF op_client.begin_Inv [OF assms(1)]]
  by (simp_all add: client_run_def op_client.addrs_run op_client.addrs_begin)

lemma client_run_queued:
  assumes "op_fresh op" "client_run P op c r" "queued p (op_trace c)"
  shows "p \<in> op_addrs op"
  using assms op_client.queued_addrs [OF assms(1)] op_client.fresh_tr [OF assms(1)]
  by (auto simp: client_run_def split: option.splits)

lemma admissible_snoc:
  "admissible enabled step r es \<Longrightarrow> enabled e (fold step es r) \<Longrightarrow> admissible enabled step r (es @ [e])"
  by (induction es arbitrary: r) simp_all

lemma client_run_step:
  assumes "client_run P op c (Some es)" "op_enabled e c"
  shows "client_run P op (op_step P e c) (Some (es @ [e]))"
  using assms by (auto simp: client_run_def intro: admissible_snoc)

lemma call_schedule_reach:
  assumes "osys_reach nx o'" "pcs o' t = PIdle" "qs = [] \<or> (\<exists>q. qs = [q] \<and> q \<notin> Pending o')"
  shows "osys_reach nx (call_schedule t qs o')"
  using assms osys_reach.step [OF assms(1) osys_step.start [OF assms(2)]]
  by (auto simp: call_schedule_def)

lemma handled_inv:
  assumes inv: "psys_inv_but ap P nx ops s" and ops: "program_ops ops"
    and run: "client_run P (ops i) c (Some es)" and idle: "pcs (Os s) t = PIdle"
    and calls: "schedule_calls (op_trace (Clients s i)) (op_trace c) = qs"
      "qs = [] \<or> (\<exists>q. qs = [q] \<and> q \<in> op_addrs (ops i) \<and> \<not> queued q (op_trace (Clients s i)))"
    and queued: "\<And>p. queued p (op_trace c) \<longleftrightarrow>
      queued p (op_trace (Clients s i)) \<and> ap \<noteq> Some p \<or> p \<in> set qs"
    and ap: "\<And>p. ap = Some p \<Longrightarrow> p \<in> op_addrs (ops i)"
  shows "psys_inv P nx ops (handled t i c es s)"
proof -
  have other: "\<not> queued p (op_trace (Clients s j))" if "p \<in> op_addrs (ops i)" "j \<noteq> i" for p j
    using that ops inv client_run_queued [of "ops j" P "Clients s j" "Runs s j" p]
    by (auto simp: program_ops_def psys_inv_but_def)
  have new: "q \<notin> Pending (Os s)" if "qs = [q]" for q
  proof -
    have "\<not> queued q (op_trace (Clients s j))" for j
      using calls(2) that other [of q j] by (cases "j = i") auto
    then show ?thesis using inv by (simp add: psys_inv_but_def)
  qed
  have P: "Pending (call_schedule t qs (Os s)) = set qs \<union> Pending (Os s)"
    using calls(2) by (auto simp: call_schedule_def)
  have "osys_reach nx (call_schedule t qs (Os s))"
    using inv idle calls(2) new by (intro call_schedule_reach) (auto simp: psys_inv_but_def)
  moreover have "p \<in> set qs \<union> Pending (Os s) \<longleftrightarrow>
      (\<exists>j. queued p (op_trace (((Clients s)(i := c)) j)))" for p
  proof
    assume "p \<in> set qs \<union> Pending (Os s)"
    then consider "p \<in> set qs" | j where "ap \<noteq> Some p" "queued p (op_trace (Clients s j))"
      using inv by (auto simp: psys_inv_but_def)
    then show "\<exists>j. queued p (op_trace (((Clients s)(i := c)) j))"
    proof cases
      case 1
      then show ?thesis using queued by (intro exI [of _ i]) simp
    next
      case (2 j)
      then show ?thesis using queued [of p] by (intro exI [of _ j]) (cases "j = i"; simp)
    qed
  next
    assume "\<exists>j. queued p (op_trace (((Clients s)(i := c)) j))"
    then obtain j where j: "queued p (op_trace (((Clients s)(i := c)) j))" by blast
    show "p \<in> set qs \<union> Pending (Os s)"
    proof (cases "j = i")
      case True
      then show ?thesis using j queued inv by (auto simp: psys_inv_but_def)
    next
      case False
      then have "queued p (op_trace (Clients s j))" using j by simp
      moreover from this have "ap \<noteq> Some p" using other [of p j] ap False by blast
      ultimately show ?thesis using inv by (auto simp: psys_inv_but_def)
    qed
  qed
  ultimately show ?thesis
    using inv run P calls(1) by (simp add: psys_inv_but_def handled_def)
qed

lemma psys_inv_begin:
  assumes inv: "psys_inv P nx ops s" and ops: "program_ops ops"
    and "Runs s i = None" "pcs (Os s) t = PIdle"
  shows "psys_inv P nx ops (handled t i (op_begin (Clients s i)) [] s)"
proof -
  have c: "Clients s i = ops i" and fr: "op_fresh (ops i)"
    using inv ops assms(3) by (auto simp: psys_inv_but_def client_run_def program_ops_def
        split: option.splits dest!: spec [of _ i])
  let ?qs = "schedule_calls (op_trace (ops i)) (op_trace (op_begin (ops i)))"
  have "?qs = [] \<or> (\<exists>q. ?qs = [q] \<and> q \<in> op_addrs (ops i) \<and> \<not> queued q (op_trace (ops i)))"
    by (rule op_client.calls_begin [OF fr]) (simp_all add: op_client.fresh_tr [OF fr])
  then show ?thesis
    using op_client.queued_begin [OF fr] op_client.fresh_tr [OF fr]
    by (intro handled_inv [OF inv ops _ assms(4) refl]) (simp_all add: c client_run_def)
qed

lemma psys_inv_step:
  assumes inv: "psys_inv_but (op_applies e (Clients s i)) P nx ops s" and ops: "program_ops ops"
    and "Runs s i = Some es" "pcs (Os s) t = PIdle" "op_enabled e (Clients s i)"
  shows "psys_inv P nx ops (handled t i (op_step P e (Clients s i)) (es @ [e]) s)"
proof -
  have run: "client_run P (ops i) (Clients s i) (Some es)" and fr: "op_fresh (ops i)"
    using inv ops assms(3) by (auto simp: psys_inv_but_def program_ops_def dest: spec [of _ i])
  note I = client_run_inv [OF fr run]
  let ?qs = "schedule_calls (op_trace (Clients s i)) (op_trace (op_step P e (Clients s i)))"
  have "?qs = [] \<or> (\<exists>q. ?qs = [q] \<and> q \<in> op_addrs (ops i) \<and> \<not> queued q (op_trace (Clients s i)))"
    by (rule op_client.calls_step [where P = P, OF I(1) assms(5)]) (simp_all add: I(2))
  from handled_inv [OF inv ops client_run_step [OF run assms(5)] assms(4) refl this
      op_client.queued_step [OF I(1) assms(5)]]
  show ?thesis using op_client.applies_addrs I(2) by blast
qed

lemma osys_apply_unchanged:
  "osys_apply s = Some (op, s') \<Longrightarrow>
     pcs s' = pcs s \<and> Pending s' = Pending s - {op} \<and> applied s' = applied s @ [op]"
  by (auto simp: osys_apply_def split: lpc.splits option.splits)

lemma psys_inv_addrs:
  assumes "psys_inv_but ap P nx ops s" "program_ops ops"
  shows "op_addrs (Clients s i) = op_addrs (ops i)"
  using assms client_run_inv(2) [of "ops i" P "Clients s i"]
  by (cases "Runs s i") (auto simp: psys_inv_but_def program_ops_def client_run_def
      dest!: spec [of _ i])

text \<open>The operation whose address the list hands out is waiting for it.\<close>

lemma psys_apply_enabled:
  assumes inv: "psys_inv P nx ops s" and ops: "program_ops ops"
    and app: "osys_apply (Os s) = Some (p, o')" "op_applies e (Clients s i) = Some p"
      "op_ok e (Clients s i)"
  shows "op_enabled e (Clients s i)"
proof -
  have "p \<in> op_addrs (ops i)"
    using op_client.applies_addrs [OF app(2)] psys_inv_addrs [OF inv ops] by simp
  moreover obtain j where j: "queued p (op_trace (Clients s j))"
    using osys_apply_Pending [of nx, OF _ app(1)] inv by (auto simp: psys_inv_but_def)
  moreover have "p \<in> op_addrs (ops j)"
    using inv ops j client_run_queued [of "ops j" P "Clients s j" "Runs s j" p]
    by (auto simp: psys_inv_but_def program_ops_def)
  ultimately have "i = j" using ops by (auto simp: program_ops_def)
  then show ?thesis using op_client.applies_enabled [OF app(2)] app(3) j by simp
qed

lemma psys_inv_apply:
  assumes inv: "psys_inv P nx ops s" and app: "osys_apply (Os s) = Some (p, o')"
  shows "psys_inv_but (Some p) P nx ops (s\<lparr>Os := o'\<rparr>)"
  using inv osys_apply_unchanged [OF app] osys_reach.step [OF _ osys_apply_step [OF app]]
  by (auto simp: psys_inv_but_def)

text \<open>What each kind of action is.\<close>

lemma psys_do_cases:
  assumes "psys_do P a s = Some s'"
  obtains (start) t i where "a = StartOp t i" "Runs s i = None" "pcs (Os s) t = PIdle"
      "s' = handled t i (op_begin (Clients s i)) [] s"
  | (deliver) t i e es where "a = Deliver t i e" "Runs s i = Some es"
      "op_applies e (Clients s i) = None" "op_enabled e (Clients s i)" "may_deliver t e (Os s)"
      "s' = handled t i (op_step P e (Clients s i)) (es @ [e]) s"
  | (applied) i e es p o' where "a = ApplyOp i e" "Runs s i = Some es"
      "osys_apply (Os s) = Some (p, o')" "op_applies e (Clients s i) = Some p"
      "op_ok e (Clients s i)" "pcs (Os s) 0 = PIdle"
      "s' = handled 0 i (op_step P e (Clients s i)) (es @ [e]) (s\<lparr>Os := o'\<rparr>)"
  | (access) x o' where "a = ListAccess x" "of_loop x \<longrightarrow> pcs (Os s) 0 = PIdle"
      "osys_do x (Os s) = Some o'" "s' = s\<lparr>Os := o'\<rparr>"
  using assms
proof (cases a)
  case (ApplyOp i e)
  with assms obtain es p o' where "Runs s i = Some es" "osys_apply (Os s) = Some (p, o')"
    by (auto split: option.splits prod.splits)
  with ApplyOp assms applied show ?thesis by (auto split: if_splits)
qed (auto intro: that split: if_splits option.splits)

lemma psys_do_inv:
  assumes "psys_do P a s = Some s'" and inv: "psys_inv P nx ops s" and ops: "program_ops ops"
  shows "psys_inv P nx ops s'"
  using assms(1)
proof (cases rule: psys_do_cases)
  case start
  then show ?thesis using psys_inv_begin [OF inv ops] by simp
next
  case (deliver t i e es)
  then show ?thesis
    using psys_inv_step [of e s i P nx ops es t] inv ops by (simp add: may_deliver_def)
next
  case (applied i e es p o')
  have "psys_inv P nx ops (handled 0 i (op_step P e (Clients (s\<lparr>Os := o'\<rparr>) i)) (es @ [e]) (s\<lparr>Os := o'\<rparr>))"
    using psys_inv_apply [OF inv applied(3)] psys_apply_enabled [OF inv ops applied(3-5)] applied
      osys_apply_unchanged [OF applied(3)] ops
    by (intro psys_inv_step) simp_all
  then show ?thesis using applied by simp
next
  case (access x o')
  then show ?thesis
    using inv osys_do_step [OF access(3)] by (auto simp: psys_inv_but_def intro: osys_reach.step)
qed

lemma psys_inv_init: "program_ops ops \<Longrightarrow> psys_inv P nx ops (psys_init nx ops)"
  by (simp add: psys_inv_but_def psys_init_def osys_reach.init client_run_def program_ops_def
      op_client.fresh_tr) (simp add: osys_init_def)

lemma psys_run_induct:
  assumes "psys_run P acts s = Some s'" "Q s" "\<And>a s s'. psys_do P a s = Some s' \<Longrightarrow> Q s \<Longrightarrow> Q s'"
  shows "Q s'"
  using assms(1,2) by (induction acts arbitrary: s) (auto split: option.splits intro: assms(3))

lemma psys_run_inv:
  assumes "psys_run P acts (psys_init nx ops) = Some s" "program_ops ops"
  shows "psys_inv P nx ops s"
  by (rule psys_run_induct [where Q = "psys_inv P nx ops", OF assms(1) psys_inv_init [OF assms(2)]])
    (rule psys_do_inv [OF _ _ assms(2)])

section \<open>The order of the list is the order of the operations\<close>

definition psys_log :: "(nat \<Rightarrow> 'c loop_op) \<Rightarrow> 'c psys \<Rightarrow> bool" where
  "psys_log ops s \<longleftrightarrow> (\<forall>i. applied_in (op_trace (Clients s i)) =
     filter (\<lambda>p. p \<in> op_addrs (ops i)) (applied (Os s)))"

lemma applied_in_append [simp]: "applied_in (xs @ ys) = applied_in xs @ applied_in ys"
  by (simp add: applied_in_def)

lemma list_effects_applied:
  assumes "list_effects A ap tr tr'"
  shows "applied_in tr' = applied_in tr @ (case ap of None \<Rightarrow> [] | Some p \<Rightarrow> [p])"
proof -
  have "tr' = tr @ new_effects tr tr'" using assms by (simp add: list_effects_def)
  then have "applied_in tr' = applied_in tr @ applied_in (new_effects tr tr')"
    by (metis applied_in_append)
  then show ?thesis using assms by (simp add: list_effects_def)
qed

lemma applied_call_schedule [simp]: "applied (call_schedule t qs o') = applied o'"
  by (simp add: call_schedule_def split: list.split)

lemma psys_do_log:
  assumes "psys_do P a s = Some s'" and inv: "psys_inv P nx ops s" and ops: "program_ops ops"
    and log: "psys_log ops s"
  shows "psys_log ops s'"
  using assms(1)
proof (cases rule: psys_do_cases)
  case (start t i)
  have fr: "op_fresh (Clients s i)"
    using inv ops start(2)
    by (auto simp: psys_inv_but_def client_run_def program_ops_def dest!: spec [of _ i])
  then show ?thesis
    using log start list_effects_applied [OF op_client.begin_effects [OF fr]]
    by (simp add: psys_log_def handled_def)
next
  case (deliver t i e es)
  have I: "op_inv (Clients s i)"
    using inv ops deliver(2) client_run_inv(1) [of "ops i" P "Clients s i" es]
    by (auto simp: psys_inv_but_def program_ops_def dest: spec [of _ i])
  show ?thesis
    using log deliver list_effects_applied [OF op_client.step_effects [OF I deliver(4), of P]]
    by (simp add: psys_log_def handled_def)
next
  case (applied i e es p o')
  have I: "op_inv (Clients s i)"
    using inv ops applied(2) client_run_inv(1) [of "ops i" P "Clients s i" es]
    by (auto simp: psys_inv_but_def program_ops_def dest: spec [of _ i])
  have "p \<in> op_addrs (ops i)"
    using op_client.applies_addrs [OF applied(4)] psys_inv_addrs [OF inv ops] by simp
  then have "p \<in> op_addrs (ops j) \<longleftrightarrow> j = i" for j using ops by (auto simp: program_ops_def)
  then show ?thesis
    using log applied osys_apply_unchanged [OF applied(3)]
      list_effects_applied [OF op_client.step_effects [OF I psys_apply_enabled [OF inv ops applied(3-5)], of P]]
    by (simp add: psys_log_def handled_def)
next
  case (access x o')
  then show ?thesis using log osys_do_step [OF access(3)] by (simp add: psys_log_def)
qed

lemma psys_run_log:
  assumes "psys_run P acts (psys_init nx ops) = Some s" "program_ops ops"
  shows "psys_log ops s"
proof -
  have "psys_log ops (psys_init nx ops)"
    using assms(2)
    by (simp add: psys_log_def psys_init_def osys_init_def program_ops_def op_client.fresh_tr)
  with psys_inv_init [OF assms(2)]
  have "psys_inv P nx ops (psys_init nx ops) \<and> psys_log ops (psys_init nx ops)" by blast
  from psys_run_induct [where Q = "\<lambda>s. psys_inv P nx ops s \<and> psys_log ops s", OF assms(1) this]
  show ?thesis using psys_do_inv psys_do_log assms(2) by blast
qed

section \<open>The library alone brings the list to rest\<close>

definition quiescent :: "'a osys \<Rightarrow> bool" where
  "quiescent o' \<longleftrightarrow> (\<forall>t. pcs o' t = PIdle) \<and> lpc o' = LWait \<and> \<not> AsyncPending o'"

text \<open>The actions that need neither the program nor libuv.\<close>

fun library_action :: "psys_action \<Rightarrow> bool" where
  "library_action (ApplyOp i e) = True"
| "library_action (ListAccess a) = True"
| "library_action a = False"

definition library_runs :: "platform \<Rightarrow> 'c psys \<Rightarrow> 'c psys \<Rightarrow> bool" where
  "library_runs P s s' \<longleftrightarrow> (\<exists>acts. list_all library_action acts \<and> psys_run P acts s = Some s')"

lemma library_runs_refl [intro]: "library_runs P s s"
  unfolding library_runs_def by (intro exI [of _ "[]"]) simp

lemma psys_run_append:
  "psys_run P (as @ bs) s = Option.bind (psys_run P as s) (psys_run P bs)"
  by (induction as arbitrary: s) (auto split: option.splits)

lemma library_runs_trans [trans]:
  assumes "library_runs P s s'" "library_runs P s' s''"
  shows "library_runs P s s''"
proof -
  obtain as bs where "list_all library_action as" "psys_run P as s = Some s'"
    "list_all library_action bs" "psys_run P bs s' = Some s''"
    using assms by (auto simp: library_runs_def)
  then show ?thesis
    unfolding library_runs_def by (intro exI [of _ "as @ bs"]) (simp add: psys_run_append)
qed

lemma library_runs_do: "library_action a \<Longrightarrow> psys_do P a s = Some s' \<Longrightarrow> library_runs P s s'"
  unfolding library_runs_def by (intro exI [of _ "[a]"]) simp

lemma library_runs_access:
  assumes "osys_do x (Os s) = Some o'" "of_loop x \<longrightarrow> pcs (Os s) 0 = PIdle"
  shows "library_runs P s (s\<lparr>Os := o'\<rparr>)"
  by (rule library_runs_do [of "ListAccess x"]) (use assms in auto)

lemma library_runs_inv:
  assumes "library_runs P s s'" "psys_inv P nx ops s" "program_ops ops"
  shows "psys_inv P nx ops s'"
proof -
  obtain acts where "psys_run P acts s = Some s'" using assms(1) by (auto simp: library_runs_def)
  from psys_run_induct [where Q = "psys_inv P nx ops", OF this assms(2) psys_do_inv [OF _ _ assms(3)]]
  show ?thesis .
qed

text \<open>A thread inside \<open>Schedule\<close> gets out of it when it runs alone.\<close>

definition thread_frame :: "nat \<Rightarrow> 'c psys \<Rightarrow> 'c psys \<Rightarrow> bool" where
  "thread_frame t s s' \<longleftrightarrow> (\<forall>u. u \<noteq> t \<longrightarrow> pcs (Os s') u = pcs (Os s) u) \<and>
     lpc (Os s') = lpc (Os s) \<and> Clients s' = Clients s \<and> Runs s' = Runs s"

lemma thread_frame_trans: "thread_frame t a b \<Longrightarrow> thread_frame t b c \<Longrightarrow> thread_frame t a c"
  by (simp add: thread_frame_def)

definition thread_returns :: "platform \<Rightarrow> nat \<Rightarrow> 'c psys \<Rightarrow> bool" where
  "thread_returns P t s \<longleftrightarrow>
     (\<exists>s'. library_runs P s s' \<and> thread_frame t s s' \<and> pcs (Os s') t = PIdle)"

lemma thread_returns_access:
  assumes "osys_do x (Os s) = Some o'" "\<not> of_loop x" "thread_frame t s (s\<lparr>Os := o'\<rparr>)"
    and "thread_returns P t (s\<lparr>Os := o'\<rparr>)"
  shows "thread_returns P t s"
  using assms library_runs_access [of x s o' P] library_runs_trans thread_frame_trans
  unfolding thread_returns_def by blast

lemma thread_returns_idle: "pcs (Os s) t = PIdle \<Longrightarrow> thread_returns P t s"
  unfolding thread_returns_def thread_frame_def by blast

lemma thread_returns_fire: "pcs (Os s) t = PFire \<Longrightarrow> thread_returns P t s"
  by (rule thread_returns_access [of "FireAsync t" _
        "(Os s)\<lparr>pcs := (pcs (Os s))(t := PIdle), AsyncPending := True\<rparr>"])
    (simp_all add: thread_frame_def thread_returns_idle)

lemma thread_returns_cas:
  assumes "pcs (Os s) t = PCas op (OpHead (ol (Os s)))"
  shows "thread_returns P t s"
  by (rule thread_returns_access [of "CasHead t False" _
        "(Os s)\<lparr>ol := (ol (Os s))\<lparr>OpHead := Some op\<rparr>, pcs := (pcs (Os s))(t := PFire),
          scheduled := scheduled (Os s) @ [op]\<rparr>"])
    (use assms in \<open>simp_all add: push_cas_def thread_frame_def thread_returns_fire\<close>)

lemma thread_returns_store_head:
  assumes "pcs (Os s) t = PStore op (OpHead (ol (Os s)))"
  shows "thread_returns P t s"
  by (rule thread_returns_access [of "StoreNext t" _
        "(Os s)\<lparr>ol := push_store op (OpHead (ol (Os s))) (ol (Os s)),
          pcs := (pcs (Os s))(t := PCas op (OpHead (ol (Os s))))\<rparr>"])
    (use assms in \<open>simp_all add: push_store_def thread_frame_def thread_returns_cas [of _ _ op]\<close>)

lemma thread_returns_cas_any:
  assumes "pcs (Os s) t = PCas op c"
  shows "thread_returns P t s"
proof (cases "OpHead (ol (Os s)) = c")
  case True
  then show ?thesis using assms thread_returns_cas [of s t op] by simp
next
  case False
  show ?thesis
    by (rule thread_returns_access [of "CasHead t False" _
          "(Os s)\<lparr>pcs := (pcs (Os s))(t := PStore op (OpHead (ol (Os s))))\<rparr>"])
      (use assms False in
        \<open>simp_all add: push_cas_def thread_frame_def thread_returns_store_head [of _ _ op]\<close>)
qed

lemma thread_returns_store:
  assumes "pcs (Os s) t = PStore op c"
  shows "thread_returns P t s"
  by (rule thread_returns_access [of "StoreNext t" _
        "(Os s)\<lparr>ol := push_store op c (ol (Os s)), pcs := (pcs (Os s))(t := PCas op c)\<rparr>"])
    (use assms in \<open>simp_all add: thread_frame_def thread_returns_cas_any [of _ _ op c]\<close>)

lemma thread_returns_any: "thread_returns P t s"
proof (cases "pcs (Os s) t")
  case (PLoad op)
  show ?thesis
    by (rule thread_returns_access [of "LoadHead t" _
          "(Os s)\<lparr>pcs := (pcs (Os s))(t := PStore op (OpHead (ol (Os s))))\<rparr>"])
      (use PLoad in \<open>simp_all add: thread_frame_def
        thread_returns_store [of _ _ op "OpHead (ol (Os s))"]\<close>)
qed (blast intro: thread_returns_idle thread_returns_store thread_returns_cas_any
    thread_returns_fire)+

text \<open>How much there is to do: the applications still to come, the threads inside \<open>Schedule\<close>, and the accesses of the loop's
  thread up to its return to libuv.\<close>

definition psys_finite :: "'c psys \<Rightarrow> bool" where
  "psys_finite s \<longleftrightarrow> finite {t. pcs (Os s) t \<noteq> PIdle} \<and> finite {i. Runs s i \<noteq> None}"

definition total_work :: "'c psys \<Rightarrow> nat" where
  "total_work s = (\<Sum>i | Runs s i \<noteq> None. op_work (Clients s i))"

fun phase_work :: "'a lpc \<Rightarrow> 'b list \<Rightarrow> 'b list \<Rightarrow> nat" where
  "phase_work LWait xs us = 0"
| "phase_work LGrab xs us = 3 + length xs"
| "phase_work (LReverse c t) xs us = 2 + length us"
| "phase_work (LApply p) xs us = 1"

definition loop_work :: "ptr osys \<Rightarrow> nat \<Rightarrow> bool" where
  "loop_work o' n \<longleftrightarrow> (\<exists>xs us vs. osys_inv o' xs us vs \<and>
     n = phase_work (lpc o') xs us + (if AsyncPending o' then 5 + length xs else 0))"

fun actor :: "list_action \<Rightarrow> nat" where
  "actor (LoadHead t) = t"
| "actor (StoreNext t) = t"
| "actor (CasHead t b) = t"
| "actor (FireAsync t) = t"
| "actor a = 0"

lemma osys_do_others:
  assumes "osys_do a o' = Some o''" "u \<noteq> actor a"
  shows "pcs o'' u = pcs o' u"
  using assms by (cases a) (auto split: ppc.splits lpc.splits option.splits prod.splits if_splits)

lemma call_schedule_others: "u \<noteq> t \<Longrightarrow> pcs (call_schedule t qs o') u = pcs o' u"
  by (simp add: call_schedule_def split: list.split)

lemma finite_idle_others:
  assumes "finite {t. pc t \<noteq> PIdle}" "\<And>u. u \<noteq> t \<Longrightarrow> pc' u = pc u"
  shows "finite {t. pc' t \<noteq> PIdle}"
proof (rule finite_subset)
  show "{t. pc' t \<noteq> PIdle} \<subseteq> insert t {t. pc t \<noteq> PIdle}"
  proof
    fix u
    assume "u \<in> {t. pc' t \<noteq> PIdle}"
    then show "u \<in> insert t {t. pc t \<noteq> PIdle}" using assms(2) [of u] by (cases "u = t") simp_all
  qed
  show "finite (insert t {t. pc t \<noteq> PIdle})" using assms(1) by simp
qed

lemma handled_finite:
  assumes "psys_finite s"
  shows "psys_finite (handled t i c es s)"
proof -
  have "finite {j. ((Runs s)(i := Some es)) j \<noteq> None}"
    by (rule finite_subset [of _ "insert i {j. Runs s j \<noteq> None}"])
      (use assms in \<open>auto simp: psys_finite_def split: if_splits\<close>)
  moreover have "finite {u. pcs (call_schedule t qs (Os s)) u \<noteq> PIdle}" for qs
    by (rule finite_idle_others [of "pcs (Os s)" t])
      (use assms in \<open>simp_all add: psys_finite_def call_schedule_others\<close>)
  ultimately show ?thesis by (simp add: psys_finite_def handled_def)
qed

lemma psys_do_finite:
  assumes "psys_do P a s = Some s'" "psys_finite s"
  shows "psys_finite s'"
  using assms(1)
proof (cases rule: psys_do_cases)
  case (applied i e es p o')
  have "psys_finite (s\<lparr>Os := o'\<rparr>)"
    using assms(2) osys_apply_unchanged [OF applied(3)] by (simp add: psys_finite_def)
  then show ?thesis using applied(7) by (simp add: handled_finite)
next
  case (access x o')
  have "finite {u. pcs o' u \<noteq> PIdle}"
    by (rule finite_idle_others [of "pcs (Os s)" "actor x"])
      (use assms(2) osys_do_others [OF access(3)] in \<open>simp_all add: psys_finite_def\<close>)
  then show ?thesis using access assms(2) by (simp add: psys_finite_def)
qed (use handled_finite assms(2) in simp_all)

lemma psys_run_finite:
  assumes "psys_run P acts s = Some s'" "psys_finite s"
  shows "psys_finite s'"
  by (rule psys_run_induct [where Q = psys_finite, OF assms]) (rule psys_do_finite)

lemma psys_init_finite: "psys_finite (psys_init nx ops)"
  by (simp add: psys_finite_def psys_init_def osys_init_def)

lemma loop_access_decreases:
  assumes "loop_work o' n" "lpc o' = LWait \<longrightarrow> AsyncPending o'" "\<forall>p. lpc o' \<noteq> LApply (Some p)"
  shows "\<exists>x o'' m. osys_do x o' = Some o'' \<and> pcs o'' = pcs o' \<and> loop_work o'' m \<and> m < n"
proof -
  obtain xs us vs where inv: "osys_inv o' xs us vs"
    and n: "n = phase_work (lpc o') xs us + (if AsyncPending o' then 5 + length xs else 0)"
    using assms(1) by (auto simp: loop_work_def)
  have dec: ?thesis
    if "osys_do x o' = Some o''" "pcs o'' = pcs o'" "osys_inv o'' xs' us' vs'"
      "phase_work (lpc o'') xs' us' + (if AsyncPending o'' then 5 + length xs' else 0) < n"
    for x o'' xs' us' vs'
    using that unfolding loop_work_def by blast
  show ?thesis
  proof (cases "lpc o'")
    case LWait
    then show ?thesis
      using assms(2) n by (intro dec [OF _ _ osys_inv_loop(1) [OF inv LWait], of WakeLoop]) simp_all
  next
    case LGrab
    obtain p l where pl: "grab_exchange (ol o') = (p, l)" by fastforce
    show ?thesis
      by (rule dec [OF _ _ osys_inv_loop(2) [OF inv LGrab pl], of ExchangeHead])
        (use LGrab pl n in simp_all)
  next
    case (LReverse c t)
    show ?thesis
    proof (cases c)
      case None
      then show ?thesis
        using LReverse n
        by (intro dec [OF _ _ osys_inv_loop(3) [OF inv], of TurnedAll t]) simp_all
    next
      case (Some cur)
      obtain a b l where tn: "grab_turn cur t (ol o') = ((a, b), l)" by (metis surj_pair)
      have "us \<noteq> []"
        using inv LReverse Some by (auto simp: osys_inv_def heap_inv_def op_chain_Some)
      then show ?thesis
        using LReverse Some tn n
        by (intro dec [OF _ _ osys_inv_turn [OF inv _ tn], of TurnNode]) simp_all
    qed
  next
    case (LApply p)
    then have "p = None" using assms(3) by (cases p) auto
    then show ?thesis
      using LApply n by (intro dec [OF _ _ osys_inv_loop(4) [OF inv], of AppliedAll]) simp_all
  qed
qed

lemma total_work_apply:
  assumes "psys_finite s" "Runs s i = Some es" "op_work c < op_work (Clients s i)"
  shows "total_work (handled t i c es' (s\<lparr>Os := o'\<rparr>)) < total_work s"
proof -
  have "{j. ((Runs s)(i := Some es')) j \<noteq> None} = {j. Runs s j \<noteq> None}" using assms(2) by auto
  then have "total_work (handled t i c es' (s\<lparr>Os := o'\<rparr>)) =
      (\<Sum>j | Runs s j \<noteq> None. op_work (((Clients s)(i := c)) j))"
    by (simp add: total_work_def handled_def)
  also have "\<dots> < total_work s"
    unfolding total_work_def using assms
    by (intro sum_strict_mono_ex1) (auto simp: psys_finite_def)
  finally show ?thesis .
qed

text \<open>An operation whose address is at the front of the chain can be applied.\<close>

lemma apply_front:
  assumes inv: "psys_inv P nx ops s" and ops: "program_ops ops"
    and front: "lpc (Os s) = LApply (Some p)" and idle: "pcs (Os s) 0 = PIdle"
    and fin: "psys_finite s"
  shows "\<exists>a s'. library_action a \<and> psys_do P a s = Some s' \<and> total_work s' < total_work s"
proof -
  obtain o' where app: "osys_apply (Os s) = Some (p, o')" using front by (simp add: osys_apply_def)
  obtain i where q: "queued p (op_trace (Clients s i))"
    using osys_apply_Pending [of nx, OF _ app] inv by (auto simp: psys_inv_but_def)
  have run: "client_run P (ops i) (Clients s i) (Runs s i)" and fr: "op_fresh (ops i)"
    using inv ops by (simp_all add: psys_inv_but_def program_ops_def)
  then obtain es where es: "Runs s i = Some es"
    using q op_client.fresh_tr [OF fr] by (cases "Runs s i") (auto simp: client_run_def)
  have "p \<in> op_addrs (Clients s i)"
    using client_run_queued [OF fr run q] psys_inv_addrs [OF inv ops] by simp
  then obtain e where e: "op_applies e (Clients s i) = Some p" "op_ok e (Clients s i)"
    using op_client.applies_of_addrs by blast
  have "op_work (op_step P e (Clients s i)) < op_work (Clients s i)"
    using client_run_inv(1) [OF fr] run es psys_apply_enabled [OF inv ops app e] e(1)
    by (intro op_client.work_step) auto
  from total_work_apply [OF fin es this] show ?thesis
    using app es e idle by (intro exI [of _ "ApplyOp i e"]) simp
qed

lemma loop_work_exists: "psys_inv P nx ops s \<Longrightarrow> \<exists>n. loop_work (Os s) n"
  unfolding psys_inv_but_def loop_work_def using osys_reach_inv by blast

definition rest_measure :: "'c psys \<Rightarrow> nat \<Rightarrow> nat \<times> nat \<times> nat" where
  "rest_measure s n = (total_work s, card {t. pcs (Os s) t \<noteq> PIdle}, n)"

abbreviation rest_order :: "((nat \<times> nat \<times> nat) \<times> (nat \<times> nat \<times> nat)) set" where
  "rest_order \<equiv> less_than <*lex*> less_than <*lex*> less_than"

text \<open>Whatever the state, the library's own actions bring it nearer to rest.\<close>

lemma library_progress:
  assumes inv: "psys_inv P nx ops s" and ops: "program_ops ops" and fin: "psys_finite s"
    and work: "loop_work (Os s) n" and busy: "\<not> quiescent (Os s)"
  shows "\<exists>s' m. library_runs P s s' \<and> loop_work (Os s') m \<and>
    (rest_measure s' m, rest_measure s n) \<in> rest_order"
proof (cases "\<exists>t. pcs (Os s) t \<noteq> PIdle")
  case True
  then obtain t where t: "pcs (Os s) t \<noteq> PIdle" by blast
  obtain s' where s': "library_runs P s s'" "thread_frame t s s'" "pcs (Os s') t = PIdle"
    using thread_returns_any [of P t s] by (auto simp: thread_returns_def)
  obtain m where m: "loop_work (Os s') m"
    using loop_work_exists [OF library_runs_inv [OF s'(1) inv ops]] by blast
  have "pcs (Os s) u \<noteq> PIdle" if "pcs (Os s') u \<noteq> PIdle" for u
    using that s'(2,3) by (cases "u = t") (simp_all add: thread_frame_def)
  then have "{u. pcs (Os s') u \<noteq> PIdle} \<subset> {u. pcs (Os s) u \<noteq> PIdle}"
    using t s'(3) by blast
  then have "card {u. pcs (Os s') u \<noteq> PIdle} < card {u. pcs (Os s) u \<noteq> PIdle}"
    using fin by (intro psubset_card_mono) (auto simp: psys_finite_def)
  moreover have "total_work s' = total_work s"
    using s'(2) by (simp add: thread_frame_def total_work_def)
  ultimately show ?thesis using s'(1) m by (auto simp: rest_measure_def)
next
  case False
  then have idle: "pcs (Os s) t = PIdle" for t by simp
  show ?thesis
  proof (cases "\<exists>p. lpc (Os s) = LApply (Some p)")
    case True
    then obtain a s' where "library_runs P s s'" "total_work s' < total_work s"
      using apply_front [OF inv ops _ idle fin] library_runs_do by blast
    moreover from this obtain m where "loop_work (Os s') m"
      using loop_work_exists [OF library_runs_inv [OF _ inv ops]] by blast
    ultimately show ?thesis by (auto simp: rest_measure_def)
  next
    case False
    then obtain x o' m where x: "osys_do x (Os s) = Some o'" "pcs o' = pcs (Os s)"
        "loop_work o' m" "m < n"
      using loop_access_decreases [OF work] busy idle by (auto simp: quiescent_def)
    have "library_runs P s (s\<lparr>Os := o'\<rparr>)" by (rule library_runs_access [OF x(1)]) (simp add: idle)
    then show ?thesis
      using x by (intro exI [of _ "s\<lparr>Os := o'\<rparr>"] exI [of _ m])
        (simp add: rest_measure_def total_work_def)
  qed
qed

lemma comes_to_rest:
  assumes "psys_inv P nx ops s" "program_ops ops" "psys_finite s"
  shows "\<exists>s'. library_runs P s s' \<and> quiescent (Os s')"
proof -
  have wf: "wf rest_order" by (simp add: wf_lex_prod)
  have rest: "r = rest_measure s n \<Longrightarrow> psys_inv P nx ops s \<Longrightarrow> psys_finite s \<Longrightarrow>
      loop_work (Os s) n \<Longrightarrow> \<exists>s'. library_runs P s s' \<and> quiescent (Os s')" for r s n
  proof (induction r arbitrary: s n rule: wf_induct_rule [OF wf])
    case (1 r)
    show ?case
    proof (cases "quiescent (Os s)")
      case False
      then obtain s' m where s': "library_runs P s s'" "loop_work (Os s') m"
          "(rest_measure s' m, r) \<in> rest_order"
        using library_progress [OF 1(3) assms(2) 1(4,5)] 1(2) by blast
      have "psys_finite s'" using s'(1) 1(4) psys_run_finite by (auto simp: library_runs_def)
      from 1(1) [OF s'(3) refl library_runs_inv [OF s'(1) 1(3) assms(2)] this s'(2)]
      show ?thesis using s'(1) library_runs_trans by blast
    qed blast
  qed
  obtain n where "loop_work (Os s) n" using loop_work_exists [OF assms(1)] by blast
  from rest [OF refl assms(1,3) this] show ?thesis .
qed

section \<open>A program with a timer and two other operations\<close>

text \<open>
  Thread 1 starts a timer operation and thread 2 an operation of \<open>schedule\<close>, their calls of \<open>Schedule\<close> interleaved so that one
  compare-and-exchange fails; the loop applies both; thread 3 requests the stop of the timer before it fires.
\<close>

definition sample_ops :: "nat \<Rightarrow> unit loop_op" where
  "sample_ops i =
     (if i = 0 then TimerScheduleOp (TAfterScheduleOpState_new After 0 1 7 8 False 100)
      else ScheduleOp (TScheduleOpState_new (i + 1) False))"

definition sample_started :: "psys_action list" where
  "sample_started =
     [StartOp 1 0, StartOp 2 1, ListAccess (LoadHead 1), ListAccess (LoadHead 2), ListAccess (StoreNext 1),
      ListAccess (StoreNext 2), ListAccess (CasHead 1 False), ListAccess (CasHead 2 False)]"

definition sample_applied :: "psys_action list" where
  "sample_applied =
     [ListAccess (StoreNext 2), ListAccess (CasHead 2 False), ListAccess (FireAsync 2),
      ListAccess (FireAsync 1), ListAccess WakeLoop, ListAccess ExchangeHead, ListAccess TurnNode,
      ListAccess TurnNode, ListAccess TurnedAll, ApplyOp 0 (OneshotEvent (Begin (\<lambda>_. 0) 5)),
      ApplyOp 1 (ScheduleEvent ScApply), ListAccess AppliedAll]"

definition sample_stopped :: "psys_action list" where
  "sample_stopped =
     [Deliver 3 0 (OneshotEvent RequestStop), ListAccess (LoadHead 3), ListAccess (StoreNext 3),
      ListAccess (CasHead 3 False), ListAccess (FireAsync 3), ListAccess WakeLoop,
      ListAccess ExchangeHead, ListAccess TurnNode, ListAccess TurnedAll,
      ApplyOp 0 (OneshotEvent (RunStop (\<lambda>_. 0))), ListAccess AppliedAll,
      Deliver 0 0 (OneshotEvent HandleClosed)]"

definition sample_run :: "psys_action list \<Rightarrow> unit psys option" where
  "sample_run acts = psys_run sample_platform acts (psys_init (\<lambda>_. None) sample_ops)"

lemma sample_program: "program_ops sample_ops"
  by (auto simp: program_ops_def sample_ops_def timer_schedule_fresh_def cop_fresh_def schedule_fresh_def
      TAfterScheduleOpState_new_def TScheduleOpState_new_def TStopOperation_new_def self_addrs_def)

lemma sample_whole_run:
  "\<exists>s. sample_run (sample_started @ sample_applied @ sample_stopped) = Some s \<and>
     completions (op_trace (Clients s 0)) = [SetStopped] \<and>
     completions (op_trace (Clients s 1)) = [SetValue []] \<and> applied (Os s) = [0, 2, 1] \<and>
     Runs s 0 \<noteq> None \<and> Runs s 1 \<noteq> None"
proof -
  have "case sample_run (sample_started @ sample_applied @ sample_stopped) of None \<Rightarrow> False
    | Some s \<Rightarrow> completions (op_trace (Clients s 0)) = [SetStopped] \<and>
     completions (op_trace (Clients s 1)) = [SetValue []] \<and> applied (Os s) = [0, 2, 1] \<and>
     Runs s 0 \<noteq> None \<and> Runs s 1 \<noteq> None"
    by code_simp
  then show ?thesis by (simp split: option.splits)
qed

lemma oneshot_outcome_once: "oneshot_outcome h err tok es tr \<Longrightarrow> length (completions tr) \<le> 1"
  unfolding oneshot_outcome_def by (elim conjE)

lemma stream_outcome_once: "stream_outcome decide h err tok a es tr \<Longrightarrow> length (completions tr) \<le> 1"
  unfolding stream_outcome_def by (elim conjE)

lemma op_outcome_once:
  assumes "op_outcome P op es tr"
  shows "length (completions tr) \<le> 1"
proof (cases op)
  case (ScheduleOp x)
  then show ?thesis using assms by (simp split: option.splits)
qed (use assms in \<open>simp only: op_outcome.simps, blast intro: oneshot_outcome_once stream_outcome_once\<close>)+

lemma client_run_outcome:
  assumes "op_fresh op" "client_run P op c (Some es)"
  shows "op_outcome P op es (op_trace c)"
  using op_run_outcome [OF assms(1), of P es] assms(2) by (simp add: client_run_def)

lemma schedule_waits_or_done:
  assumes "admissible schedule_enabled TScheduleOpState_step op es"
    and "queued (SelfPtr op) (trace op) \<or> completions (trace op) \<noteq> []"
  shows "queued (SelfPtr (fold TScheduleOpState_step es op)) (trace (fold TScheduleOpState_step es op)) \<or>
    completions (trace (fold TScheduleOpState_step es op)) \<noteq> []"
  using assms
proof (induction es arbitrary: op)
  case (Cons e es)
  then have "queued (SelfPtr (TScheduleOpState_step e op)) (trace (TScheduleOpState_step e op)) \<or>
      completions (trace (TScheduleOpState_step e op)) \<noteq> []"
    by (cases e) (auto simp: TScheduleOpState_Apply_def)
  with Cons show ?case by simp
qed simp

lemma started_schedule_waits_or_done:
  assumes "client_run P (ScheduleOp op) c (Some es)" "op_fresh (ScheduleOp op :: 'c loop_op)"
    and "\<And>p. \<not> queued p (op_trace (c :: 'c loop_op))"
  shows "completions (op_trace c) \<noteq> []"
proof -
  have run: "admissible op_enabled (op_step P) (op_begin (ScheduleOp op :: 'c loop_op)) es"
    "c = fold (op_step P) es (op_begin (ScheduleOp op))"
    using assms(1) by (simp_all add: client_run_def)
  have "admissible schedule_enabled TScheduleOpState_step (TScheduleOpState_start op) (schedule_events es) \<and>
      fold (op_step P) es (ScheduleOp (TScheduleOpState_start op) :: 'c loop_op) =
        ScheduleOp (fold TScheduleOpState_step (schedule_events es) (TScheduleOpState_start op))"
    unfolding schedule_events_def
    by (rule embedded_run) (use run(1) in \<open>auto split: loop_event.splits\<close>)
  moreover have "queued (SelfPtr (TScheduleOpState_start op)) (trace (TScheduleOpState_start op))"
    using assms(2) by (simp add: schedule_fresh_def TScheduleOpState_start_def handler_defs queued_def)
  ultimately show ?thesis
    using schedule_waits_or_done run(2) assms(3) by (metis op_begin.simps(1) op_trace.simps(1))
qed

lemma psys_do_started:
  assumes "psys_do P a s = Some s'" "Runs s i \<noteq> None"
  shows "Runs s' i \<noteq> None"
  using assms(1) by (cases rule: psys_do_cases) (use assms(2) in \<open>auto simp: handled_def\<close>)

section \<open>Properties\<close>

text \<open>
  C3: in every run of a program of any number of operations of all classes, started, stopped and applied on any
  interleaving of threads: the list stays the one whose guarantees Operation_List proves (in particular no operation
  is pushed while it is in the list); every operation has been through a run that its own contract
  admits, although the loop applies whatever the list hands it; the loop holds exactly the addresses that the operations take to be queued; and
  each operation is applied in the order of the list.
\<close>

theorem operation_list_serves_every_operation:
  assumes "program_ops ops" "psys_run P acts (psys_init nx ops) = Some s"
  shows "osys_reach nx (Os s) \<and>
    (\<forall>i. client_run P (ops i) (Clients s i) (Runs s i)) \<and>
    (\<forall>p. p \<in> Pending (Os s) \<longleftrightarrow> (\<exists>i. queued p (op_trace (Clients s i)))) \<and>
    (\<forall>i. applied_in (op_trace (Clients s i)) = filter (\<lambda>p. p \<in> op_addrs (ops i)) (applied (Os s)))"
  using psys_run_inv [OF assms(2,1)] psys_run_log [OF assms(2,1)]
  by (simp add: psys_inv_but_def psys_log_def)

theorem operation_list_serves_every_operation_witness:
  "\<exists>s. sample_run (sample_started @ sample_applied @ sample_stopped) = Some s \<and>
     applied_in (op_trace (Clients s 0)) = [0, 1] \<and> applied_in (op_trace (Clients s 1)) = [2]"
proof -
  obtain s where s: "sample_run (sample_started @ sample_applied @ sample_stopped) = Some s"
    "applied (Os s) = [0, 2, 1]" using sample_whole_run by blast
  have "\<forall>i. applied_in (op_trace (Clients s i)) = filter (\<lambda>p. p \<in> op_addrs (sample_ops i)) (applied (Os s))"
    using operation_list_serves_every_operation [OF sample_program s(1) [unfolded sample_run_def]] by blast
  then show ?thesis
    using s by (intro exI [of _ s]) (simp add: sample_ops_def self_addrs_def TAfterScheduleOpState_new_def
        TScheduleOpState_new_def TStopOperation_new_def)
qed

text \<open>
  C4: in every such run, the handles of timers and signals being initialised when they begin, each started operation has completed at most once,
  with the completion its contract owes for the events it has seen, and has kept the rest of its contract: handles closed and released,
  reading switched off, nothing undefined. Where \<open>uv_timer_init\<close> or \<open>uv_signal_init\<close> fails instead (the latter may), the operation completes
  with that error and goes on: it starts the handle that was not initialised, which completes it twice at once when that fails and leaves
  the handle active otherwise.
\<close>

theorem mixed_operations_complete_as_owed:
  assumes "program_ops ops" "psys_run P acts (psys_init nx ops) = Some s" "Runs s i = Some es"
  shows "op_outcome P (ops i) es (op_trace (Clients s i)) \<and>
    length (completions (op_trace (Clients s i))) \<le> 1 \<and>
    (\<forall>env0 now0 env now h call.
       op_enabled (OneshotEvent (Begin env0 now0)) (Clients s i) \<and> op_init (Clients s i) = Some (h, call) \<and> IsError (env call) \<longrightarrow>
       failed_init h (EErrc (env call)) (op_start_error (Begin env now) (Clients s i))
         (op_trace (op_step P (OneshotEvent (Begin env now)) (Clients s i))))"
proof -
  have run: "client_run P (ops i) (Clients s i) (Some es)" "op_fresh (ops i)"
    using psys_run_inv [OF assms(2,1)] assms(1,3)
    by (auto simp: psys_inv_but_def program_ops_def dest: spec [of _ i])
  then have o: "op_outcome P (ops i) es (op_trace (Clients s i))"
    using client_run_outcome by blast
  show ?thesis using o op_outcome_once [OF o] op_init_fails [OF client_run_inv(1) [OF run(2,1)]] by blast
qed

theorem mixed_operations_complete_as_owed_witness:
  "\<exists>s es. sample_run (sample_started @ sample_applied @ sample_stopped) = Some s \<and> Runs s 0 = Some es \<and>
     completions (op_trace (Clients s 0)) = [SetStopped] \<and>
     op_outcome sample_platform (sample_ops 0) es (op_trace (Clients s 0))"
proof -
  obtain s es where s: "sample_run (sample_started @ sample_applied @ sample_stopped) = Some s"
    "completions (op_trace (Clients s 0)) = [SetStopped]" "Runs s 0 = Some es"
    using sample_whole_run by auto
  then show ?thesis
    using mixed_operations_complete_as_owed [OF sample_program s(1) [unfolded sample_run_def] s(3)] by blast
qed

text \<open>
  C22: \<open>sync_wait\<close> on an operation of such a run returns exactly when the operation has completed, and returns its completion: the value,
  nothing when it was stopped, and it throws its exception or a \<open>system_error\<close> with its code. The waiting thread is woken as often as the
  operation has completed, never twice. An error of any type, also one the library does not send, is held as the exception that is to be
  thrown, and wakes the thread once.
\<close>

theorem sync_wait_returns_the_completion:
  assumes "program_ops ops" "psys_run P acts (psys_init nx ops) = Some s"
  shows "sync_wait_result None (completions (op_trace (Clients s i))) =
      (case completions (op_trace (Clients s i)) of
         [] \<Rightarrow> None
       | c # cs \<Rightarrow> Some (case c of
             SetValue vs \<Rightarrow> Inr (Some vs) | SetStopped \<Rightarrow> Inr None
           | SetError e \<Rightarrow> Inl (SystemError e) | SetException x \<Rightarrow> Inl (Exception x))) \<and>
    Wakeups (fold (wait_receive None) (completions (op_trace (Clients s i))) \<lparr>Destination = Monostate, Wakeups = 0\<rparr>) =
      length (completions (op_trace (Clients s i))) \<and>
    length (completions (op_trace (Clients s i))) \<le> 1 \<and>
    (\<forall>err r. Wakeups (TSyncWaitReceiver_set_error err r) = Wakeups (r :: size_t list TSyncWaitReceiver) + 1 \<and>
       UnwrapSyncWaitReceiverState (Destination (TSyncWaitReceiver_set_error err r)) =
         Inl (case err of ExceptionPtr x \<Rightarrow> x | ErrorCode e \<Rightarrow> SystemError e | OtherError v \<Rightarrow> ErrorValue v))"
proof -
  let ?cs = "completions (op_trace (Clients s i))"
  have run: "client_run P (ops i) (Clients s i) (Runs s i)" "op_fresh (ops i)"
    using psys_run_inv [OF assms(2,1)] assms(1)
    by (auto simp: psys_inv_but_def program_ops_def dest: spec [of _ i])
  have once: "length ?cs \<le> 1"
  proof (cases "Runs s i")
    case None
    then show ?thesis using run op_client.fresh_tr [OF run(2)] by (simp add: client_run_def)
  next
    case (Some es)
    then show ?thesis using op_outcome_once client_run_outcome run by metis
  qed
  then consider "?cs = []" | c where "?cs = [c]" by (cases ?cs) auto
  then show ?thesis
    by cases (auto simp: sync_wait_one set_error_held split: completion.split)
qed

theorem sync_wait_returns_the_completion_witness:
  "\<exists>s. sample_run (sample_started @ sample_applied @ sample_stopped) = Some s \<and>
     sync_wait_result None (completions (op_trace (Clients s 0))) = Some (Inr None)"
proof -
  obtain s where s: "sample_run (sample_started @ sample_applied @ sample_stopped) = Some s"
    "completions (op_trace (Clients s 0)) = [SetStopped]" using sample_whole_run by auto
  then show ?thesis
    using sync_wait_returns_the_completion [OF sample_program s(1) [unfolded sample_run_def], of 0] by auto
qed

text \<open>
  when every thread has returned from \<open>Schedule\<close> and the loop waits in libuv with no wake-up pending, no operation
  waits to be applied: everything pushed has been applied, every started \<open>schedule\<close> has completed once, and no
  stop request is still to be served.
\<close>

theorem at_rest_nothing_waits:
  assumes "program_ops ops" "psys_run P acts (psys_init nx ops) = Some s" "quiescent (Os s)"
  shows "applied (Os s) = scheduled (Os s) \<and> (\<forall>i p. \<not> queued p (op_trace (Clients s i))) \<and>
    (\<forall>i op. ops i = ScheduleOp op \<and> Runs s i \<noteq> None \<longrightarrow>
       length (completions (op_trace (Clients s i))) = 1)"
proof -
  have inv: "psys_inv P nx ops s" using psys_run_inv [OF assms(2,1)] .
  then have all: "applied (Os s) = scheduled (Os s)" "Pending (Os s) = {}"
    using quiescent_all_applied [of nx "Os s"] assms(3) by (auto simp: psys_inv_but_def quiescent_def)
  then have none: "\<not> queued p (op_trace (Clients s i))" for p i
    using inv by (auto simp: psys_inv_but_def)
  have "length (completions (op_trace (Clients s i))) = 1"
    if "ops i = ScheduleOp op" "Runs s i = Some es" for i op es
  proof -
    have run: "client_run P (ops i) (Clients s i) (Some es)" "op_fresh (ops i)"
      using inv assms(1) that by (auto simp: psys_inv_but_def program_ops_def dest: spec [of _ i])
    then have "length (completions (op_trace (Clients s i))) \<le> 1"
      using op_outcome_once [OF client_run_outcome [OF run(2,1)]] by blast
    moreover have "completions (op_trace (Clients s i)) \<noteq> []"
      using started_schedule_waits_or_done [OF run [unfolded that(1)]] none by blast
    ultimately show ?thesis by (simp add: Suc_le_eq le_antisym)
  qed
  then show ?thesis using all none by auto
qed

theorem at_rest_nothing_waits_witness:
  "\<exists>acts s. sample_run (sample_started @ acts) = Some s \<and> length (completions (op_trace (Clients s 1))) = 1"
proof -
  have "case sample_run sample_started of None \<Rightarrow> False | Some s \<Rightarrow> Runs s 1 \<noteq> None" by code_simp
  then obtain s where s: "sample_run sample_started = Some s" "Runs s 1 \<noteq> None"
    by (auto split: option.splits)
  have inv: "psys_inv sample_platform (\<lambda>_. None) sample_ops s"
    using psys_run_inv [OF s(1) [unfolded sample_run_def] sample_program] .
  have "psys_finite s" using psys_run_finite [OF s(1) [unfolded sample_run_def] psys_init_finite] .
  from comes_to_rest [OF inv sample_program this] obtain acts s' where
    s': "list_all library_action acts" "psys_run sample_platform acts s = Some s'" "quiescent (Os s')"
    by (auto simp: library_runs_def)
  have run: "sample_run (sample_started @ acts) = Some s'"
    using s(1) s'(2) by (simp add: sample_run_def psys_run_append)
  have "Runs s' 1 \<noteq> None"
    by (rule psys_run_induct [where Q = "\<lambda>s. Runs s 1 \<noteq> None", OF s'(2) s(2)]) (rule psys_do_started)
  moreover have "sample_ops 1 = ScheduleOp (TScheduleOpState_new (1 + 1) False)"
    by (simp add: sample_ops_def)
  ultimately have "length (completions (op_trace (Clients s' 1))) = 1"
    using at_rest_nothing_waits [OF sample_program run [unfolded sample_run_def] s'(3)] by blast
  then show ?thesis using run by (intro exI conjI)
qed

text \<open>
  C5: from every reachable state, whatever the program has started and stopped so far, the remaining accesses of the
  threads inside \<open>Schedule\<close> and the applications of the loop suffice to bring the system to rest: no push is lost, no
  wake-up is missing, and the operations that are applied do not push for ever.
\<close>

theorem library_comes_to_rest:
  assumes "program_ops ops" "psys_run P acts (psys_init nx ops) = Some s"
  shows "\<exists>acts' s'. list_all library_action acts' \<and> psys_run P acts' s = Some s' \<and> quiescent (Os s')"
  using comes_to_rest [OF psys_run_inv [OF assms(2,1)] assms(1) psys_run_finite [OF assms(2) psys_init_finite]]
  by (auto simp: library_runs_def)

theorem library_comes_to_rest_witness:
  "\<exists>s acts s'. sample_run sample_started = Some s \<and> pcs (Os s) 2 \<noteq> PIdle \<and> list_all library_action acts \<and>
     psys_run sample_platform acts s = Some s' \<and> quiescent (Os s')"
proof -
  have "case sample_run sample_started of None \<Rightarrow> False | Some s \<Rightarrow> pcs (Os s) 2 \<noteq> PIdle" by code_simp
  then obtain s where s: "sample_run sample_started = Some s" "pcs (Os s) 2 \<noteq> PIdle"
    by (auto split: option.splits)
  from library_comes_to_rest [OF sample_program s(1) [unfolded sample_run_def]] s show ?thesis by blast
qed

end
