(* ===== verification/Handle_Data.thy ===== *)
theory Handle_Data
  imports Loop_System
begin

text \<open>
  The \<open>data\<close> and \<open>loop\<close> fields of libuv's objects (src/uv_util/misc.cpp, include/uvexec/uv_util/misc.hpp): how a callback of libuv
  finds the operation that asked for it, and how an operation finds its loop from a socket. First the fields; then
  the system of Loop_System with the writes \<open>.data = this\<close> of its handlers: the dispatch that
  Loop_System takes for granted is a theorem, and the one case in which it fails is stated.
\<close>

section \<open>The fields\<close>

text \<open>\<open>'v\<close>: what the \<open>void*\<close> points to.\<close>

record 'v uv_fields =
  DataField :: "ptr \<Rightarrow> 'v option"
  LoopField :: "ptr \<Rightarrow> ptr option"

definition GetData :: "ptr \<Rightarrow> 'v uv_fields \<Rightarrow> 'v option" where
  "GetData handle m = DataField m handle"

definition UvStreamGetData :: "ptr \<Rightarrow> 'v uv_fields \<Rightarrow> 'v option" where
  "UvStreamGetData handle m = GetData handle m"

definition SetData :: "ptr \<Rightarrow> 'v \<Rightarrow> 'v uv_fields \<Rightarrow> 'v uv_fields" where
  "SetData handle d m = m\<lparr>DataField := (DataField m)(handle := Some d)\<rparr>"

definition GetLoop :: "ptr \<Rightarrow> 'v uv_fields \<Rightarrow> ptr option" where
  "GetLoop handle m = LoopField m handle"

definition no_fields :: "'v uv_fields" where
  "no_fields = \<lparr>DataField = (\<lambda>_. None), LoopField = (\<lambda>_. None)\<rparr>"

text \<open>libuv's init functions store the loop in the handle.\<close>

definition init_handle :: "ptr \<Rightarrow> ptr \<Rightarrow> 'v uv_fields \<Rightarrow> 'v uv_fields" where
  "init_handle loop handle m = m\<lparr>LoopField := (LoopField m)(handle := Some loop)\<rparr>"

text \<open>The constructor of \<open>TLoop\<close>: \<open>this\<close> goes to the libuv loop, the list of operations to the async handle.\<close>

definition TLoop_ctor_fields ::
    "uvenv \<Rightarrow> ptr \<Rightarrow> ptr \<Rightarrow> TLoop \<Rightarrow> ptr uv_fields \<Rightarrow> (EErrc + unit) \<times> ptr uv_fields" where
  "TLoop_ctor_fields env self scheduled_list l m =
     (case Assert (env (uv_loop_init (UvLoop l))) of
        Inl e \<Rightarrow> (Inl e, m)
      | Inr _ \<Rightarrow>
          let m = SetData (UvLoop l) self m
          in case Assert (env (uv_async_init (UvLoop l) (Async l) ApplyOperationsCallback)) of
               Inl e \<Rightarrow> (Inl e, m)
             | Inr _ \<Rightarrow> (Inr (), SetData (Async l) scheduled_list (init_handle (UvLoop l) (Async l) m)))"

text \<open>The loop that the constructor of a reading operation gives to its stop operation:
  \<open>*static_cast<TLoop*>(GetLoop(RawUvObject(stream)).data)\<close>.\<close>

definition stream_loop :: "ptr \<Rightarrow> 'v uv_fields \<Rightarrow> 'v option" where
  "stream_loop stream m = Option.bind (GetLoop stream m) (\<lambda>loop. GetData loop m)"

text \<open>The list that \<open>ApplyOperations\<close> empties: \<open>static_cast<TOperationList*>(async->data)\<close>.\<close>

definition async_list :: "ptr \<Rightarrow> 'v uv_fields \<Rightarrow> 'v option" where
  "async_list async m = GetData async m"

lemmas field_defs = GetData_def UvStreamGetData_def SetData_def GetLoop_def init_handle_def
  stream_loop_def async_list_def

lemma ctor_fields_agree:
  "fst (TLoop_ctor_fields env self scheduled_list l m) = fst (TLoop_ctor env l)"
  by (simp add: TLoop_ctor_fields_def TLoop_ctor_def handler_defs Assert_def)

lemma data_other_writes:
  "h \<notin> fst ` set ws \<Longrightarrow> DataField (fold (\<lambda>(g, d). SetData g d) ws m) h = DataField m h"
  by (induction ws arbitrary: m) (auto simp: SetData_def)

lemma loop_other_writes: "LoopField (fold (\<lambda>(g, d). SetData g d) ws m) = LoopField m"
  by (induction ws arbitrary: m) (auto simp: SetData_def)

section \<open>The writes of the operations\<close>

text \<open>The handle whose callbacks an operation waits for.\<close>

primrec op_handle :: "'c loop_op \<Rightarrow> ptr option" where
  "op_handle (ScheduleOp op) = None"
| "op_handle (TimerScheduleOp op) = Some (Timer op)"
| "op_handle (TimerOp op) = Some (Timer op)"
| "op_handle (SignalScheduleOp op) = Some (Signal_h op)"
| "op_handle (SignalOp op) = Some (Signal_h op)"
| "op_handle (ReadSomeOp op) = Some (Socket op)"
| "op_handle (ReadUntilOp op) = Some (Socket op)"
| "op_handle (ReceiveOp op) = Some (Socket op)"
| "op_handle (ReceiveFromOp op) = Some (Socket op)"

text \<open>\<open>Apply\<close> and \<open>set_value\<close> of these operations store \<open>this\<close> in the handle before they start it.\<close>

fun stores_this :: "loop_event \<Rightarrow> bool" where
  "stores_this (ScheduleEvent x) = False"
| "stores_this (OneshotEvent x) = (case x of Begin env now \<Rightarrow> True | _ \<Rightarrow> False)"
| "stores_this (ReadSomeEvent x) = (case x of SBegin env b \<Rightarrow> True | _ \<Rightarrow> False)"
| "stores_this (ReadUntilEvent x) = (case x of SBegin env b \<Rightarrow> True | _ \<Rightarrow> False)"
| "stores_this (ReceiveEvent x) = (case x of SBegin env b \<Rightarrow> True | _ \<Rightarrow> False)"
| "stores_this (ReceiveFromEvent x) = (case x of SBegin env b \<Rightarrow> True | _ \<Rightarrow> False)"

definition store_this :: "nat \<Rightarrow> loop_event \<Rightarrow> 'c loop_op \<Rightarrow> nat uv_fields \<Rightarrow> nat uv_fields" where
  "store_this i e c m =
     (if stores_this e then case op_handle c of None \<Rightarrow> m | Some h \<Rightarrow> SetData h i m else m)"

fun data_do :: "psys_action \<Rightarrow> 'c psys \<Rightarrow> nat uv_fields \<Rightarrow> nat uv_fields" where
  "data_do (Deliver t i e) s m = store_this i e (Clients s i) m"
| "data_do (ApplyOp i e) s m = store_this i e (Clients s i) m"
| "data_do a s m = m"

primrec data_run ::
    "platform \<Rightarrow> psys_action list \<Rightarrow> 'c psys \<times> nat uv_fields \<Rightarrow> ('c psys \<times> nat uv_fields) option" where
  "data_run P [] sm = Some sm"
| "data_run P (a # as) sm =
     (case psys_do P a (fst sm) of
        None \<Rightarrow> None
      | Some s' \<Rightarrow> data_run P as (s', data_do a (fst sm) (snd sm)))"

text \<open>The operation that a callback of libuv on a handle enters.\<close>

definition callback_target :: "ptr \<Rightarrow> nat uv_fields \<Rightarrow> nat option" where
  "callback_target handle m = GetData handle m"

section \<open>An operation that has not begun\<close>

text \<open>Until its beginning an operation hears of nothing but stop requests.\<close>

definition stream_idle :: "'a TSocketOp_scheme \<Rightarrow> bool" where
  "stream_idle op \<longleftrightarrow> \<not> active (Socket op) (trace op) \<and> \<not> queued (SelfOp (StopOp op)) (trace op) \<and>
     \<not> StopCallback (StopOp op)"

definition oneshot_idle :: "ptr \<Rightarrow> 'a cop_scheme \<Rightarrow> bool" where
  "oneshot_idle h op \<longleftrightarrow> \<not> active h (trace op) \<and> \<not> closing h (trace op) \<and>
     \<not> queued (SelfOp (StopOp op)) (trace op) \<and> \<not> StopCallback (StopOp op)"

primrec op_idle :: "'c loop_op \<Rightarrow> bool" where
  "op_idle (ScheduleOp op) = True"
| "op_idle (TimerScheduleOp op) = oneshot_idle (Timer op) op"
| "op_idle (TimerOp op) = oneshot_idle (Timer op) op"
| "op_idle (SignalScheduleOp op) = oneshot_idle (Signal_h op) op"
| "op_idle (SignalOp op) = oneshot_idle (Signal_h op) op"
| "op_idle (ReadSomeOp op) = stream_idle op"
| "op_idle (ReadUntilOp op) = stream_idle op"
| "op_idle (ReceiveOp op) = stream_idle op"
| "op_idle (ReceiveFromOp op) = stream_idle op"

lemmas idle_defs = oneshot_idle_def stream_idle_def

lemma op_idle_begin: "op_fresh c \<Longrightarrow> op_idle (op_begin c)"
  by (cases c) (simp_all add: idle_defs client_defs handler_defs timer_schedule_fresh_def
      signal_schedule_fresh_def TAfterScheduleOpState_start_def TAfterOpState_start_def
      TUponSignalScheduleOpState_start_def TUponSignalOpState_start_def TReadSomeOpState_start_def
      TReadUntilOpState_start_def TReceiveOpState_start_def TReceiveFromOpState_start_def)

lemma op_idle_step:
  assumes "op_idle c" "op_enabled e c" "\<not> stores_this e"
  shows "op_idle (op_step P e c)"
proof (cases c)
  case (ScheduleOp x)
  then show ?thesis using assms by (cases e) simp_all
qed (use assms in \<open>cases e; simp split: event.splits sevent.splits; simp add: idle_defs handler_defs\<close>)+

lemma op_idle_quiet: "op_idle c \<Longrightarrow> op_enabled e c \<Longrightarrow> event_origin e \<noteq> InLibuv"
  by (cases c; cases e) (auto simp: idle_defs split: event.splits sevent.splits)

lemma op_idle_run:
  assumes "op_idle c" "admissible op_enabled (op_step P) c es" "\<forall>e \<in> set es. \<not> stores_this e"
  shows "op_idle (fold (op_step P) es c)"
  using assms by (induction es arbitrary: c) (auto intro: op_idle_step)

text \<open>An operation that libuv can call back has stored its \<open>this\<close>.\<close>

lemma called_back_has_begun:
  assumes "op_fresh op" "client_run P op c (Some es)" "op_enabled e c" "event_origin e = InLibuv"
  shows "\<exists>e \<in> set es. stores_this e"
  using op_idle_run [OF op_idle_begin [OF assms(1)], of P es] op_idle_quiet [of c e] assms(2-4)
  by (auto simp: client_run_def)

lemma op_handle_begin: "op_handle (op_begin c) = op_handle c"
  by (cases c) (simp_all add: handler_defs TAfterScheduleOpState_start_def TAfterOpState_start_def
      TUponSignalScheduleOpState_start_def TUponSignalOpState_start_def TReadSomeOpState_start_def
      TReadUntilOpState_start_def TReceiveOpState_start_def TReceiveFromOpState_start_def)

lemma op_handle_step: "op_handle (op_step P e c) = op_handle c"
  by (cases c; cases e) (simp_all add: after_schedule.h_step after.h_step
      upon_signal_schedule.h_step upon_signal.h_step read_some.h_step read_until.h_step
      receive.h_step receive_from.h_step)

lemma op_handle_run:
  assumes "client_run P op c r"
  shows "op_handle c = op_handle op"
proof -
  have "op_handle (fold (op_step P) es r) = op_handle r" for es and r :: "'a loop_op"
    by (induction es arbitrary: r) (simp_all add: op_handle_step)
  then show ?thesis using assms by (simp add: client_run_def op_handle_begin split: option.splits)
qed

section \<open>Callbacks reach their operation\<close>

text \<open>No two operations of the program share a handle.\<close>

definition own_handles :: "(nat \<Rightarrow> 'c loop_op) \<Rightarrow> bool" where
  "own_handles ops \<longleftrightarrow>
     (\<forall>i j h. i \<noteq> j \<and> op_handle (ops i) = Some h \<longrightarrow> op_handle (ops j) \<noteq> Some h)"

definition data_inv :: "(nat \<Rightarrow> 'c loop_op) \<Rightarrow> 'c psys \<Rightarrow> nat uv_fields \<Rightarrow> bool" where
  "data_inv ops s m \<longleftrightarrow>
     (\<forall>i es h. Runs s i = Some es \<and> op_handle (ops i) = Some h \<and> (\<exists>e \<in> set es. stores_this e) \<longrightarrow>
        GetData h m = Some i)"

lemma data_inv_step:
  assumes "data_inv ops s m" "own_handles ops" "Runs s i = Some es" "op_handle c = op_handle (ops i)"
    and "Runs s' = (Runs s)(i := Some (es @ [e]))"
  shows "data_inv ops s' (store_this i e c m)"
  unfolding data_inv_def
proof (intro allI impI, elim conjE)
  fix j es' h
  assume j: "Runs s' j = Some es'" "op_handle (ops j) = Some h" "\<exists>e \<in> set es'. stores_this e"
  show "GetData h (store_this i e c m) = Some j"
  proof (cases "stores_this e \<and> op_handle (ops i) = Some h")
    case True
    then have "j = i" using assms(2) j(2) unfolding own_handles_def by blast
    then show ?thesis using True assms(4) by (simp add: store_this_def SetData_def GetData_def)
  next
    case False
    then have keep: "GetData h (store_this i e c m) = GetData h m"
      using assms(4) by (auto simp: store_this_def SetData_def GetData_def split: option.split)
    have "\<exists>es. Runs s j = Some es \<and> (\<exists>e \<in> set es. stores_this e)"
      using j False assms(3,5) by (cases "j = i") auto
    then show ?thesis using assms(1) j(2) keep unfolding data_inv_def by metis
  qed
qed

lemma data_do_inv:
  assumes "psys_do P a s = Some s'" and inv: "psys_inv P nx ops s" and "own_handles ops"
    and "data_inv ops s m"
  shows "data_inv ops s' (data_do a s m)"
  using assms(1)
proof (cases rule: psys_do_cases)
  case (start t i)
  then have "Runs s' = (Runs s)(i := Some [])" by (simp add: handled_def)
  then show ?thesis using start assms(4) by (auto simp: data_inv_def split: if_splits)
next
  case (deliver t i e es)
  have "op_handle (Clients s i) = op_handle (ops i)"
    by (rule op_handle_run [of P _ _ "Runs s i"]) (use inv in \<open>simp add: psys_inv_but_def\<close>)
  from data_inv_step [OF assms(4,3) deliver(2) this, of s' e] show ?thesis
    using deliver by (simp add: handled_def)
next
  case (applied i e es p o')
  have "op_handle (Clients s i) = op_handle (ops i)"
    by (rule op_handle_run [of P _ _ "Runs s i"]) (use inv in \<open>simp add: psys_inv_but_def\<close>)
  from data_inv_step [OF assms(4,3) applied(2) this, of s' e] show ?thesis
    using applied by (simp add: handled_def)
next
  case (access x o')
  then show ?thesis using assms(4) by (simp add: data_inv_def)
qed

lemma data_run_lsys: "data_run P acts sm = Some (s', m') \<Longrightarrow> psys_run P acts (fst sm) = Some s'"
  by (induction acts arbitrary: sm) (auto split: option.splits)

lemma data_run_inv:
  assumes "program_ops ops" "own_handles ops"
  shows "data_run P acts (s, m) = Some (s', m') \<Longrightarrow> psys_inv P nx ops s \<Longrightarrow> data_inv ops s m \<Longrightarrow>
    psys_inv P nx ops s' \<and> data_inv ops s' m'"
proof (induction acts arbitrary: s m)
  case (Cons a acts)
  then obtain t where t: "psys_do P a s = Some t" "data_run P acts (t, data_do a s m) = Some (s', m')"
    by (auto split: option.splits)
  show ?case
    using Cons.IH [OF t(2) psys_do_inv [OF t(1) Cons.prems(2) assms(1)]
        data_do_inv [OF t(1) Cons.prems(2) assms(2) Cons.prems(3)]] .
qed simp

section \<open>Properties\<close>

text \<open>
  C12: in every run of a program whose operations have handles of their own, whenever libuv may call back for an
  operation - its watcher fires, data arrive, its handle is closed - the \<open>data\<close> field of the handle
  gives back the very operation that stored itself there, and its contract admits the callback.
\<close>

theorem callbacks_find_their_operation:
  assumes "program_ops ops" "own_handles ops"
    and "data_run P acts (psys_init nx ops, m) = Some (s, m')"
    and "psys_do P (Deliver t i e) s = Some s'" "event_origin e = InLibuv"
  shows "\<exists>h. op_handle (Clients s i) = Some h \<and> callback_target h m' = Some i \<and>
    op_enabled e (Clients s i)"
proof -
  have "data_inv ops (psys_init nx ops) m" by (simp add: data_inv_def psys_init_def)
  from data_run_inv [OF assms(1,2,3) psys_inv_init [OF assms(1)] this]
  have inv: "psys_inv P nx ops s" "data_inv ops s m'" by blast+
  obtain es where es: "Runs s i = Some es" "op_enabled e (Clients s i)"
    using assms(4) by (auto split: option.splits if_splits)
  have run: "client_run P (ops i) (Clients s i) (Some es)" "op_fresh (ops i)"
    using inv(1) assms(1) es(1) by (auto simp: psys_inv_but_def program_ops_def dest: spec [of _ i])
  have begun: "\<exists>e \<in> set es. stores_this e" using called_back_has_begun [OF run(2,1) es(2) assms(5)] .
  have "op_handle (ops i) \<noteq> None"
  proof (cases "ops i")
    case (ScheduleOp x)
    then have "op_handle (Clients s i) = None" using op_handle_run [OF run(1)] by simp
    then show ?thesis
      using es(2) assms(5) by (cases "Clients s i"; cases e) simp_all
  qed simp_all
  then obtain h where "op_handle (ops i) = Some h" by blast
  then show ?thesis
    using inv(2) es begun op_handle_run [OF run(1)] by (auto simp: data_inv_def callback_target_def)
qed

theorem callbacks_find_their_operation_witness:
  "\<exists>s m h. data_run sample_platform (sample_started @ sample_applied)
       (psys_init (\<lambda>_. None) sample_ops, no_fields) = Some (s, m) \<and>
     op_handle (Clients s 0) = Some h \<and> callback_target h m = Some 0"
proof -
  let ?run = "data_run sample_platform (sample_started @ sample_applied) (psys_init (\<lambda>_. None) sample_ops, no_fields)"
  have "case ?run of None \<Rightarrow> False | Some (s, m) \<Rightarrow>
      psys_do sample_platform (Deliver 0 0 (OneshotEvent Fired)) s \<noteq> None" by code_simp
  then obtain s m s' where r: "?run = Some (s, m)"
      "psys_do sample_platform (Deliver 0 0 (OneshotEvent Fired)) s = Some s'"
    by (auto split: option.splits)
  have "own_handles sample_ops" by (auto simp: own_handles_def sample_ops_def)
  from callbacks_find_their_operation [OF sample_program this r] show ?thesis using r(1) by auto
qed

text \<open>
  C27: an operation finds its loop from its socket, and the loop's wake-up finds the list of operations: once the constructor
  of the loop has returned, whatever \<open>data\<close> fields of other objects are written since, a socket initialised on the
  loop leads back to the loop that was constructed, and the async handle to its list.
\<close>

theorem operation_finds_its_loop:
  assumes "TLoop_ctor_fields env self scheduled_list l m = (Inr (), m')" "UvLoop l \<noteq> Async l"
    and "UvLoop l \<notin> fst ` set ws" "Async l \<notin> fst ` set ws"
  shows "stream_loop socket (fold (\<lambda>(g, d). SetData g d) ws (init_handle (UvLoop l) socket m')) = Some self \<and>
    async_list (Async l) (fold (\<lambda>(g, d). SetData g d) ws (init_handle (UvLoop l) socket m')) = Some scheduled_list"
proof -
  have "DataField m' (UvLoop l) = Some self" "DataField m' (Async l) = Some scheduled_list"
    using assms(1,2) by (auto simp: TLoop_ctor_fields_def field_defs Let_def split: sum.splits)
  then show ?thesis
    using data_other_writes [OF assms(3)] data_other_writes [OF assms(4)] loop_other_writes [of ws]
    by (simp add: field_defs)
qed

theorem operation_finds_its_loop_witness:
  "stream_loop 20 (fold (\<lambda>(g, d). SetData g d) [(20, 300), (21, 301)] (init_handle 10 20
     (snd (TLoop_ctor_fields (\<lambda>_. 0) 100 101 \<lparr>trace = [], UvLoop = 10, Async = 11\<rparr> no_fields)))) = Some 100"
proof -
  let ?l = "\<lparr>trace = [], UvLoop = 10, Async = 11\<rparr>"
  have "fst (TLoop_ctor_fields (\<lambda>_. 0) 100 101 ?l no_fields) = Inr ()" by code_simp
  then have "TLoop_ctor_fields (\<lambda>_. 0) 100 101 ?l no_fields =
      (Inr (), snd (TLoop_ctor_fields (\<lambda>_. 0) 100 101 ?l no_fields))"
    by (metis prod.collapse)
  from operation_finds_its_loop [OF this, of "[(20, 300), (21, 301)]" 20] show ?thesis by simp
qed

text \<open>
  what happens where two operations share a stream: a second \<open>read_some\<close> on a stream that is being read is refused by
  \<open>uv_read_start\<close> and completes with that error; but it has already stored itself in the stream, so the
  data of the first are delivered to the operation that has completed, while the first still waits for them.
\<close>

theorem second_read_takes_the_callbacks:
  assumes "Runs s i = Some es" "Runs s j = Some es'" "i \<noteq> j"
    and "Clients s i = ReadSomeOp a" "Clients s j = ReadSomeOp b" "Socket a = Socket b"
    and "active (Socket a) (trace a)" "running (ChildOp b) (trace b)"
    and "IsError (env (uv_read_start (Socket b) ReadCallback))" "pcs (Os s) 0 = PIdle" "lpc (Os s) = LWait"
  shows "\<exists>s' c. psys_do P (Deliver 0 j (ReadSomeEvent (SBegin env buf))) s = Some s' \<and>
    op_trace (Clients s' j) = op_trace (Clients s j) @ [ChildDone (ChildOp b),
      UvCall (uv_read_start (Socket b) ReadCallback) c, Signal (SetError (EErrc c))] \<and>
    callback_target (Socket a) (data_do (Deliver 0 j (ReadSomeEvent (SBegin env buf))) s m) = Some j \<and>
    Clients s' i = Clients s i \<and> op_enabled (ReadSomeEvent (SData env' d)) (Clients s' i)"
  using assms
  by (auto simp: handled_def may_deliver_def store_this_def callback_target_def field_defs handler_defs
      read_some_defs)

definition shared_stream_ops :: "nat \<Rightarrow> unit loop_op" where
  "shared_stream_ops i = ReadSomeOp (TReadSomeOpState_new (3 * i) (3 * i + 1) 50 60 False)"

definition shared_stream_run :: "unit psys option" where
  "shared_stream_run = psys_run sample_platform
     [StartOp 0 0, StartOp 0 1,
      Deliver 0 0 (ReadSomeEvent (SBegin (\<lambda>_. 0) \<lparr>base = 64, len = 8\<rparr>))]
     (psys_init (\<lambda>_. None) shared_stream_ops)"

theorem second_read_takes_the_callbacks_witness:
  "\<exists>s s' c. shared_stream_run = Some s \<and>
     psys_do sample_platform (Deliver 0 1 (ReadSomeEvent (SBegin (\<lambda>_. -114) \<lparr>base = 80, len = 8\<rparr>))) s = Some s' \<and>
     completions (op_trace (Clients s' 1)) = [SetError (EErrc c)] \<and>
     callback_target 50 (data_do (Deliver 0 1 (ReadSomeEvent (SBegin (\<lambda>_. -114) \<lparr>base = 80, len = 8\<rparr>))) s no_fields) = Some 1"
proof -
  have "case shared_stream_run of None \<Rightarrow> False | Some s \<Rightarrow>
      (case (Clients s 0, Clients s 1) of
         (ReadSomeOp a, ReadSomeOp b) \<Rightarrow> Socket a = 50 \<and> Socket b = 50 \<and> active 50 (trace a) \<and>
           running (ChildOp b) (trace b) \<and> completions (trace b) = []
       | _ \<Rightarrow> False) \<and> pcs (Os s) 0 = PIdle \<and> lpc (Os s) = LWait \<and> Runs s 0 \<noteq> None \<and> Runs s 1 \<noteq> None"
    by code_simp
  then obtain s a b es es' where s: "shared_stream_run = Some s" "Runs s 0 = Some es"
      "Runs s 1 = Some es'" "Clients s 0 = ReadSomeOp a" "Clients s 1 = ReadSomeOp b"
      "Socket a = 50" "Socket b = 50" "active 50 (trace a)" "running (ChildOp b) (trace b)"
      "completions (trace b) = []" "pcs (Os s) 0 = PIdle" "lpc (Os s) = LWait"
    by (auto split: option.splits loop_op.splits)
  have "Socket a = Socket b" "active (Socket a) (trace a)"
      "IsError ((\<lambda>_. -114) (uv_read_start (Socket b) ReadCallback))"
    using s by (simp_all add: IsError_def)
  from second_read_takes_the_callbacks [OF s(2,3) _ s(4,5) this(1,2) s(9) this(3) s(11,12),
      of sample_platform "\<lparr>base = 80, len = 8\<rparr>" no_fields "\<lambda>_. 0" 1]
  show ?thesis using s by auto
qed

end
