(* ===== verification/Async_Value.thy ===== *)
theory Async_Value
  imports Uv_Requests "HOL-Library.Sublist"
begin

text \<open>
  \<open>async_value\<close> (include/uvexec/algorithms/async_value_op_state.hpp): an operation that makes a value, runs a body on a
  reference to it, drops it with the sender \<open>uvexec::drop\<close> returns, destroys it, and completes as the body did. The drop sender, the body
  and \<open>exec::finally\<close>, which runs them one after the other, are foreign: their steps are events with the conditions of
  \<open>async_enabled\<close>; making the value is taken not to throw (\<open>set_value\<close> is \<open>noexcept\<close>). A stop request may come from another thread, so the two halves of \<open>TDestroyer\<close> are separate steps.
\<close>

section \<open>The state\<close>

text \<open>
  \<open>IsValueStopSource\<close>: the value has a member \<open>request_stop\<close>; \<open>NothrowFn\<close>: the body's function is \<open>noexcept\<close>. \<open>Value\<close> and
  \<open>StopCb\<close> say whether the optionals hold something, \<open>ValueStops\<close> counts the stop requests the value got,
  \<open>AvResult\<close> is the completion \<open>finally\<close> keeps. \<open>Body\<close>: the second alternative of the variant is active.
\<close>

record TAsyncValueOpState = world +
  AvIn :: ptr
  AvBody :: ptr
  AvDrop :: ptr
  IsValueStopSource :: bool
  NothrowFn :: bool
  AvToken :: bool
  BodyActive :: bool
  Value :: bool
  StopCb :: bool
  ValueStops :: nat
  AvResult :: "completion option"
  AvFinReady :: bool

definition TAsyncValueOpState_new ::
    "ptr \<Rightarrow> ptr \<Rightarrow> ptr \<Rightarrow> bool \<Rightarrow> bool \<Rightarrow> bool \<Rightarrow> TAsyncValueOpState" where
  "TAsyncValueOpState_new inop body drop_op source nothrow token =
     \<lparr>trace = [], AvIn = inop, AvBody = body, AvDrop = drop_op, IsValueStopSource = source,
      NothrowFn = nothrow, AvToken = token, BodyActive = False, Value = False, StopCb = False,
      ValueStops = 0, AvResult = None, AvFinReady = False\<rparr>"

definition TAsyncValueOpState_start :: "TAsyncValueOpState \<Rightarrow> TAsyncValueOpState" where
  "TAsyncValueOpState_start op = emit (Started (AvIn op)) op"

definition TAsyncValue_TStopCallback :: "TAsyncValueOpState \<Rightarrow> TAsyncValueOpState" where
  "TAsyncValue_TStopCallback op =
     (if IsValueStopSource op then
        if Value op then op\<lparr>ValueStops := ValueStops op + 1\<rparr>
        else emit (Undefined ''empty optional'') op
      else op)"

text \<open>
  \<open>throws\<close>: the body's function, or connecting its sender, throws, after \<open>emplace\<close> has destroyed the operation
  that this receiver belongs to; what is then moved out of it is taken to be the receiver all the same. The constructor
  of the stop callback calls it at once when stop has been requested.
\<close>

definition TAsyncValueReceiver_set_value :: "bool \<Rightarrow> TAsyncValueOpState \<Rightarrow> TAsyncValueOpState" where
  "TAsyncValueReceiver_set_value throws op =
     (let op = op\<lparr>Value := True\<rparr>;
          op = (if AvToken op then TAsyncValue_TStopCallback op else op)\<lparr>StopCb := True\<rparr>
      in if throws then
           if NothrowFn op then op
           else emit (Signal (SetException ''current_exception''))
                  (emit (Undefined ''receiver of a destroyed operation state'') op)
         else emit (Started (AvBody op))
                (emit (Undefined ''receiver of a destroyed operation state'') (op\<lparr>BodyActive := True\<rparr>)))"

definition TDestroyer_value :: "TAsyncValueOpState \<Rightarrow> TAsyncValueOpState" where
  "TDestroyer_value op = op\<lparr>Value := False\<rparr>"

definition TDestroyer_callback :: "TAsyncValueOpState \<Rightarrow> TAsyncValueOpState" where
  "TDestroyer_callback op = op\<lparr>StopCb := False\<rparr>"

section \<open>Events\<close>

text \<open>
  The sender before completes, with a value or otherwise; the body completes and \<open>finally\<close> starts the drop; the drop
  completes and \<open>TDestroyer\<close> destroys the value, then the stop callback; \<open>finally\<close> completes the
  receiver; a stop request.
\<close>

datatype async_event =
    AValue bool | AOther completion | ABodyDone completion | ADropDone | ADestroyed
  | AFinally completion | ARequestStop

fun TAsyncValueOpState_step :: "async_event \<Rightarrow> TAsyncValueOpState \<Rightarrow> TAsyncValueOpState" where
  "TAsyncValueOpState_step (AValue throws) op =
     TAsyncValueReceiver_set_value throws (emit (ChildDone (AvIn op)) op)"
| "TAsyncValueOpState_step (AOther c) op = emit (Signal c) (emit (ChildDone (AvIn op)) op)"
| "TAsyncValueOpState_step (ABodyDone c) op =
     emit (Started (AvDrop op)) ((emit (ChildDone (AvBody op)) op)\<lparr>AvResult := Some c\<rparr>)"
| "TAsyncValueOpState_step ADropDone op = TDestroyer_value (emit (ChildDone (AvDrop op)) op)"
| "TAsyncValueOpState_step ADestroyed op = (TDestroyer_callback op)\<lparr>AvFinReady := True\<rparr>"
| "TAsyncValueOpState_step (AFinally c) op = emit (Signal c) (op\<lparr>AvFinReady := False\<rparr>)"
| "TAsyncValueOpState_step ARequestStop op =
     (if StopCb op then TAsyncValue_TStopCallback op else op)\<lparr>AvToken := True\<rparr>"

fun async_enabled :: "async_event \<Rightarrow> TAsyncValueOpState \<Rightarrow> bool" where
  "async_enabled (AValue throws) op \<longleftrightarrow> running (AvIn op) (trace op)"
| "async_enabled (AOther c) op \<longleftrightarrow>
     running (AvIn op) (trace op) \<and> (case c of SetValue vs \<Rightarrow> False | _ \<Rightarrow> True)"
| "async_enabled (ABodyDone c) op \<longleftrightarrow> running (AvBody op) (trace op)"
| "async_enabled ADropDone op \<longleftrightarrow> running (AvDrop op) (trace op)"
| "async_enabled ADestroyed op \<longleftrightarrow> BodyActive op \<and> AvResult op \<noteq> None \<and>
     \<not> running (AvDrop op) (trace op) \<and> StopCb op"
| "async_enabled (AFinally c) op \<longleftrightarrow> AvFinReady op \<and> AvResult op = Some c"
| "async_enabled ARequestStop op \<longleftrightarrow> \<not> AvToken op"

section \<open>The contract\<close>




definition empty_value_read :: "effect list \<Rightarrow> bool" where
  "empty_value_read tr \<longleftrightarrow> Undefined ''empty optional'' \<in> set tr"


lemmas async_defs = TAsyncValueReceiver_set_value_def TAsyncValue_TStopCallback_def
  TDestroyer_value_def TDestroyer_callback_def emit_def Let_def


lemma async_step_const [simp]:
  "AvIn (TAsyncValueOpState_step e op) = AvIn op"
  "AvBody (TAsyncValueOpState_step e op) = AvBody op"
  "AvDrop (TAsyncValueOpState_step e op) = AvDrop op"
  "NothrowFn (TAsyncValueOpState_step e op) = NothrowFn op"
  by (cases e; simp add: async_defs)+





definition not_stop :: "async_event list \<Rightarrow> async_event list" where
  "not_stop es = filter (\<lambda>e. e \<noteq> ARequestStop) es"

lemma not_stop_simps [simp]:
  "not_stop [] = []" "not_stop (e # es) = (if e = ARequestStop then not_stop es else e # not_stop es)"
  by (simp_all add: not_stop_def)









section \<open>Properties\<close>


definition sample_async :: "bool \<Rightarrow> TAsyncValueOpState" where
  "sample_async nothrow =
     TAsyncValueOpState_start (TAsyncValueOpState_new 1 2 3 True nothrow False)"



text \<open>
  two ways for \<open>async_value\<close> to fail. (1) A stop request between the two halves of \<open>TDestroyer\<close> calls \<open>request_stop\<close> on
  an empty optional. (2) When connecting the body throws although its function is \<open>noexcept\<close>, the exception is
  swallowed: nothing runs any more and the client is never completed.
\<close>

theorem async_value_faults:
  "(let es = [AValue False, ABodyDone (SetValue []), ADropDone, ARequestStop]
    in admissible async_enabled TAsyncValueOpState_step (sample_async False) es \<and>
       empty_value_read (trace (fold TAsyncValueOpState_step es (sample_async False)))) \<and>
   (let s = fold TAsyncValueOpState_step [AValue True] (sample_async True)
    in completions (trace s) = [] \<and> \<not> running 1 (trace s) \<and> \<not> running 2 (trace s) \<and>
       \<not> running 3 (trace s) \<and> Value s)"
  by (intro conjI) code_simp+

end
