(* ===== verification/Sender_Classes.thy ===== *)
theory Sender_Classes
  imports Timer_Ops
begin

text \<open>
  The senders of include/uvexec/algorithms/*.hpp, one definition for each class and for each of its specialisations over
  \<open>just()\<close>: what \<open>connect\<close> makes of it, what its environment answers, and the completion signatures it declares. The packages of
  interface/domain.hpp and the tags of interface/uvexec.hpp are here too.
\<close>

section \<open>Completion signatures\<close>

text \<open>
  A value of type \<open>std::size_t\<close> or of another type; the errors \<open>EErrc\<close>, \<open>std::exception_ptr\<close> and others. The signature
  sets of algorithms/completion_signatures.hpp.
\<close>

datatype val_type = SizeT | OpaqueT nat

datatype err_type = ErrcT | ExceptionPtrT | ForeignErrT nat

datatype sig = SigValue "val_type list" | SigError err_type | SigStopped

definition TVoidValueCompletionSignatures :: "val_type list \<Rightarrow> sig list" where
  "TVoidValueCompletionSignatures args = [SigValue []]"

definition TLengthValueCompletionSignatures :: "val_type list \<Rightarrow> sig list" where
  "TLengthValueCompletionSignatures args = [SigValue [SizeT]]"

definition TAlgorithmCompletionSignatures :: "sig list" where
  "TAlgorithmCompletionSignatures = [SigError ErrcT]"

definition TExceptionCompletionSignatures :: "sig list" where
  "TExceptionCompletionSignatures = [SigError ExceptionPtrT]"

definition TCancellableAlgorithmCompletionSignatures :: "sig list" where
  "TCancellableAlgorithmCompletionSignatures = [SigError ErrcT, SigStopped]"

definition TScheduleCompletionSignatures :: "sig list" where
  "TScheduleCompletionSignatures = [SigValue [], SigStopped]"

definition TScheduleEventuallyCompletionSignatures :: "sig list" where
  "TScheduleEventuallyCompletionSignatures = [SigValue [], SigError ErrcT, SigStopped]"

lemmas sig_defs = TVoidValueCompletionSignatures_def TLengthValueCompletionSignatures_def
  TAlgorithmCompletionSignatures_def TExceptionCompletionSignatures_def
  TCancellableAlgorithmCompletionSignatures_def TScheduleCompletionSignatures_def
  TScheduleEventuallyCompletionSignatures_def

text \<open>
  What is not this library's: \<open>stdexec::make_completion_signatures\<close> (of a child's signatures, signatures to add, and what each value
  signature becomes), the signatures of foreign senders, and those of the sender a body's function returns.
\<close>

type_synonym make_sigs = "sig list \<Rightarrow> sig list \<Rightarrow> (val_type list \<Rightarrow> sig list) \<Rightarrow> sig list"

record sig_env =
  Make :: make_sigs
  ForeignSigs :: "nat \<Rightarrow> sig list"
  FnSigs :: "nat \<Rightarrow> sig list"

section \<open>Tags\<close>

text \<open>Each algorithm requires of its customisations a value signature and whether they may be stopped.\<close>

datatype tag =
    close_t | connect_t | shutdown_t | send_t | write_some_t | receive_t | read_some_t
  | read_until_t | send_to_t | receive_from_t | accept_t | after_t | at_t | upon_signal_t

record required =
  TRequiredValueCompletionSignatures :: "sig list"
  TRequiredStoppedCompletionSignatures :: "sig list"

definition after_t_required :: required where
  "after_t_required = \<lparr>TRequiredValueCompletionSignatures = [SigValue []],
     TRequiredStoppedCompletionSignatures = [SigStopped]\<rparr>"

definition at_t_required :: required where
  "at_t_required = \<lparr>TRequiredValueCompletionSignatures = [SigValue []],
     TRequiredStoppedCompletionSignatures = [SigStopped]\<rparr>"

definition upon_signal_t_required :: required where
  "upon_signal_t_required = \<lparr>TRequiredValueCompletionSignatures = [SigValue []],
     TRequiredStoppedCompletionSignatures = [SigStopped]\<rparr>"

definition connect_t_required :: required where
  "connect_t_required = \<lparr>TRequiredValueCompletionSignatures = [SigValue []],
     TRequiredStoppedCompletionSignatures = []\<rparr>"

definition accept_t_required :: required where
  "accept_t_required = \<lparr>TRequiredValueCompletionSignatures = [SigValue []],
     TRequiredStoppedCompletionSignatures = [SigStopped]\<rparr>"

definition shutdown_t_required :: required where
  "shutdown_t_required = \<lparr>TRequiredValueCompletionSignatures = [SigValue []],
     TRequiredStoppedCompletionSignatures = []\<rparr>"

definition close_t_required :: required where
  "close_t_required = \<lparr>TRequiredValueCompletionSignatures = [SigValue []],
     TRequiredStoppedCompletionSignatures = []\<rparr>"

definition receive_t_required :: required where
  "receive_t_required = \<lparr>TRequiredValueCompletionSignatures = [SigValue [SizeT]],
     TRequiredStoppedCompletionSignatures = [SigStopped]\<rparr>"

definition read_some_t_required :: required where
  "read_some_t_required = \<lparr>TRequiredValueCompletionSignatures = [SigValue [SizeT]],
     TRequiredStoppedCompletionSignatures = [SigStopped]\<rparr>"

definition read_until_t_required :: required where
  "read_until_t_required = \<lparr>TRequiredValueCompletionSignatures = [SigValue [SizeT]],
     TRequiredStoppedCompletionSignatures = [SigStopped]\<rparr>"

definition receive_from_t_required :: required where
  "receive_from_t_required = \<lparr>TRequiredValueCompletionSignatures = [SigValue [SizeT]],
     TRequiredStoppedCompletionSignatures = [SigStopped]\<rparr>"

definition send_t_required :: required where
  "send_t_required = \<lparr>TRequiredValueCompletionSignatures = [SigValue []],
     TRequiredStoppedCompletionSignatures = []\<rparr>"

definition write_some_t_required :: required where
  "write_some_t_required = \<lparr>TRequiredValueCompletionSignatures = [SigValue []],
     TRequiredStoppedCompletionSignatures = []\<rparr>"

definition send_to_t_required :: required where
  "send_to_t_required = \<lparr>TRequiredValueCompletionSignatures = [SigValue []],
     TRequiredStoppedCompletionSignatures = []\<rparr>"

primrec required_of :: "tag \<Rightarrow> required" where
  "required_of close_t = close_t_required"
| "required_of connect_t = connect_t_required"
| "required_of shutdown_t = shutdown_t_required"
| "required_of send_t = send_t_required"
| "required_of write_some_t = write_some_t_required"
| "required_of receive_t = receive_t_required"
| "required_of read_some_t = read_some_t_required"
| "required_of read_until_t = read_until_t_required"
| "required_of send_to_t = send_to_t_required"
| "required_of receive_from_t = receive_from_t_required"
| "required_of accept_t = accept_t_required"
| "required_of after_t = after_t_required"
| "required_of at_t = at_t_required"
| "required_of upon_signal_t = upon_signal_t_required"

section \<open>Sender expressions and operation states\<close>

text \<open>A socket object, by its address; a listener is named by the address of the socket it holds.\<close>

datatype socket = Tcp ptr | Udp ptr | TcpListener ptr

datatype domain = DefaultDomain | LoopDomain

text \<open>The answers of an environment: its domain and the loop its completion scheduler belongs to, where it gives any. The
  scheduling senders answer for their loop.\<close>

record sender_env =
  EnvDomain :: "domain option"
  EnvScheduler :: "ptr option"

definition empty_env :: sender_env where
  "empty_env = \<lparr>EnvDomain = None, EnvScheduler = None\<rparr>"

definition TScheduler_TEnv :: "ptr \<Rightarrow> sender_env" where
  "TScheduler_TEnv l = \<lparr>EnvDomain = Some LoopDomain, EnvScheduler = Some l\<rparr>"

text \<open>
  The condition of \<open>read_until\<close>, with what \<open>std::is_nothrow_invocable_r_v<bool, TCondition, std::size_t>\<close> says of its type. The data of a
  package: a socket; a socket and a condition; a listener and a socket; a duration or a time of \<open>TLoopClock\<close>,
  of a type that converts to milliseconds, as the customisations ask, and already converted; a signal number.
\<close>

datatype condition = TCondition nat (nothrow_condition: bool)

datatype data =
    OnSocket socket | OnSocketUntil socket condition | OnListener socket socket | Millis int | Signum int

text \<open>
  \<open>just\<close> carries opaque values. A \<open>Foreign\<close> sender is one of stdexec or of the user, given by its environment. Functions are
  numbers.
\<close>

datatype sender =
    just "nat list"
  | Foreign nat sender_env
  | TScheduleSender ptr
  | TAfterScheduleSender ETimerType ptr int
  | TUponSignalScheduleSender ptr int
  | TSenderPackage tag sender data
  | TCloseSender sender socket
  | TConnectSender sender socket
  | TShutdownSender sender socket
  | TWriteSender sender socket
  | TReadSomeSender sender socket
  | TReadUntilSender sender condition socket
  | TSendSender sender socket
  | TSendToSender sender socket
  | TReceiveSender sender socket
  | TReceiveFromSender sender socket
  | TTcpAcceptSender sender socket socket
  | TAfterSender ETimerType sender ptr int
  | TUponSignalSender sender ptr int
  | TAsyncValueSender sender nat
  | TBindToSender sender nat
  | TConnectToSender sender nat
  | TAcceptFromSender sender socket nat

text \<open>
  The operation states: those of foreign senders, those of this library, the ones made by connecting the child to one of the
  library's receivers, and two for which there is none: \<open>TFatalOpState\<close>, which is not an operation state, and \<open>IllFormed\<close> for a
  \<open>connect\<close> whose body is ill-formed. \<open>connect_to\<close> and \<open>accept_from\<close> keep their child for later.
\<close>

datatype receiver_kind =
    TCloseReceiver | TConnectReceiver | TShutdownReceiver | TWriteReceiver | TSendReceiver
  | TSendToReceiver

datatype opstate =
    JustOp "nat list"
  | ForeignOp nat
  | ScheduleOp ptr
  | AfterScheduleOp ETimerType ptr u64
  | UponSignalScheduleOp ptr int
  | ConnectedTo receiver_kind socket opstate
  | ReadSomeOp socket opstate
  | ReadUntilOp condition socket opstate
  | ReceiveOp socket opstate
  | ReceiveFromOp socket opstate
  | AcceptOp socket socket opstate
  | AfterOp ETimerType ptr u64 opstate
  | UponSignalOp ptr int opstate
  | AsyncValueOp nat opstate
  | BindToOp nat opstate
  | ConnectToOp nat sender
  | AcceptFromOp socket nat sender
  | TFatalOpState
  | IllFormed

text \<open>
  Whether \<open>connect\<close> has found an operation state all the way down: no \<open>TFatalOpState\<close> and no ill-formed \<open>connect\<close>. What \<open>connect_to\<close>
  and \<open>accept_from\<close> connect when they start is not looked at. It is a condition for the program to compile and not the
  only one: C++ then also asks that the values of the child fit the receiver's \<open>set_value\<close> (write_receiver.hpp:37,
  read_some_op_state.hpp:36, connect_receiver.hpp:36), which this model does not decide.
\<close>

primrec resolved :: "opstate \<Rightarrow> bool" where
  "resolved (JustOp vs) = True"
| "resolved (ForeignOp n) = True"
| "resolved (ScheduleOp l) = True"
| "resolved (AfterScheduleOp ty l t) = True"
| "resolved (UponSignalScheduleOp l n) = True"
| "resolved (ConnectedTo r h c) = resolved c"
| "resolved (ReadSomeOp h c) = resolved c"
| "resolved (ReadUntilOp f h c) = resolved c"
| "resolved (ReceiveOp h c) = resolved c"
| "resolved (ReceiveFromOp h c) = resolved c"
| "resolved (AcceptOp l h c) = resolved c"
| "resolved (AfterOp ty l t c) = resolved c"
| "resolved (UponSignalOp l n c) = resolved c"
| "resolved (AsyncValueOp f c) = resolved c"
| "resolved (BindToOp f c) = resolved c"
| "resolved (ConnectToOp f s) = True"
| "resolved (AcceptFromOp l f s) = True"
| "resolved TFatalOpState = False"
| "resolved IllFormed = False"

section \<open>Sender classes\<close>

text \<open>
  A class by its \<open>connect\<close> (a function of the operation that connecting the child makes), its \<open>get_env\<close> (of the child's environment)
  and its \<open>get_completion_signatures\<close> (of the child's signatures).
\<close>

record sender_class =
  connect_op :: "opstate \<Rightarrow> opstate"
  env_op :: "sender_env \<Rightarrow> sender_env"
  sigs_op :: "sig_env \<Rightarrow> sig list \<Rightarrow> sig list"

definition just_class :: "nat list \<Rightarrow> sender_class" where
  "just_class vs = \<lparr>connect_op = (\<lambda>c. JustOp vs), env_op = (\<lambda>e. empty_env),
     sigs_op = (\<lambda>p cs. [SigValue (map OpaqueT vs)])\<rparr>"

definition foreign_class :: "nat \<Rightarrow> sender_env \<Rightarrow> sender_class" where
  "foreign_class n env = \<lparr>connect_op = (\<lambda>c. ForeignOp n), env_op = (\<lambda>e. env),
     sigs_op = (\<lambda>p cs. ForeignSigs p n)\<rparr>"

subsection \<open>Scheduling, timers and signals\<close>

text \<open>The constructors of the timer senders replace a negative duration by zero; it is cast to 64 bits when the operation is
  made.\<close>

definition TScheduleSender_class :: "ptr \<Rightarrow> sender_class" where
  "TScheduleSender_class l = \<lparr>connect_op = (\<lambda>c. ScheduleOp l), env_op = (\<lambda>e. TScheduler_TEnv l),
     sigs_op = (\<lambda>p cs. TScheduleCompletionSignatures)\<rparr>"

definition TAfterScheduleSender_new :: "ETimerType \<Rightarrow> ptr \<Rightarrow> int \<Rightarrow> sender" where
  "TAfterScheduleSender_new ty l timeout = TAfterScheduleSender ty l (max timeout 0)"

definition TAfterScheduleSender_class :: "ETimerType \<Rightarrow> ptr \<Rightarrow> int \<Rightarrow> sender_class" where
  "TAfterScheduleSender_class ty l t = \<lparr>connect_op = (\<lambda>c. AfterScheduleOp ty l (of_int t)),
     env_op = (\<lambda>e. TScheduler_TEnv l), sigs_op = (\<lambda>p cs. TScheduleEventuallyCompletionSignatures)\<rparr>"

definition TUponSignalScheduleSender_class :: "ptr \<Rightarrow> int \<Rightarrow> sender_class" where
  "TUponSignalScheduleSender_class l n = \<lparr>connect_op = (\<lambda>c. UponSignalScheduleOp l n),
     env_op = (\<lambda>e. TScheduler_TEnv l), sigs_op = (\<lambda>p cs. TScheduleEventuallyCompletionSignatures)\<rparr>"

definition TAfterSender_new :: "ETimerType \<Rightarrow> sender \<Rightarrow> ptr \<Rightarrow> int \<Rightarrow> sender" where
  "TAfterSender_new ty s l timeout = TAfterSender ty s l (max timeout 0)"

definition TAfterSender_class :: "ETimerType \<Rightarrow> ptr \<Rightarrow> int \<Rightarrow> sender_class" where
  "TAfterSender_class ty l t = \<lparr>connect_op = AfterOp ty l (of_int t), env_op = (\<lambda>e. e),
     sigs_op = (\<lambda>p cs. Make p cs TCancellableAlgorithmCompletionSignatures
       TVoidValueCompletionSignatures)\<rparr>"

definition TAfterSender_just_class :: "ETimerType \<Rightarrow> ptr \<Rightarrow> int \<Rightarrow> sender_class" where
  "TAfterSender_just_class ty l t = \<lparr>connect_op = AfterOp ty l (of_int t), env_op = (\<lambda>e. e),
     sigs_op = (\<lambda>p cs. Make p cs TCancellableAlgorithmCompletionSignatures
       TVoidValueCompletionSignatures)\<rparr>"

definition TUponSignalSender_class :: "ptr \<Rightarrow> int \<Rightarrow> sender_class" where
  "TUponSignalSender_class l n = \<lparr>connect_op = UponSignalOp l n, env_op = (\<lambda>e. e),
     sigs_op = (\<lambda>p cs. Make p cs TCancellableAlgorithmCompletionSignatures
       TVoidValueCompletionSignatures)\<rparr>"

definition TUponSignalSender_just_class :: "ptr \<Rightarrow> int \<Rightarrow> sender_class" where
  "TUponSignalSender_just_class l n = \<lparr>connect_op = UponSignalOp l n, env_op = (\<lambda>e. e),
     sigs_op = (\<lambda>p cs. Make p cs TCancellableAlgorithmCompletionSignatures
       TVoidValueCompletionSignatures)\<rparr>"

subsection \<open>Streams and datagrams\<close>

definition TCloseSender_class :: "socket \<Rightarrow> sender_class" where
  "TCloseSender_class h = \<lparr>connect_op = ConnectedTo TCloseReceiver h, env_op = (\<lambda>e. e),
     sigs_op = (\<lambda>p cs. Make p cs [] TVoidValueCompletionSignatures)\<rparr>"

definition TCloseSender_just_class :: "socket \<Rightarrow> sender_class" where
  "TCloseSender_just_class h = \<lparr>connect_op = ConnectedTo TCloseReceiver h, env_op = (\<lambda>e. e),
     sigs_op = (\<lambda>p cs. Make p cs [] TVoidValueCompletionSignatures)\<rparr>"

definition TConnectSender_class :: "socket \<Rightarrow> sender_class" where
  "TConnectSender_class h = \<lparr>connect_op = ConnectedTo TConnectReceiver h, env_op = (\<lambda>e. e),
     sigs_op = (\<lambda>p cs. Make p cs TAlgorithmCompletionSignatures TVoidValueCompletionSignatures)\<rparr>"

text \<open>The specialisation of \<open>TShutdownSender\<close> over \<open>just()\<close> names a member it does not have.\<close>

definition TShutdownSender_class :: "socket \<Rightarrow> sender_class" where
  "TShutdownSender_class h = \<lparr>connect_op = ConnectedTo TShutdownReceiver h, env_op = (\<lambda>e. e),
     sigs_op = (\<lambda>p cs. Make p cs TAlgorithmCompletionSignatures TVoidValueCompletionSignatures)\<rparr>"

definition TShutdownSender_just_class :: "socket \<Rightarrow> sender_class" where
  "TShutdownSender_just_class h = \<lparr>connect_op = (\<lambda>c. IllFormed), env_op = (\<lambda>e. e),
     sigs_op = (\<lambda>p cs. Make p cs TAlgorithmCompletionSignatures TVoidValueCompletionSignatures)\<rparr>"

definition TWriteSender_class :: "socket \<Rightarrow> sender_class" where
  "TWriteSender_class h = \<lparr>connect_op = ConnectedTo TWriteReceiver h, env_op = (\<lambda>e. e),
     sigs_op = (\<lambda>p cs. Make p cs TAlgorithmCompletionSignatures TVoidValueCompletionSignatures)\<rparr>"

definition TReadSomeSender_class :: "socket \<Rightarrow> sender_class" where
  "TReadSomeSender_class h = \<lparr>connect_op = ReadSomeOp h, env_op = (\<lambda>e. e),
     sigs_op = (\<lambda>p cs. Make p cs TCancellableAlgorithmCompletionSignatures
       TLengthValueCompletionSignatures)\<rparr>"

definition TReadUntilSender_class :: "condition \<Rightarrow> socket \<Rightarrow> sender_class" where
  "TReadUntilSender_class f h = \<lparr>connect_op = ReadUntilOp f h, env_op = (\<lambda>e. e),
     sigs_op = (\<lambda>p cs. Make p cs TCancellableAlgorithmCompletionSignatures
       TLengthValueCompletionSignatures)\<rparr>"

definition TSendSender_class :: "socket \<Rightarrow> sender_class" where
  "TSendSender_class h = \<lparr>connect_op = ConnectedTo TSendReceiver h, env_op = (\<lambda>e. e),
     sigs_op = (\<lambda>p cs. Make p cs TAlgorithmCompletionSignatures TVoidValueCompletionSignatures)\<rparr>"

definition TSendToSender_class :: "socket \<Rightarrow> sender_class" where
  "TSendToSender_class h = \<lparr>connect_op = ConnectedTo TSendToReceiver h, env_op = (\<lambda>e. e),
     sigs_op = (\<lambda>p cs. Make p cs TAlgorithmCompletionSignatures TVoidValueCompletionSignatures)\<rparr>"

definition TReceiveSender_class :: "socket \<Rightarrow> sender_class" where
  "TReceiveSender_class h = \<lparr>connect_op = ReceiveOp h, env_op = (\<lambda>e. e),
     sigs_op = (\<lambda>p cs. Make p cs TCancellableAlgorithmCompletionSignatures
       TLengthValueCompletionSignatures)\<rparr>"

definition TReceiveFromSender_class :: "socket \<Rightarrow> sender_class" where
  "TReceiveFromSender_class h = \<lparr>connect_op = ReceiveFromOp h, env_op = (\<lambda>e. e),
     sigs_op = (\<lambda>p cs. Make p cs TCancellableAlgorithmCompletionSignatures
       TLengthValueCompletionSignatures)\<rparr>"

definition TTcpAcceptSender_class :: "socket \<Rightarrow> socket \<Rightarrow> sender_class" where
  "TTcpAcceptSender_class l h = \<lparr>connect_op = AcceptOp l h, env_op = (\<lambda>e. e),
     sigs_op = (\<lambda>p cs. Make p cs TCancellableAlgorithmCompletionSignatures
       TVoidValueCompletionSignatures)\<rparr>"

definition TTcpAcceptSender_just_class :: "socket \<Rightarrow> socket \<Rightarrow> sender_class" where
  "TTcpAcceptSender_just_class l h = \<lparr>connect_op = AcceptOp l h, env_op = (\<lambda>e. e),
     sigs_op = (\<lambda>p cs. Make p cs TCancellableAlgorithmCompletionSignatures
       TVoidValueCompletionSignatures)\<rparr>"

subsection \<open>Senders with a body\<close>

text \<open>
  Their value signatures are those of the sender the body returns. \<open>accept_from\<close> asks the sender \<open>accept\<close> returns, and so what the loop's
  domain makes of it.
\<close>

definition TAsyncValueSender_class :: "nat \<Rightarrow> sender_class" where
  "TAsyncValueSender_class f = \<lparr>connect_op = AsyncValueOp f, env_op = (\<lambda>e. e),
     sigs_op = (\<lambda>p cs. Make p cs TExceptionCompletionSignatures (\<lambda>_. FnSigs p f))\<rparr>"

definition TBindToSender_class :: "nat \<Rightarrow> sender_class" where
  "TBindToSender_class f = \<lparr>connect_op = BindToOp f, env_op = (\<lambda>e. e),
     sigs_op = (\<lambda>p cs. Make p cs TExceptionCompletionSignatures (\<lambda>_. FnSigs p f))\<rparr>"

definition TConnectToSender_class :: "sender \<Rightarrow> nat \<Rightarrow> sender_class" where
  "TConnectToSender_class s f = \<lparr>connect_op = (\<lambda>c. ConnectToOp f s), env_op = (\<lambda>e. e),
     sigs_op = (\<lambda>p cs. Make p cs TExceptionCompletionSignatures (\<lambda>_. FnSigs p f))\<rparr>"

definition TAcceptFromSender_class :: "sender \<Rightarrow> socket \<Rightarrow> nat \<Rightarrow> sender_class" where
  "TAcceptFromSender_class s l f = \<lparr>connect_op = (\<lambda>c. AcceptFromOp l f s), env_op = (\<lambda>e. e),
     sigs_op = (\<lambda>p cs. Make p (sigs_op (TTcpAcceptSender_class l l) p cs)
       TExceptionCompletionSignatures (\<lambda>_. FnSigs p f))\<rparr>"

definition TAcceptFromSender_just_class :: "socket \<Rightarrow> nat \<Rightarrow> sender_class" where
  "TAcceptFromSender_just_class l f = \<lparr>connect_op = (\<lambda>c. AcceptFromOp l f (just [])),
     env_op = (\<lambda>e. e),
     sigs_op = (\<lambda>p cs. Make p (sigs_op (TTcpAcceptSender_just_class l l) p cs)
       TExceptionCompletionSignatures (\<lambda>_. FnSigs p f))\<rparr>"

subsection \<open>Packages\<close>

text \<open>
  A package that no domain has replaced. A user may customise an algorithm for arguments of his own by \<open>tag_invoke\<close>, which gives a foreign
  sender; this library never does. Without such a customisation the package connects to \<open>TFatalOpState\<close> and declares what its
  tag requires.
\<close>

type_synonym custom = "tag \<Rightarrow> sender \<Rightarrow> data \<Rightarrow> nat option"

definition no_custom :: custom where
  "no_custom t s d = None"

definition GetCompSigs :: "custom \<Rightarrow> tag \<Rightarrow> sender \<Rightarrow> data \<Rightarrow> sig_env \<Rightarrow> sig list \<Rightarrow> sig list" where
  "GetCompSigs tinv t s d p cs =
     (case tinv t s d of
        Some n \<Rightarrow> ForeignSigs p n
      | None \<Rightarrow> Make p cs (TRequiredStoppedCompletionSignatures (required_of t))
          (\<lambda>_. TRequiredValueCompletionSignatures (required_of t)))"

definition TSenderPackage_class :: "custom \<Rightarrow> tag \<Rightarrow> sender \<Rightarrow> data \<Rightarrow> sender_class" where
  "TSenderPackage_class tinv t s d =
     \<lparr>connect_op = (\<lambda>c. case tinv t s d of Some n \<Rightarrow> ForeignOp n | None \<Rightarrow> TFatalOpState),
      env_op = (\<lambda>e. e), sigs_op = GetCompSigs tinv t s d\<rparr>"

definition TSenderPackage_just_class :: "custom \<Rightarrow> tag \<Rightarrow> data \<Rightarrow> sender_class" where
  "TSenderPackage_just_class tinv t d =
     \<lparr>connect_op = (\<lambda>c. case tinv t (just []) d of Some n \<Rightarrow> ForeignOp n | None \<Rightarrow> TFatalOpState),
      env_op = (\<lambda>e. e), sigs_op = GetCompSigs tinv t (just []) d\<rparr>"

section \<open>The class of a sender\<close>

primrec class_of :: "custom \<Rightarrow> sender \<Rightarrow> sender_class" where
  "class_of tinv (just vs) = just_class vs"
| "class_of tinv (Foreign n e) = foreign_class n e"
| "class_of tinv (TScheduleSender l) = TScheduleSender_class l"
| "class_of tinv (TAfterScheduleSender ty l t) = TAfterScheduleSender_class ty l t"
| "class_of tinv (TUponSignalScheduleSender l n) = TUponSignalScheduleSender_class l n"
| "class_of tinv (TSenderPackage t s d) =
     (if s = just [] then TSenderPackage_just_class tinv t d else TSenderPackage_class tinv t s d)"
| "class_of tinv (TCloseSender s h) =
     (if s = just [] then TCloseSender_just_class h else TCloseSender_class h)"
| "class_of tinv (TConnectSender s h) = TConnectSender_class h"
| "class_of tinv (TShutdownSender s h) =
     (if s = just [] then TShutdownSender_just_class h else TShutdownSender_class h)"
| "class_of tinv (TWriteSender s h) = TWriteSender_class h"
| "class_of tinv (TReadSomeSender s h) = TReadSomeSender_class h"
| "class_of tinv (TReadUntilSender s f h) = TReadUntilSender_class f h"
| "class_of tinv (TSendSender s h) = TSendSender_class h"
| "class_of tinv (TSendToSender s h) = TSendToSender_class h"
| "class_of tinv (TReceiveSender s h) = TReceiveSender_class h"
| "class_of tinv (TReceiveFromSender s h) = TReceiveFromSender_class h"
| "class_of tinv (TTcpAcceptSender s l h) =
     (if s = just [] then TTcpAcceptSender_just_class l h else TTcpAcceptSender_class l h)"
| "class_of tinv (TAfterSender ty s l t) =
     (if s = just [] then TAfterSender_just_class ty l t else TAfterSender_class ty l t)"
| "class_of tinv (TUponSignalSender s l n) =
     (if s = just [] then TUponSignalSender_just_class l n else TUponSignalSender_class l n)"
| "class_of tinv (TAsyncValueSender s f) = TAsyncValueSender_class f"
| "class_of tinv (TBindToSender s f) = TBindToSender_class f"
| "class_of tinv (TConnectToSender s f) = TConnectToSender_class s f"
| "class_of tinv (TAcceptFromSender s l f) =
     (if s = just [] then TAcceptFromSender_just_class l f else TAcceptFromSender_class s l f)"

primrec child :: "sender \<Rightarrow> sender option" where
  "child (just vs) = None"
| "child (Foreign n e) = None"
| "child (TScheduleSender l) = None"
| "child (TAfterScheduleSender ty l t) = None"
| "child (TUponSignalScheduleSender l n) = None"
| "child (TSenderPackage t s d) = Some s"
| "child (TCloseSender s h) = Some s"
| "child (TConnectSender s h) = Some s"
| "child (TShutdownSender s h) = Some s"
| "child (TWriteSender s h) = Some s"
| "child (TReadSomeSender s h) = Some s"
| "child (TReadUntilSender s f h) = Some s"
| "child (TSendSender s h) = Some s"
| "child (TSendToSender s h) = Some s"
| "child (TReceiveSender s h) = Some s"
| "child (TReceiveFromSender s h) = Some s"
| "child (TTcpAcceptSender s l h) = Some s"
| "child (TAfterSender ty s l t) = Some s"
| "child (TUponSignalSender s l n) = Some s"
| "child (TAsyncValueSender s f) = Some s"
| "child (TBindToSender s f) = Some s"
| "child (TConnectToSender s f) = Some s"
| "child (TAcceptFromSender s l f) = Some s"

lemma child_size: "child s = Some c \<Longrightarrow> size c < size s"
  by (cases s) simp_all

text \<open>
  \<open>get_env\<close>, which does not depend on the customisations, and the declared signatures. stdexec asks a sender for its signatures as the
  receiver's domain transforms it, so a package is asked only where no domain transforms it.
\<close>

function get_env :: "sender \<Rightarrow> sender_env" where
  "get_env s =
     env_op (class_of no_custom s) (case child s of None \<Rightarrow> empty_env | Some c \<Rightarrow> get_env c)"
  by pat_completeness auto

termination get_env
  by (relation "measure size") (simp_all add: child_size)

function declared :: "custom \<Rightarrow> sig_env \<Rightarrow> sender \<Rightarrow> sig list" where
  "declared tinv p s =
     sigs_op (class_of tinv s) p (case child s of None \<Rightarrow> [] | Some c \<Rightarrow> declared tinv p c)"
  by pat_completeness auto

termination declared
  by (relation "measure (\<lambda>(tinv, p, s). size s)") (simp_all add: child_size)

declare get_env.simps [simp del] declared.simps [simp del]

lemma get_env_child [simp]:
  "child s = None \<Longrightarrow> get_env s = env_op (class_of no_custom s) empty_env"
  "child s = Some c \<Longrightarrow> get_env s = env_op (class_of no_custom s) (get_env c)"
  by (subst get_env.simps; simp)+

lemma declared_child [simp]:
  "child s = None \<Longrightarrow> declared tinv p s = sigs_op (class_of tinv s) p []"
  "child s = Some c \<Longrightarrow> declared tinv p s = sigs_op (class_of tinv s) p (declared tinv p c)"
  by (subst declared.simps; simp)+

lemmas package_classes = TSenderPackage_class_def TSenderPackage_just_class_def

lemmas own_classes = just_class_def foreign_class_def TScheduleSender_class_def
  TAfterScheduleSender_class_def TUponSignalScheduleSender_class_def TAfterSender_class_def
  TAfterSender_just_class_def TUponSignalSender_class_def TUponSignalSender_just_class_def
  TCloseSender_class_def TCloseSender_just_class_def TConnectSender_class_def
  TShutdownSender_class_def TShutdownSender_just_class_def TWriteSender_class_def
  TReadSomeSender_class_def TReadUntilSender_class_def TSendSender_class_def
  TSendToSender_class_def TReceiveSender_class_def TReceiveFromSender_class_def
  TTcpAcceptSender_class_def TTcpAcceptSender_just_class_def TAsyncValueSender_class_def
  TBindToSender_class_def TConnectToSender_class_def TAcceptFromSender_class_def
  TAcceptFromSender_just_class_def

lemmas required_defs = after_t_required_def at_t_required_def upon_signal_t_required_def
  connect_t_required_def accept_t_required_def shutdown_t_required_def close_t_required_def
  receive_t_required_def read_some_t_required_def read_until_t_required_def
  receive_from_t_required_def send_t_required_def write_some_t_required_def send_to_t_required_def

text \<open>The specialisations over \<open>just()\<close> declare what the general classes do.\<close>

lemma just_classes_sigs [simp]:
  "sigs_op (if b then TAfterSender_just_class ty l t else TAfterSender_class ty l t) =
     sigs_op (TAfterSender_class ty l t)"
  "sigs_op (if b then TUponSignalSender_just_class l n else TUponSignalSender_class l n) =
     sigs_op (TUponSignalSender_class l n)"
  "sigs_op (if b then TCloseSender_just_class h else TCloseSender_class h) =
     sigs_op (TCloseSender_class h)"
  "sigs_op (if b then TShutdownSender_just_class h else TShutdownSender_class h) =
     sigs_op (TShutdownSender_class h)"
  "sigs_op (if b then TTcpAcceptSender_just_class k h else TTcpAcceptSender_class k h) =
     sigs_op (TTcpAcceptSender_class k h)"
  by (simp_all add: own_classes)

end
