(* ===== verification/Senders.thy ===== *)
theory Senders
  imports Sender_Classes
begin

text \<open>
  The sender algorithms of include/uvexec/interface/uvexec.hpp as functions on sender expressions: every algorithm
  packs its arguments (\<open>TSenderPackage\<close>, interface/domain.hpp), the domain of the sender (\<open>GetEarlyDomain\<close>), or later that of the
  receiver, replaces the package by the sender of this library (the \<open>tag_invoke\<close>s for \<open>TLoop::TDomain\<close> of tcp.hpp, udp.hpp, tcp_listener.hpp,
  after.hpp, upon_signal.hpp and accept.hpp), and \<open>connect\<close> makes the operation state. The pipe forms are the
  closures of interface/closure.hpp and the senders over \<open>just()\<close>.
\<close>

section \<open>The domain of a loop\<close>

text \<open>\<open>GetEarlyDomain\<close>: the default domain stands for a sender without one.\<close>

definition GetEarlyDomain :: "sender \<Rightarrow> domain" where
  "GetEarlyDomain s = (case EnvDomain (get_env s) of Some d \<Rightarrow> d | None \<Rightarrow> DefaultDomain)"

text \<open>The customisations for TCP sockets, for UDP sockets, of \<open>close\<close> for listeners, and of \<open>accept\<close>.\<close>

definition tcp_customize :: "tag \<Rightarrow> sender \<Rightarrow> data \<Rightarrow> sender option" where
  "tcp_customize t s d =
     (case d of
        OnSocket (Tcp h) \<Rightarrow>
          (case t of
             close_t \<Rightarrow> Some (TCloseSender s (Tcp h))
           | connect_t \<Rightarrow> Some (TConnectSender s (Tcp h))
           | shutdown_t \<Rightarrow> Some (TShutdownSender s (Tcp h))
           | send_t \<Rightarrow> Some (TWriteSender s (Tcp h))
           | write_some_t \<Rightarrow> Some (TWriteSender s (Tcp h))
           | receive_t \<Rightarrow> Some (TReadSomeSender s (Tcp h))
           | read_some_t \<Rightarrow> Some (TReadSomeSender s (Tcp h))
           | _ \<Rightarrow> None)
      | OnSocketUntil (Tcp h) c \<Rightarrow>
          (if t = read_until_t \<and> nothrow_condition c then Some (TReadUntilSender s c (Tcp h)) else None)
      | _ \<Rightarrow> None)"

definition udp_customize :: "tag \<Rightarrow> sender \<Rightarrow> data \<Rightarrow> sender option" where
  "udp_customize t s d =
     (case d of
        OnSocket (Udp h) \<Rightarrow>
          (case t of
             close_t \<Rightarrow> Some (TCloseSender s (Udp h))
           | send_to_t \<Rightarrow> Some (TSendToSender s (Udp h))
           | receive_from_t \<Rightarrow> Some (TReceiveFromSender s (Udp h))
           | connect_t \<Rightarrow> Some (TConnectSender s (Udp h))
           | receive_t \<Rightarrow> Some (TReceiveSender s (Udp h))
           | send_t \<Rightarrow> Some (TSendSender s (Udp h))
           | _ \<Rightarrow> None)
      | _ \<Rightarrow> None)"

definition listener_customize :: "tag \<Rightarrow> sender \<Rightarrow> data \<Rightarrow> sender option" where
  "listener_customize t s d =
     (case d of
        OnSocket (TcpListener h) \<Rightarrow> if t = close_t then Some (TCloseSender s (Tcp h)) else None
      | _ \<Rightarrow> None)"

definition accept_customize :: "tag \<Rightarrow> sender \<Rightarrow> data \<Rightarrow> sender option" where
  "accept_customize t s d =
     (case d of
        OnListener (TcpListener l) (Tcp h) \<Rightarrow>
          if t = accept_t then Some (TTcpAcceptSender s (TcpListener l) (Tcp h)) else None
      | _ \<Rightarrow> None)"

text \<open>
  The timers and signals need a loop, and have two customisations each: the early one takes the loop of the sender's
  completion scheduler, the late one that of the scheduler of the receiver's environment.
\<close>

definition after_early :: "tag \<Rightarrow> sender \<Rightarrow> data \<Rightarrow> sender option" where
  "after_early t s d =
     (case (EnvScheduler (get_env s), d) of
        (Some l, Millis n) \<Rightarrow> if t = after_t then Some (TAfterSender_new After s l n) else None
      | _ \<Rightarrow> None)"

definition after_late :: "ptr option \<Rightarrow> tag \<Rightarrow> sender \<Rightarrow> data \<Rightarrow> sender option" where
  "after_late sch t s d =
     (case (sch, d) of
        (Some l, Millis n) \<Rightarrow> if t = after_t then Some (TAfterSender_new After s l n) else None
      | _ \<Rightarrow> None)"

definition at_early :: "tag \<Rightarrow> sender \<Rightarrow> data \<Rightarrow> sender option" where
  "at_early t s d =
     (case (EnvScheduler (get_env s), d) of
        (Some l, Millis n) \<Rightarrow> if t = at_t then Some (TAfterSender_new At s l n) else None
      | _ \<Rightarrow> None)"

definition at_late :: "ptr option \<Rightarrow> tag \<Rightarrow> sender \<Rightarrow> data \<Rightarrow> sender option" where
  "at_late sch t s d =
     (case (sch, d) of
        (Some l, Millis n) \<Rightarrow> if t = at_t then Some (TAfterSender_new At s l n) else None
      | _ \<Rightarrow> None)"

definition upon_signal_early :: "tag \<Rightarrow> sender \<Rightarrow> data \<Rightarrow> sender option" where
  "upon_signal_early t s d =
     (case (EnvScheduler (get_env s), d) of
        (Some l, Signum n) \<Rightarrow> if t = upon_signal_t then Some (TUponSignalSender s l n) else None
      | _ \<Rightarrow> None)"

definition upon_signal_late :: "ptr option \<Rightarrow> tag \<Rightarrow> sender \<Rightarrow> data \<Rightarrow> sender option" where
  "upon_signal_late sch t s d =
     (case (sch, d) of
        (Some l, Signum n) \<Rightarrow> if t = upon_signal_t then Some (TUponSignalSender s l n) else None
      | _ \<Rightarrow> None)"

definition first_some :: "'a option list \<Rightarrow> 'a option" where
  "first_some xs = (case filter (\<lambda>x. x \<noteq> None) xs of [] \<Rightarrow> None | x # _ \<Rightarrow> x)"

fun loop_customize :: "sender \<Rightarrow> sender option" where
  "loop_customize (TSenderPackage t s d) =
     first_some [tcp_customize t s d, udp_customize t s d, listener_customize t s d,
       accept_customize t s d, after_early t s d, at_early t s d, upon_signal_early t s d]"
| "loop_customize s = None"

fun loop_customize_env :: "ptr option \<Rightarrow> sender \<Rightarrow> sender option" where
  "loop_customize_env sch (TSenderPackage t s d) =
     first_some [after_late sch t s d, at_late sch t s d, upon_signal_late sch t s d]"
| "loop_customize_env sch s = None"

text \<open>\<open>TLoop::TDomain::transform_sender\<close>, without and with an environment; a domain that does not customise a sender leaves it
  as it is, and so does the default domain.\<close>

definition TDomain_transform_sender :: "sender \<Rightarrow> sender" where
  "TDomain_transform_sender s = (case loop_customize s of Some s' \<Rightarrow> s' | None \<Rightarrow> s)"

definition TDomain_transform_sender_env :: "ptr option \<Rightarrow> sender \<Rightarrow> sender" where
  "TDomain_transform_sender_env sch s =
     (case loop_customize_env sch s of Some s' \<Rightarrow> s' | None \<Rightarrow> TDomain_transform_sender s)"

definition transform_sender :: "domain \<Rightarrow> sender \<Rightarrow> sender" where
  "transform_sender d s = (if d = LoopDomain then TDomain_transform_sender s else s)"

definition transform_sender_env :: "domain \<Rightarrow> ptr option \<Rightarrow> sender \<Rightarrow> sender" where
  "transform_sender_env d sch s = (if d = LoopDomain then TDomain_transform_sender_env sch s else s)"

section \<open>The algorithms\<close>

text \<open>
  Each with a sender, over \<open>just\<close> without one, and as a closure. The binders of interface/closure.hpp keep the socket, and
  the condition of \<open>read_until\<close> or the function of a body, for the sender that comes.
\<close>

datatype body_tag = async_value_t | bind_to_t | connect_to_t

datatype closure =
    TSocketBinder socket tag
  | TSocketArgBinder condition socket tag
  | TArgBinder nat body_tag

definition MakeSenderPackage :: "tag \<Rightarrow> sender \<Rightarrow> data \<Rightarrow> sender" where
  "MakeSenderPackage t s d = TSenderPackage t s d"

definition after :: "sender \<Rightarrow> int \<Rightarrow> sender" where
  "after s t = transform_sender (GetEarlyDomain s) (MakeSenderPackage after_t s (Millis t))"

definition after_just :: "int \<Rightarrow> sender" where
  "after_just t = after (just []) t"

definition at :: "sender \<Rightarrow> int \<Rightarrow> sender" where
  "at s t = transform_sender (GetEarlyDomain s) (MakeSenderPackage at_t s (Millis t))"

definition at_just :: "int \<Rightarrow> sender" where
  "at_just t = at (just []) t"

definition upon_signal :: "sender \<Rightarrow> int \<Rightarrow> sender" where
  "upon_signal s n = transform_sender (GetEarlyDomain s) (MakeSenderPackage upon_signal_t s (Signum n))"

definition upon_signal_just :: "int \<Rightarrow> sender" where
  "upon_signal_just n = upon_signal (just []) n"

definition connect :: "sender \<Rightarrow> socket \<Rightarrow> sender" where
  "connect s h = transform_sender (GetEarlyDomain s) (MakeSenderPackage connect_t s (OnSocket h))"

definition connect_just :: "socket \<Rightarrow> nat \<Rightarrow> sender" where
  "connect_just h ep = connect (just [ep]) h"

definition connect_binder :: "socket \<Rightarrow> closure" where
  "connect_binder h = TSocketBinder h connect_t"

definition accept :: "sender \<Rightarrow> socket \<Rightarrow> socket \<Rightarrow> sender" where
  "accept s l h = transform_sender (GetEarlyDomain s) (MakeSenderPackage accept_t s (OnListener l h))"

definition accept_just :: "socket \<Rightarrow> socket \<Rightarrow> sender" where
  "accept_just l h = accept (just []) l h"

definition shutdown :: "sender \<Rightarrow> socket \<Rightarrow> sender" where
  "shutdown s h = transform_sender (GetEarlyDomain s) (MakeSenderPackage shutdown_t s (OnSocket h))"

definition shutdown_just :: "socket \<Rightarrow> sender" where
  "shutdown_just h = shutdown (just []) h"

definition close :: "sender \<Rightarrow> socket \<Rightarrow> sender" where
  "close s h = transform_sender (GetEarlyDomain s) (MakeSenderPackage close_t s (OnSocket h))"

definition close_just :: "socket \<Rightarrow> sender" where
  "close_just h = close (just []) h"

definition receive :: "sender \<Rightarrow> socket \<Rightarrow> sender" where
  "receive s h = transform_sender (GetEarlyDomain s) (MakeSenderPackage receive_t s (OnSocket h))"

definition receive_just :: "socket \<Rightarrow> nat \<Rightarrow> sender" where
  "receive_just h buf = receive (just [buf]) h"

definition receive_binder :: "socket \<Rightarrow> closure" where
  "receive_binder h = TSocketBinder h receive_t"

definition read_some :: "sender \<Rightarrow> socket \<Rightarrow> sender" where
  "read_some s h = transform_sender (GetEarlyDomain s) (MakeSenderPackage read_some_t s (OnSocket h))"

definition read_some_just :: "socket \<Rightarrow> nat \<Rightarrow> sender" where
  "read_some_just h buf = read_some (just [buf]) h"

definition read_some_binder :: "socket \<Rightarrow> closure" where
  "read_some_binder h = TSocketBinder h read_some_t"

definition read_until :: "sender \<Rightarrow> socket \<Rightarrow> condition \<Rightarrow> sender" where
  "read_until s h f = transform_sender (GetEarlyDomain s) (MakeSenderPackage read_until_t s (OnSocketUntil h f))"

definition read_until_just :: "socket \<Rightarrow> nat \<Rightarrow> condition \<Rightarrow> sender" where
  "read_until_just h buf f = read_until (just [buf]) h f"

definition read_until_binder :: "socket \<Rightarrow> condition \<Rightarrow> closure" where
  "read_until_binder h f = TSocketArgBinder f h read_until_t"

definition receive_from :: "sender \<Rightarrow> socket \<Rightarrow> sender" where
  "receive_from s h = transform_sender (GetEarlyDomain s) (MakeSenderPackage receive_from_t s (OnSocket h))"

definition receive_from_just :: "socket \<Rightarrow> nat \<Rightarrow> nat \<Rightarrow> sender" where
  "receive_from_just h buf ep = receive_from (just [buf, ep]) h"

definition receive_from_binder :: "socket \<Rightarrow> closure" where
  "receive_from_binder h = TSocketBinder h receive_from_t"

definition send :: "sender \<Rightarrow> socket \<Rightarrow> sender" where
  "send s h = transform_sender (GetEarlyDomain s) (MakeSenderPackage send_t s (OnSocket h))"

definition send_just :: "socket \<Rightarrow> nat \<Rightarrow> sender" where
  "send_just h buf = send (just [buf]) h"

definition send_binder :: "socket \<Rightarrow> closure" where
  "send_binder h = TSocketBinder h send_t"

definition write_some :: "sender \<Rightarrow> socket \<Rightarrow> sender" where
  "write_some s h = transform_sender (GetEarlyDomain s) (MakeSenderPackage write_some_t s (OnSocket h))"

definition write_some_just :: "socket \<Rightarrow> nat \<Rightarrow> sender" where
  "write_some_just h buf = write_some (just [buf]) h"

definition write_some_binder :: "socket \<Rightarrow> closure" where
  "write_some_binder h = TSocketBinder h write_some_t"

definition send_to :: "sender \<Rightarrow> socket \<Rightarrow> sender" where
  "send_to s h = transform_sender (GetEarlyDomain s) (MakeSenderPackage send_to_t s (OnSocket h))"

definition send_to_just :: "socket \<Rightarrow> nat \<Rightarrow> nat \<Rightarrow> sender" where
  "send_to_just h buf ep = send_to (just [buf, ep]) h"

definition send_to_binder :: "socket \<Rightarrow> closure" where
  "send_to_binder h = TSocketBinder h send_to_t"

text \<open>The senders with a body are not customised by any domain.\<close>

definition async_value :: "sender \<Rightarrow> nat \<Rightarrow> sender" where
  "async_value s f = transform_sender (GetEarlyDomain s) (TAsyncValueSender s f)"
definition bind_to :: "sender \<Rightarrow> nat \<Rightarrow> sender" where
  "bind_to s f = transform_sender (GetEarlyDomain s) (TBindToSender s f)"
definition connect_to :: "sender \<Rightarrow> nat \<Rightarrow> sender" where
  "connect_to s f = transform_sender (GetEarlyDomain s) (TConnectToSender s f)"
definition accept_from :: "sender \<Rightarrow> socket \<Rightarrow> nat \<Rightarrow> sender" where
  "accept_from s l f = transform_sender (GetEarlyDomain s) (TAcceptFromSender s l f)"

definition bind_to_just :: "nat \<Rightarrow> nat \<Rightarrow> sender" where
  "bind_to_just ep f = bind_to (just [ep]) f"

definition connect_to_just :: "nat \<Rightarrow> nat \<Rightarrow> sender" where
  "connect_to_just ep f = connect_to (just [ep]) f"

definition accept_from_just :: "socket \<Rightarrow> nat \<Rightarrow> sender" where
  "accept_from_just l f = accept_from (just []) l f"

definition async_value_binder :: "nat \<Rightarrow> closure" where
  "async_value_binder f = TArgBinder f async_value_t"

definition bind_to_binder :: "nat \<Rightarrow> closure" where
  "bind_to_binder f = TArgBinder f bind_to_t"

definition connect_to_binder :: "nat \<Rightarrow> closure" where
  "connect_to_binder f = TArgBinder f connect_to_t"

text \<open>\<open>schedule\<close>, \<open>schedule_after\<close>, \<open>schedule_at\<close> and \<open>schedule_upon_signal\<close> of a loop's scheduler.\<close>

definition schedule :: "ptr \<Rightarrow> sender" where "schedule l = TScheduleSender l"
definition schedule_after :: "ptr \<Rightarrow> int \<Rightarrow> sender" where
  "schedule_after l t = TAfterScheduleSender_new After l t"
definition schedule_at :: "ptr \<Rightarrow> int \<Rightarrow> sender" where
  "schedule_at l t = TAfterScheduleSender_new At l t"
definition schedule_upon_signal :: "ptr \<Rightarrow> int \<Rightarrow> sender" where
  "schedule_upon_signal l n = TUponSignalScheduleSender l n"

section \<open>Pipes\<close>

text \<open>
  The call of an algorithm by its tag with the data of a package, as \<open>std::apply(TTag{}, ...)\<close> and \<open>TAlgorithm{}(...)\<close> make it. Data of another
  algorithm's type is no call of it, and neither is \<open>read_until\<close> with a condition that may throw.
\<close>

definition apply_tag :: "tag \<Rightarrow> sender \<Rightarrow> data \<Rightarrow> sender option" where
  "apply_tag t s d =
     (case (t, d) of
        (close_t, OnSocket h) \<Rightarrow> Some (close s h)
      | (connect_t, OnSocket h) \<Rightarrow> Some (connect s h)
      | (shutdown_t, OnSocket h) \<Rightarrow> Some (shutdown s h)
      | (send_t, OnSocket h) \<Rightarrow> Some (send s h)
      | (write_some_t, OnSocket h) \<Rightarrow> Some (write_some s h)
      | (receive_t, OnSocket h) \<Rightarrow> Some (receive s h)
      | (read_some_t, OnSocket h) \<Rightarrow> Some (read_some s h)
      | (read_until_t, OnSocketUntil h f) \<Rightarrow>
          if nothrow_condition f then Some (read_until s h f) else None
      | (send_to_t, OnSocket h) \<Rightarrow> Some (send_to s h)
      | (receive_from_t, OnSocket h) \<Rightarrow> Some (receive_from s h)
      | (accept_t, OnListener l h) \<Rightarrow> Some (accept s l h)
      | (after_t, Millis t) \<Rightarrow> Some (after s t)
      | (at_t, Millis t) \<Rightarrow> Some (at s t)
      | (upon_signal_t, Signum n) \<Rightarrow> Some (upon_signal s n)
      | _ \<Rightarrow> None)"

definition apply_body_tag :: "body_tag \<Rightarrow> sender \<Rightarrow> nat \<Rightarrow> sender" where
  "apply_body_tag t s f =
     (case t of async_value_t \<Rightarrow> async_value s f | bind_to_t \<Rightarrow> bind_to s f | connect_to_t \<Rightarrow> connect_to s f)"

text \<open>The calls of the binders, and of the senders over \<open>just()\<close> that are closures.\<close>

definition TSocketBinder_call :: "socket \<Rightarrow> tag \<Rightarrow> sender \<Rightarrow> sender option" where
  "TSocketBinder_call h t s = apply_tag t s (OnSocket h)"

definition TSocketArgBinder_call :: "condition \<Rightarrow> socket \<Rightarrow> tag \<Rightarrow> sender \<Rightarrow> sender option" where
  "TSocketArgBinder_call f h t s = apply_tag t s (OnSocketUntil h f)"

definition TArgBinder_call :: "nat \<Rightarrow> body_tag \<Rightarrow> sender \<Rightarrow> sender option" where
  "TArgBinder_call f t s = Some (apply_body_tag t s f)"

definition TSenderPackage_call :: "tag \<Rightarrow> data \<Rightarrow> sender \<Rightarrow> sender option" where
  "TSenderPackage_call t d s = apply_tag t s d"

definition TCloseSender_call :: "socket \<Rightarrow> sender \<Rightarrow> sender option" where
  "TCloseSender_call h s = Some (close s h)"

definition TShutdownSender_call :: "socket \<Rightarrow> sender \<Rightarrow> sender option" where
  "TShutdownSender_call h s = Some (shutdown s h)"

definition TTcpAcceptSender_call :: "socket \<Rightarrow> socket \<Rightarrow> sender \<Rightarrow> sender option" where
  "TTcpAcceptSender_call l h s = Some (accept s l h)"

definition TAcceptFromSender_call :: "socket \<Rightarrow> nat \<Rightarrow> sender \<Rightarrow> sender option" where
  "TAcceptFromSender_call l f s = Some (TAcceptFromSender s l f)"

text \<open>The calls of \<open>TAfterSender\<close> and \<open>TUponSignalSender\<close> pass the loop too: no overload of the algorithms takes it, and the calls do not
  compile.\<close>

definition TAfterSender_call :: "ETimerType \<Rightarrow> ptr \<Rightarrow> int \<Rightarrow> sender \<Rightarrow> sender option" where
  "TAfterSender_call ty l t s = None"

definition TUponSignalSender_call :: "ptr \<Rightarrow> int \<Rightarrow> sender \<Rightarrow> sender option" where
  "TUponSignalSender_call l n s = None"

fun binder_call :: "closure \<Rightarrow> sender \<Rightarrow> sender option" where
  "binder_call (TSocketBinder h t) s = TSocketBinder_call h t s"
| "binder_call (TSocketArgBinder f h t) s = TSocketArgBinder_call f h t s"
| "binder_call (TArgBinder f t) s = TArgBinder_call f t s"

text \<open>\<open>s | c\<close> where \<open>c\<close> is a sender: it has to be a closure, so one over \<open>just()\<close> of the right class.\<close>

definition sender_call :: "sender \<Rightarrow> sender \<Rightarrow> sender option" where
  "sender_call c s =
     (if child c \<noteq> Some (just []) then None
      else case c of
          TSenderPackage t x d \<Rightarrow> TSenderPackage_call t d s
        | TCloseSender x h \<Rightarrow> TCloseSender_call h s
        | TShutdownSender x h \<Rightarrow> TShutdownSender_call h s
        | TTcpAcceptSender x l h \<Rightarrow> TTcpAcceptSender_call l h s
        | TAcceptFromSender x l f \<Rightarrow> TAcceptFromSender_call l f s
        | TAfterSender ty x l t \<Rightarrow> TAfterSender_call ty l t s
        | TUponSignalSender x l n \<Rightarrow> TUponSignalSender_call l n s
        | _ \<Rightarrow> None)"

section \<open>Connecting\<close>

text \<open>
  \<open>connect\<close> of a sender to a receiver whose environment has the domain \<open>d\<close> and the scheduler \<open>sch\<close>: stdexec first lets the domain transform
  the sender, the library then connects the child. The receivers given to the child forward the environment.
\<close>

function connect_sender :: "custom \<Rightarrow> domain \<Rightarrow> ptr option \<Rightarrow> sender \<Rightarrow> opstate" where
  "connect_sender tinv d sch s =
     connect_op (class_of tinv (transform_sender_env d sch s))
       (case child s of None \<Rightarrow> TFatalOpState | Some c \<Rightarrow> connect_sender tinv d sch c)"
  by pat_completeness auto

termination connect_sender
  by (relation "measure (\<lambda>(tinv, d, sch, s). size s)") (simp_all add: child_size)

declare connect_sender.simps [simp del]

section \<open>Which algorithms run on which sockets\<close>

definition supported :: "tag \<Rightarrow> data \<Rightarrow> bool" where
  "supported t d \<longleftrightarrow>
     (case d of
        OnSocket (Tcp h) \<Rightarrow>
          t \<in> {close_t, connect_t, shutdown_t, send_t, write_some_t, receive_t, read_some_t}
      | OnSocket (Udp h) \<Rightarrow> t \<in> {close_t, connect_t, send_t, receive_t, send_to_t, receive_from_t}
      | OnSocket (TcpListener h) \<Rightarrow> t = close_t
      | OnSocketUntil (Tcp h) c \<Rightarrow> t = read_until_t \<and> nothrow_condition c
      | OnListener (TcpListener l) (Tcp h) \<Rightarrow> t = accept_t
      | Millis n \<Rightarrow> t \<in> {after_t, at_t}
      | Signum n \<Rightarrow> t = upon_signal_t
      | _ \<Rightarrow> False)"

text \<open>What the domain makes of a package where the loop is \<open>sch\<close>, be it early or late.\<close>

definition customize :: "ptr option \<Rightarrow> tag \<Rightarrow> sender \<Rightarrow> data \<Rightarrow> sender option" where
  "customize sch t s d =
     first_some [tcp_customize t s d, udp_customize t s d, listener_customize t s d,
       accept_customize t s d, after_late sch t s d, at_late sch t s d, upon_signal_late sch t s d]"

definition timed :: "tag \<Rightarrow> bool" where
  "timed t \<longleftrightarrow> t \<in> {after_t, at_t, upon_signal_t}"

lemmas customize_defs = customize_def tcp_customize_def udp_customize_def listener_customize_def
  accept_customize_def after_late_def at_late_def upon_signal_late_def

lemma first_some_simps [simp]:
  "first_some [] = None" "first_some (None # xs) = first_some xs" "first_some (Some x # xs) = Some x"
  by (simp_all add: first_some_def)

text \<open>The early customisations are the late ones for the sender's own loop.\<close>

lemma early_is_late:
  "after_early t s d = after_late (EnvScheduler (get_env s)) t s d"
  "at_early t s d = at_late (EnvScheduler (get_env s)) t s d"
  "upon_signal_early t s d = upon_signal_late (EnvScheduler (get_env s)) t s d"
  by (simp_all add: after_early_def after_late_def at_early_def at_late_def upon_signal_early_def
      upon_signal_late_def)

lemma loop_customize_package [simp]:
  "loop_customize (TSenderPackage t s d) = customize (EnvScheduler (get_env s)) t s d"
  by (simp add: customize_def early_is_late)

declare loop_customize.simps(1) [simp del]

lemma customize_supported: "customize (Some l) t s d \<noteq> None \<longleftrightarrow> supported t d"
  by (cases t) (simp_all add: customize_defs supported_def split: data.split socket.split)

text \<open>What becomes of a package, and that nothing else is transformed.\<close>

lemma not_package_transform:
  "(\<And>t c d. s \<noteq> TSenderPackage t c d) \<Longrightarrow> transform_sender_env D sch s = s"
  by (cases s)
    (auto simp: transform_sender_env_def TDomain_transform_sender_env_def
      TDomain_transform_sender_def)

definition customises :: "tag \<Rightarrow> sender \<Rightarrow> sender \<Rightarrow> bool" where
  "customises t s x \<longleftrightarrow> child x = Some s \<and> (\<forall>t' c d'. x \<noteq> TSenderPackage t' c d') \<and>
     env_op (class_of no_custom x) = (\<lambda>e. e) \<and>
     (\<forall>tinv c. resolved (connect_op (class_of tinv x) c) \<longleftrightarrow> \<not> (t = shutdown_t \<and> s = just []) \<and> resolved c)"

lemma customises_own:
  "t \<noteq> shutdown_t \<Longrightarrow> customises t s (TCloseSender s h)"
  "t \<noteq> shutdown_t \<Longrightarrow> customises t s (TConnectSender s h)"
  "t \<noteq> shutdown_t \<Longrightarrow> customises t s (TWriteSender s h)"
  "t \<noteq> shutdown_t \<Longrightarrow> customises t s (TReadSomeSender s h)"
  "t \<noteq> shutdown_t \<Longrightarrow> customises t s (TReadUntilSender s f h)"
  "t \<noteq> shutdown_t \<Longrightarrow> customises t s (TSendSender s h)"
  "t \<noteq> shutdown_t \<Longrightarrow> customises t s (TSendToSender s h)"
  "t \<noteq> shutdown_t \<Longrightarrow> customises t s (TReceiveSender s h)"
  "t \<noteq> shutdown_t \<Longrightarrow> customises t s (TReceiveFromSender s h)"
  "t \<noteq> shutdown_t \<Longrightarrow> customises t s (TTcpAcceptSender s l h)"
  "t \<noteq> shutdown_t \<Longrightarrow> customises t s (TAfterSender ty s k n)"
  "t \<noteq> shutdown_t \<Longrightarrow> customises t s (TUponSignalSender s k n)"
  "customises shutdown_t s (TShutdownSender s h)"
  unfolding customises_def by (simp_all add: own_classes)

lemma customize_customises: "customize sch t s d = Some x \<Longrightarrow> customises t s x"
  unfolding customize_defs TAfterSender_new_def
  by (cases d; cases t) (auto simp: customises_own split: socket.splits option.splits if_splits)

lemma customize_shape:
  assumes "customize sch t s d = Some x"
  shows "child x = Some s" "\<And>t' c d'. x \<noteq> TSenderPackage t' c d'" "get_env x = get_env s"
    "resolved (connect_op (class_of tinv x) c) \<longleftrightarrow> \<not> (t = shutdown_t \<and> s = just []) \<and> resolved c"
  using customize_customises [OF assms] by (simp_all add: customises_def)

lemma env_customize_cases:
  "loop_customize_env sch (TSenderPackage t s d) =
     (if timed t then customize sch t s d else None)"
  by (cases t) (simp_all add: timed_def customize_defs split: data.split socket.split option.split)

text \<open>In a loop's environment the package of a timed algorithm becomes what it is for the environment's scheduler, that
  of another algorithm what it is for the sender.\<close>

lemma untimed_scheduler:
  "\<not> timed t \<Longrightarrow> customize sch t s d =
   customize sch' t s d"
  by (cases t) (simp_all add: timed_def customize_defs split: data.split socket.split option.split)

lemma transform_package:
  "transform_sender_env LoopDomain (Some l) (TSenderPackage t s d) =
     (case customize (Some l) t s d of
        Some x \<Rightarrow> x | None \<Rightarrow>
        (case loop_customize (TSenderPackage t s d) of Some x \<Rightarrow> x | None \<Rightarrow> TSenderPackage t s d))"
  unfolding transform_sender_env_def TDomain_transform_sender_env_def TDomain_transform_sender_def
    env_customize_cases
  using untimed_scheduler [of t "Some l" s d "EnvScheduler (get_env s)"]
  by (cases "timed t") (simp_all split: option.split)

lemma some_customize_supported: "customize sch t s d = Some x \<Longrightarrow> supported t d"
  by (cases t; auto simp: customize_defs supported_def
      split: data.splits socket.splits option.splits if_splits)

lemma connect_package:
  "connect_sender tinv LoopDomain (Some l) (TSenderPackage t s d) =
     (case customize (Some l) t s d of
        Some x \<Rightarrow> connect_op (class_of tinv x) (connect_sender tinv LoopDomain (Some l) s)
      | None \<Rightarrow> (case tinv t s d of Some n \<Rightarrow> ForeignOp n | None \<Rightarrow> TFatalOpState))"
proof (cases "customize (Some l) t s d")
  case None
  then have "customize (EnvScheduler (get_env s)) t s d = None"
    using customize_supported [of l t s d] some_customize_supported
    by (cases "customize (EnvScheduler (get_env s)) t s d") auto
  then show ?thesis
    using None by (subst connect_sender.simps) (simp add: transform_package package_classes)
next
  case (Some x)
  then show ?thesis by (subst connect_sender.simps) (simp add: transform_package)
qed

text \<open>What a package has become is not transformed again.\<close>

lemma connect_customised:
  "customize sch t s d = Some x \<Longrightarrow>
   connect_sender tinv D sch' x = connect_op (class_of tinv x) (connect_sender tinv D sch' s)"
  using customize_shape(1,2) by (subst connect_sender.simps) (simp add: not_package_transform)

section \<open>Closures\<close>

lemma just_domain [simp]: "GetEarlyDomain (just vs) = DefaultDomain"
  by (simp add: GetEarlyDomain_def just_class_def empty_env_def)

lemmas algorithm_defs = after_def at_def upon_signal_def connect_def accept_def shutdown_def close_def
  receive_def read_some_def read_until_def receive_from_def send_def write_some_def send_to_def
  MakeSenderPackage_def

lemmas just_form_defs = after_just_def at_just_def upon_signal_just_def accept_just_def
  shutdown_just_def close_just_def

lemmas closure_defs = connect_binder_def receive_binder_def read_some_binder_def read_until_binder_def
  receive_from_binder_def send_binder_def write_some_binder_def send_to_binder_def
  async_value_binder_def bind_to_binder_def connect_to_binder_def

lemmas call_defs = sender_call_def TSenderPackage_call_def TSocketBinder_call_def
  TSocketArgBinder_call_def TArgBinder_call_def TCloseSender_call_def TShutdownSender_call_def
  TTcpAcceptSender_call_def TAcceptFromSender_call_def TAfterSender_call_def
  TUponSignalSender_call_def apply_tag_def apply_body_tag_def

section \<open>Properties\<close>

text \<open>
  C26: what \<open>connect\<close> finds for an algorithm over a sender, where the receiver lives on a loop. It finds operation states all the way down exactly when the
  socket supports the algorithm (a UDP socket cannot be shut down or read as a stream, a listener can only be closed, \<open>accept\<close> needs a
  listener and a TCP socket, \<open>read_until\<close> a condition that does not throw), they are found for the sender, and it is not
  \<open>shutdown\<close> of a socket without a sender, whose specialised \<open>connect\<close> is ill-formed. For what the library does not support
  there is one where the user has customised it, and \<open>TFatalOpState\<close> otherwise. Whether the sender's values fit the receiver is not part of it.
\<close>

theorem connect_finds_supported_operations:
  "resolved (connect_sender tinv LoopDomain (Some l) (TSenderPackage t s d)) \<longleftrightarrow>
     (if supported t d
      then \<not> (t = shutdown_t \<and> s = just []) \<and> resolved (connect_sender tinv LoopDomain (Some l) s)
      else tinv t s d \<noteq> None)"
proof (cases "customize (Some l) t s d")
  case None
  then show ?thesis
    using customize_supported [of l t s d] by (simp add: connect_package split: option.split)
next
  case (Some x)
  then show ?thesis
    using customize_supported [of l t s d] customize_shape(4) [OF Some]
    by (simp add: connect_package)
qed

text \<open>
  C29: it does not matter when the domain steps in: for a sender that completes on a loop, the algorithm called on it, which is transformed at once
  by the early customisations, and the bare package, which is transformed by the late ones when it is connected, give the same
  operation; for \<open>after\<close>, \<open>at\<close> and \<open>upon_signal\<close>, which have a customisation of each kind, under the condition that the sender's
  loop and the receiver's are the same, for otherwise the timer or signal is on the one or on the other.
\<close>

theorem early_and_late_customisation_agree:
  assumes "GetEarlyDomain s = LoopDomain" "timed t \<Longrightarrow> EnvScheduler (get_env s) = Some l"
  shows "connect_sender tinv LoopDomain (Some l) (transform_sender (GetEarlyDomain s) (MakeSenderPackage t s d)) =
    connect_sender tinv LoopDomain (Some l) (MakeSenderPackage t s d)"
proof (cases "loop_customize (TSenderPackage t s d)")
  case None
  then show ?thesis
    using assms(1)
    by (simp add: MakeSenderPackage_def transform_sender_def TDomain_transform_sender_def)
next
  case (Some x)
  have p: "transform_sender (GetEarlyDomain s) (MakeSenderPackage t s d) = x"
    using Some assms(1)
    by (simp add: MakeSenderPackage_def transform_sender_def TDomain_transform_sender_def)
  have f: "customize (Some l) t s d = Some x"
    using Some assms(2) untimed_scheduler [of t "Some l" s d "EnvScheduler (get_env s)"]
    by (cases "timed t") simp_all
  show ?thesis using p f connect_customised [OF f] by (simp add: MakeSenderPackage_def connect_package)
qed

theorem early_and_late_customisation_agree_witness:
  "connect_sender no_custom LoopDomain (Some 1) (after (schedule 1) (- 5)) =
     connect_sender no_custom LoopDomain (Some 1) (MakeSenderPackage after_t (schedule 1) (Millis (- 5)))"
  unfolding after_def
  by (rule early_and_late_customisation_agree)
    (simp_all add: schedule_def GetEarlyDomain_def TScheduleSender_class_def TScheduler_TEnv_def)

text \<open>
  piping a sender into a closure is calling the algorithm on it: for the algorithms over \<open>just()\<close>, which no domain replaces
  before they are connected, for the binders of sockets and of the condition of \<open>read_until\<close>, and for the binders of functions.
  \<open>accept_from\<close> gives its sender untransformed, which is the same.
\<close>

theorem piping_is_calling:
  "sender_call (after_just t) s = Some (after s t) \<and>
   sender_call (at_just t) s = Some (at s t) \<and>
   sender_call (upon_signal_just n) s = Some (upon_signal s n) \<and>
   sender_call (accept_just l h) s = Some (accept s l h) \<and>
   sender_call (shutdown_just h) s = Some (shutdown s h) \<and>
   sender_call (close_just h) s = Some (close s h) \<and>
   sender_call (accept_from_just l f) s = Some (accept_from s l f) \<and>
   binder_call (connect_binder h) s = Some (connect s h) \<and>
   binder_call (receive_binder h) s = Some (receive s h) \<and>
   binder_call (read_some_binder h) s = Some (read_some s h) \<and>
   (nothrow_condition u \<longrightarrow> binder_call (read_until_binder h u) s = Some (read_until s h u)) \<and>
   binder_call (receive_from_binder h) s = Some (receive_from s h) \<and>
   binder_call (send_binder h) s = Some (send s h) \<and>
   binder_call (write_some_binder h) s = Some (write_some s h) \<and>
   binder_call (send_to_binder h) s = Some (send_to s h) \<and>
   binder_call (async_value_binder f) s = Some (async_value s f) \<and>
   binder_call (bind_to_binder f) s = Some (bind_to s f) \<and>
   binder_call (connect_to_binder f) s = Some (connect_to s f)"
proof -
  have d: "transform_sender DefaultDomain x = x" for x by (simp add: transform_sender_def)
  have "transform_sender D (TAcceptFromSender s l f) = TAcceptFromSender s l f" for D
    by (simp add: transform_sender_def TDomain_transform_sender_def)
  note a = this and b = d [of "TAcceptFromSender (just []) l f"]
  have "sender_call (accept_from_just l f) s = Some (accept_from s l f)"
    unfolding accept_from_just_def accept_from_def just_domain a b by (simp add: call_defs)
  then show ?thesis
    by (simp add: just_form_defs closure_defs algorithm_defs call_defs d)
qed

text \<open>
  what the domain makes of a closure is a closure no longer for timers and signals: once \<open>after\<close>, \<open>at\<close> and
  \<open>upon_signal\<close> over \<open>just()\<close> have been transformed for a loop's scheduler, a sender cannot be piped into the result, while
  \<open>close\<close>, \<open>shutdown\<close> and \<open>accept\<close> can still be called.
\<close>

theorem transformed_timers_are_no_closures:
  "sender_call (TDomain_transform_sender_env (Some k) (after_just t)) s = None \<and>
   sender_call (TDomain_transform_sender_env (Some k) (at_just t)) s = None \<and>
   sender_call (TDomain_transform_sender_env (Some k) (upon_signal_just n)) s = None \<and>
   sender_call (TDomain_transform_sender_env (Some k) (close_just (Tcp h))) s = Some (close s (Tcp h)) \<and>
   sender_call (TDomain_transform_sender_env (Some k) (shutdown_just (Tcp h))) s =
     Some (shutdown s (Tcp h)) \<and>
   sender_call (TDomain_transform_sender_env (Some k) (accept_just (TcpListener j) (Tcp h))) s =
     Some (accept s (TcpListener j) (Tcp h))"
  by (simp add: just_form_defs after_def at_def upon_signal_def close_def shutdown_def accept_def
      MakeSenderPackage_def transform_sender_def TDomain_transform_sender_env_def
      TDomain_transform_sender_def customize_defs TAfterSender_new_def call_defs)

end
