(* ===== verification/Request_Ops.thy ===== *)
theory Request_Ops
  imports Uv_Requests
begin

text \<open>
  The receivers that issue one request and complete when libuv calls back: \<open>TWriteReceiver\<close>,
  \<open>TSendReceiver\<close>, \<open>TSendToReceiver\<close>, \<open>TShutdownReceiver\<close>, \<open>TConnectReceiver\<close> and \<open>TCloseReceiver\<close> of
  include/uvexec/algorithms. Their common contract is the locale \<open>request_op\<close>: one completion, which is the
  error of the call, or the status libuv reports for the request.
\<close>

section \<open>The contract\<close>

text \<open>The child sender completes with arguments \<open>'b\<close>; libuv reports the status of the request.\<close>

datatype 'b revent = RBegin uvenv 'b | RDone TUvError

datatype qphase = QReady | QFlying | QDone completion

definition status_completion :: "TUvError \<Rightarrow> completion" where
  "status_completion st = (if IsError st then SetError (EErrc st) else SetValue [])"

text \<open>\<open>res\<close>: the completion by the call itself, \<open>None\<close> when the request is on its way.\<close>

fun qspec_step :: "completion option \<Rightarrow> 'b revent \<Rightarrow> qphase \<Rightarrow> qphase" where
  "qspec_step res (RBegin env b) QReady = (case res of Some c \<Rightarrow> QDone c | None \<Rightarrow> QFlying)"
| "qspec_step res (RDone st) QFlying = QDone (status_completion st)"
| "qspec_step res e p = p"

fun request_verdict :: "(uvenv \<Rightarrow> 'b \<Rightarrow> completion option) \<Rightarrow> 'b revent list \<Rightarrow> completion option" where
  "request_verdict start (RBegin env b # es) =
     (case start env b of
        Some c \<Rightarrow> Some c
      | None \<Rightarrow> (case es of RDone st # _ \<Rightarrow> Some (status_completion st) | _ \<Rightarrow> None))"
| "request_verdict start es = None"

definition request_outcome ::
    "(uvenv \<Rightarrow> 'b \<Rightarrow> completion option) \<Rightarrow> 'b revent list \<Rightarrow> bool \<Rightarrow> effect list \<Rightarrow> bool" where
  "request_outcome start es flying tr \<longleftrightarrow>
     completions tr = (case request_verdict start es of Some c \<Rightarrow> [c] | None \<Rightarrow> []) \<and>
     (flying \<longleftrightarrow> es \<noteq> [] \<and> request_verdict start es = None)"

fun in_qphase :: "qphase \<Rightarrow> bool \<Rightarrow> bool \<Rightarrow> effect list \<Rightarrow> bool" where
  "in_qphase QReady pend flying tr \<longleftrightarrow> pend \<and> \<not> flying \<and> completions tr = []"
| "in_qphase QFlying pend flying tr \<longleftrightarrow> \<not> pend \<and> flying \<and> completions tr = []"
| "in_qphase (QDone c) pend flying tr \<longleftrightarrow> \<not> pend \<and> \<not> flying \<and> completions tr = [c]"

locale request_op =
  fixes enabled :: "'b revent \<Rightarrow> 's \<Rightarrow> bool"
    and step :: "'b revent \<Rightarrow> 's \<Rightarrow> 's"
    and tr :: "'s \<Rightarrow> effect list"
    and pend :: "'s \<Rightarrow> bool"
    and flying :: "'s \<Rightarrow> bool"
    and start :: "'s \<Rightarrow> uvenv \<Rightarrow> 'b \<Rightarrow> completion option"
  assumes q_step:
      "in_qphase p (pend s) (flying s) (tr s) \<Longrightarrow> enabled e s \<Longrightarrow>
       in_qphase (qspec_step (case e of RBegin env b \<Rightarrow> start s env b | _ \<Rightarrow> None) e p)
         (pend (step e s)) (flying (step e s)) (tr (step e s))"
    and enabled_RBegin: "enabled (RBegin env b) s \<Longrightarrow> pend s"
    and enabled_RDone: "enabled (RDone st) s \<Longrightarrow> flying s"
begin

lemma done_is_final:
  assumes "in_qphase (QDone c) (pend s) (flying s) (tr s)" "admissible enabled step s es"
  shows "es = []"
proof (cases es)
  case (Cons e es')
  then show ?thesis
    using assms enabled_RBegin [of _ _ s] enabled_RDone [of _ s] by (cases e) auto
qed simp

lemma run_outcome:
  assumes "in_qphase QReady (pend s) (flying s) (tr s)" "admissible enabled step s es"
  shows "request_outcome (start s) es (flying (fold step es s)) (tr (fold step es s))"
proof (cases es)
  case Nil
  then show ?thesis using assms(1) by (simp add: request_outcome_def)
next
  case (Cons e es1)
  have en: "enabled e s" and adm: "admissible enabled step (step e s) es1"
    using assms(2) Cons by simp_all
  show ?thesis
  proof (cases e)
    case (RBegin env b)
    note st = q_step [OF assms(1) en]
    show ?thesis
    proof (cases "start s env b")
      case (Some c)
      then have q: "in_qphase (QDone c) (pend (step e s)) (flying (step e s)) (tr (step e s))"
        using st RBegin by simp
      from done_is_final [OF q adm] show ?thesis
        using q Some Cons RBegin by (simp add: request_outcome_def)
    next
      case None
      then have q: "in_qphase QFlying (pend (step e s)) (flying (step e s)) (tr (step e s))"
        using st RBegin by simp
      show ?thesis
      proof (cases es1)
        case Nil
        then show ?thesis using q None Cons RBegin by (simp add: request_outcome_def)
      next
        case (Cons e1 es2)
        have en1: "enabled e1 (step e s)" and adm1: "admissible enabled step (step e1 (step e s)) es2"
          using adm Cons by simp_all
        obtain st where e1: "e1 = RDone st"
          using enabled_RBegin [of _ _ "step e s"] en1 q by (cases e1) auto
        then have q1: "in_qphase (QDone (status_completion st)) (pend (step e1 (step e s)))
            (flying (step e1 (step e s))) (tr (step e1 (step e s)))"
          using q_step [OF q en1] by simp
        from done_is_final [OF q1 adm1] show ?thesis
          using q1 e1 None Cons \<open>es = e # es1\<close> RBegin by (simp add: request_outcome_def)
      qed
    qed
  next
    case (RDone st)
    then show ?thesis using enabled_RDone [of st s] en assms(1) by simp
  qed
qed

end

section \<open>The receivers\<close>

text \<open>\<open>Req\<close> is the address of the request structure, which is part of the receiver and so of the
  child's operation state \<open>RChild\<close>; \<open>ReqBuf\<close> is the descriptor for a single span of bytes.\<close>

record TRequestReceiver = world +
  RChild :: ptr
  Req :: ptr
  Handle :: ptr

record TBufReceiver = TRequestReceiver +
  ReqBuf :: uv_buf_t

definition request_start :: "'a TRequestReceiver_scheme \<Rightarrow> 'a TRequestReceiver_scheme" where
  "request_start r = emit (Started (RChild r)) r"

text \<open>What the child sender may send: a span of buffer descriptors, or of bytes.\<close>

datatype send_arg = Buffers "uv_buf_t list" | Bytes uv_buf_t

text \<open>\<open>TWriteReceiver\<close>.\<close>

definition TWriteReceiver_new :: "ptr \<Rightarrow> ptr \<Rightarrow> ptr \<Rightarrow> TBufReceiver" where
  "TWriteReceiver_new child req socket =
     \<lparr>trace = [], RChild = child, Req = req, Handle = socket, ReqBuf = \<lparr>base = 0, len = 0\<rparr>\<rparr>"

definition TWriteReceiver_set_value_buffers ::
    "uvenv \<Rightarrow> uv_buf_t list \<Rightarrow> TBufReceiver \<Rightarrow> TBufReceiver" where
  "TWriteReceiver_set_value_buffers env buffs r =
     (let (err, r) = Write env (Req r) (Handle r) buffs WriteCallback r
      in if IsError err then set_error (EErrc err) r else r)"

definition TWriteReceiver_set_value_bytes :: "uvenv \<Rightarrow> uv_buf_t \<Rightarrow> TBufReceiver \<Rightarrow> TBufReceiver" where
  "TWriteReceiver_set_value_bytes env buff r =
     (let r = r\<lparr>ReqBuf := buff\<rparr> in TWriteReceiver_set_value_buffers env [ReqBuf r] r)"

definition TWriteReceiver_WriteCallback :: "TUvError \<Rightarrow> TBufReceiver \<Rightarrow> TBufReceiver" where
  "TWriteReceiver_WriteCallback status r =
     (if IsError status then set_error (EErrc status) r else set_value [] r)"

fun TWriteReceiver_step :: "send_arg revent \<Rightarrow> TBufReceiver \<Rightarrow> TBufReceiver" where
  "TWriteReceiver_step (RBegin env (Buffers bs)) r =
     TWriteReceiver_set_value_buffers env bs (emit (ChildDone (RChild r)) r)"
| "TWriteReceiver_step (RBegin env (Bytes b)) r =
     TWriteReceiver_set_value_bytes env b (emit (ChildDone (RChild r)) r)"
| "TWriteReceiver_step (RDone st) r =
     TWriteReceiver_WriteCallback st (emit (Callback WriteCallback (Req r)) r)"

text \<open>The child completes with a value at most once; libuv calls back once for a request it has
  accepted.\<close>

fun request_enabled :: "'b revent \<Rightarrow> 'a TRequestReceiver_scheme \<Rightarrow> bool" where
  "request_enabled (RBegin env b) r \<longleftrightarrow> running (RChild r) (trace r)"
| "request_enabled (RDone st) r \<longleftrightarrow> in_flight (Req r) (trace r)"

definition call_completion :: "TUvError \<Rightarrow> completion option" where
  "call_completion err = (if IsError err then Some (SetError (EErrc err)) else None)"

fun write_start :: "TBufReceiver \<Rightarrow> uvenv \<Rightarrow> send_arg \<Rightarrow> completion option" where
  "write_start r env (Buffers bs) =
     call_completion (env (uv_write (Req r) (Handle r) bs (nbufs_of bs) WriteCallback))"
| "write_start r env (Bytes b) =
     call_completion (env (uv_write (Req r) (Handle r) [b] 1 WriteCallback))"

lemma nbufs_of_single [simp]: "nbufs_of [b] = 1"
  by (simp add: nbufs_of_def)

lemmas write_defs = TWriteReceiver_set_value_buffers_def TWriteReceiver_set_value_bytes_def
  TWriteReceiver_WriteCallback_def call_completion_def status_completion_def emit_def Let_def

interpretation write_op: request_op request_enabled TWriteReceiver_step trace
  "\<lambda>r. running (RChild r) (trace r)" "\<lambda>r. in_flight (Req r) (trace r)" write_start
proof
  fix s :: TBufReceiver and e :: "send_arg revent" and p
  assume A: "in_qphase p (running (RChild s) (trace s)) (in_flight (Req s) (trace s)) (trace s)"
    "request_enabled e s"
  show "in_qphase (qspec_step (case e of RBegin env b \<Rightarrow> write_start s env b | _ \<Rightarrow> None) e p)
      (running (RChild (TWriteReceiver_step e s)) (trace (TWriteReceiver_step e s)))
      (in_flight (Req (TWriteReceiver_step e s)) (trace (TWriteReceiver_step e s)))
      (trace (TWriteReceiver_step e s))"
  proof (cases e)
    case (RBegin env b)
    then show ?thesis
      using A by (cases b; cases p) (simp_all add: handler_defs write_defs split: if_splits)
  next
    case (RDone st)
    then show ?thesis using A by (cases p) (simp_all add: handler_defs write_defs)
  qed
qed simp_all

text \<open>\<open>TSendReceiver\<close>. The overload for bytes completes at once for an empty span, and goes on.\<close>

definition TSendReceiver_set_value_buffers ::
    "uvenv \<Rightarrow> uv_buf_t list \<Rightarrow> TBufReceiver \<Rightarrow> TBufReceiver" where
  "TSendReceiver_set_value_buffers env buffs r =
     (let (err, r) = Send env (Req r) (Handle r) buffs SendCallback r
      in if IsError err then set_error (EErrc err) r else r)"

definition TSendReceiver_set_value_bytes :: "uvenv \<Rightarrow> uv_buf_t \<Rightarrow> TBufReceiver \<Rightarrow> TBufReceiver" where
  "TSendReceiver_set_value_bytes env buff r =
     (let r = (if len buff = 0 then set_value [] r else r);
          r = r\<lparr>ReqBuf := buff\<rparr>
      in TSendReceiver_set_value_buffers env [ReqBuf r] r)"

definition TSendReceiver_SendCallback :: "TUvError \<Rightarrow> TBufReceiver \<Rightarrow> TBufReceiver" where
  "TSendReceiver_SendCallback status r =
     (if IsError status then set_error (EErrc status) r else set_value [] r)"

fun TSendReceiver_step :: "send_arg revent \<Rightarrow> TBufReceiver \<Rightarrow> TBufReceiver" where
  "TSendReceiver_step (RBegin env (Buffers bs)) r =
     TSendReceiver_set_value_buffers env bs (emit (ChildDone (RChild r)) r)"
| "TSendReceiver_step (RBegin env (Bytes b)) r =
     TSendReceiver_set_value_bytes env b (emit (ChildDone (RChild r)) r)"
| "TSendReceiver_step (RDone st) r =
     TSendReceiver_SendCallback st (emit (Callback SendCallback (Req r)) r)"

text \<open>The contract covers the child that does not send an empty span of bytes.\<close>

fun send_enabled :: "send_arg revent \<Rightarrow> TBufReceiver \<Rightarrow> bool" where
  "send_enabled (RBegin env (Bytes b)) r \<longleftrightarrow> running (RChild r) (trace r) \<and> len b \<noteq> 0"
| "send_enabled e r \<longleftrightarrow> request_enabled e r"

fun send_start :: "TBufReceiver \<Rightarrow> uvenv \<Rightarrow> send_arg \<Rightarrow> completion option" where
  "send_start r env (Buffers bs) =
     call_completion (env (uv_udp_send (Req r) (Handle r) bs (nbufs_of bs) None SendCallback))"
| "send_start r env (Bytes b) =
     call_completion (env (uv_udp_send (Req r) (Handle r) [b] 1 None SendCallback))"

lemmas send_defs = TSendReceiver_set_value_buffers_def TSendReceiver_set_value_bytes_def
  TSendReceiver_SendCallback_def call_completion_def status_completion_def emit_def Let_def

interpretation send_op: request_op send_enabled TSendReceiver_step trace
  "\<lambda>r. running (RChild r) (trace r)" "\<lambda>r. in_flight (Req r) (trace r)" send_start
proof
  fix s :: TBufReceiver and e :: "send_arg revent" and p
  assume A: "in_qphase p (running (RChild s) (trace s)) (in_flight (Req s) (trace s)) (trace s)"
    "send_enabled e s"
  show "in_qphase (qspec_step (case e of RBegin env b \<Rightarrow> send_start s env b | _ \<Rightarrow> None) e p)
      (running (RChild (TSendReceiver_step e s)) (trace (TSendReceiver_step e s)))
      (in_flight (Req (TSendReceiver_step e s)) (trace (TSendReceiver_step e s)))
      (trace (TSendReceiver_step e s))"
  proof (cases e)
    case (RBegin env b)
    then show ?thesis
      using A by (cases b; cases p) (simp_all add: handler_defs send_defs split: if_splits)
  next
    case (RDone st)
    then show ?thesis using A by (cases p) (simp_all add: handler_defs send_defs)
  qed
next
  fix s :: TBufReceiver and env b
  show "send_enabled (RBegin env b) s \<Longrightarrow> running (RChild s) (trace s)" by (cases b) simp_all
qed simp_all

text \<open>\<open>TSendToReceiver\<close>: the child also sends the endpoint.\<close>

definition TSendToReceiver_set_value_buffers ::
    "uvenv \<Rightarrow> uv_buf_t list \<Rightarrow> sockaddr \<Rightarrow> TBufReceiver \<Rightarrow> TBufReceiver" where
  "TSendToReceiver_set_value_buffers env buffs ep r =
     (let (err, r) = Send_to env (Req r) (Handle r) buffs SendToCallback ep r
      in if IsError err then set_error (EErrc err) r else r)"

definition TSendToReceiver_set_value_bytes ::
    "uvenv \<Rightarrow> uv_buf_t \<Rightarrow> sockaddr \<Rightarrow> TBufReceiver \<Rightarrow> TBufReceiver" where
  "TSendToReceiver_set_value_bytes env buff ep r =
     (let r = r\<lparr>ReqBuf := buff\<rparr> in TSendToReceiver_set_value_buffers env [ReqBuf r] ep r)"

definition TSendToReceiver_SendCallback :: "TUvError \<Rightarrow> TBufReceiver \<Rightarrow> TBufReceiver" where
  "TSendToReceiver_SendCallback status r =
     (if IsError status then set_error (EErrc status) r else set_value [] r)"

fun TSendToReceiver_step :: "(send_arg \<times> sockaddr) revent \<Rightarrow> TBufReceiver \<Rightarrow> TBufReceiver" where
  "TSendToReceiver_step (RBegin env (Buffers bs, ep)) r =
     TSendToReceiver_set_value_buffers env bs ep (emit (ChildDone (RChild r)) r)"
| "TSendToReceiver_step (RBegin env (Bytes b, ep)) r =
     TSendToReceiver_set_value_bytes env b ep (emit (ChildDone (RChild r)) r)"
| "TSendToReceiver_step (RDone st) r =
     TSendToReceiver_SendCallback st (emit (Callback SendToCallback (Req r)) r)"

fun send_to_start :: "TBufReceiver \<Rightarrow> uvenv \<Rightarrow> send_arg \<times> sockaddr \<Rightarrow> completion option" where
  "send_to_start r env (Buffers bs, ep) = call_completion
     (env (uv_udp_send (Req r) (Handle r) bs (nbufs_of bs) (Some ep) SendToCallback))"
| "send_to_start r env (Bytes b, ep) =
     call_completion (env (uv_udp_send (Req r) (Handle r) [b] 1 (Some ep) SendToCallback))"

lemmas send_to_defs = TSendToReceiver_set_value_buffers_def TSendToReceiver_set_value_bytes_def
  TSendToReceiver_SendCallback_def call_completion_def status_completion_def emit_def Let_def

interpretation send_to_op: request_op request_enabled TSendToReceiver_step trace
  "\<lambda>r. running (RChild r) (trace r)" "\<lambda>r. in_flight (Req r) (trace r)" send_to_start
proof
  fix s :: TBufReceiver and e :: "(send_arg \<times> sockaddr) revent" and p
  assume A: "in_qphase p (running (RChild s) (trace s)) (in_flight (Req s) (trace s)) (trace s)"
    "request_enabled e s"
  show "in_qphase (qspec_step (case e of RBegin env b \<Rightarrow> send_to_start s env b | _ \<Rightarrow> None) e p)
      (running (RChild (TSendToReceiver_step e s)) (trace (TSendToReceiver_step e s)))
      (in_flight (Req (TSendToReceiver_step e s)) (trace (TSendToReceiver_step e s)))
      (trace (TSendToReceiver_step e s))"
  proof (cases e)
    case (RBegin env b)
    obtain arg ep where "b = (arg, ep)" by (cases b)
    then show ?thesis
      using A RBegin
      by (cases arg; cases p) (simp_all add: handler_defs send_to_defs split: if_splits)
  next
    case (RDone st)
    then show ?thesis using A by (cases p) (simp_all add: handler_defs send_to_defs)
  qed
qed simp_all

text \<open>\<open>TShutdownReceiver\<close>.\<close>

definition TShutdownReceiver_set_value :: "uvenv \<Rightarrow> TRequestReceiver \<Rightarrow> TRequestReceiver" where
  "TShutdownReceiver_set_value env r =
     (let (err, r) = Shutdown env (Req r) (Handle r) ShutdownCallback r
      in if IsError err then set_error (EErrc err) r else r)"

definition TShutdownReceiver_ShutdownCallback :: "TUvError \<Rightarrow> TRequestReceiver \<Rightarrow> TRequestReceiver" where
  "TShutdownReceiver_ShutdownCallback status r =
     (if IsError status then set_error (EErrc status) r else set_value [] r)"

fun TShutdownReceiver_step :: "unit revent \<Rightarrow> TRequestReceiver \<Rightarrow> TRequestReceiver" where
  "TShutdownReceiver_step (RBegin env b) r =
     TShutdownReceiver_set_value env (emit (ChildDone (RChild r)) r)"
| "TShutdownReceiver_step (RDone st) r =
     TShutdownReceiver_ShutdownCallback st (emit (Callback ShutdownCallback (Req r)) r)"

definition shutdown_start :: "TRequestReceiver \<Rightarrow> uvenv \<Rightarrow> unit \<Rightarrow> completion option" where
  "shutdown_start r env b = call_completion (env (uv_shutdown (Req r) (Handle r) ShutdownCallback))"

lemmas shutdown_defs = TShutdownReceiver_set_value_def TShutdownReceiver_ShutdownCallback_def
  shutdown_start_def call_completion_def status_completion_def emit_def Let_def

interpretation shutdown_op: request_op request_enabled TShutdownReceiver_step trace
  "\<lambda>r. running (RChild r) (trace r)" "\<lambda>r. in_flight (Req r) (trace r)" shutdown_start
proof
  fix s :: TRequestReceiver and e :: "unit revent" and p
  assume A: "in_qphase p (running (RChild s) (trace s)) (in_flight (Req s) (trace s)) (trace s)"
    "request_enabled e s"
  then show "in_qphase (qspec_step (case e of RBegin env b \<Rightarrow> shutdown_start s env b | _ \<Rightarrow> None) e p)
      (running (RChild (TShutdownReceiver_step e s)) (trace (TShutdownReceiver_step e s)))
      (in_flight (Req (TShutdownReceiver_step e s)) (trace (TShutdownReceiver_step e s)))
      (trace (TShutdownReceiver_step e s))"
    by (cases e; cases p) (simp_all add: handler_defs shutdown_defs split: if_splits)
qed simp_all

text \<open>\<open>TConnectReceiver\<close>: a TCP socket connects asynchronously, a UDP socket at once.\<close>

datatype socket_kind = TcpSocket | UdpSocket

record TConnectReceiver = TRequestReceiver +
  Kind :: socket_kind

definition TConnectReceiver_set_value ::
    "uvenv \<Rightarrow> sockaddr \<Rightarrow> TConnectReceiver \<Rightarrow> TConnectReceiver" where
  "TConnectReceiver_set_value env ep r =
     (case Kind r of
        UdpSocket \<Rightarrow>
          (let (err, r) = Connect_udp env (Handle r) ep r
           in if IsError err then set_error (EErrc err) r else set_value [] r)
      | TcpSocket \<Rightarrow>
          (let (err, r) = Connect_tcp env (Req r) (Handle r) ep ConnectCallback r
           in if IsError err then set_error (EErrc err) r else r))"

definition TConnectReceiver_ConnectCallback :: "TUvError \<Rightarrow> TConnectReceiver \<Rightarrow> TConnectReceiver" where
  "TConnectReceiver_ConnectCallback status r =
     (if IsError status then set_error (EErrc status) r else set_value [] r)"

fun TConnectReceiver_step :: "sockaddr revent \<Rightarrow> TConnectReceiver \<Rightarrow> TConnectReceiver" where
  "TConnectReceiver_step (RBegin env ep) r =
     TConnectReceiver_set_value env ep (emit (ChildDone (RChild r)) r)"
| "TConnectReceiver_step (RDone st) r =
     TConnectReceiver_ConnectCallback st (emit (Callback ConnectCallback (Req r)) r)"

definition connect_start :: "TConnectReceiver \<Rightarrow> uvenv \<Rightarrow> sockaddr \<Rightarrow> completion option" where
  "connect_start r env ep =
     (case Kind r of
        UdpSocket \<Rightarrow> Some (status_completion (env (uv_udp_connect (Handle r) ep)))
      | TcpSocket \<Rightarrow> call_completion (env (uv_tcp_connect (Req r) (Handle r) ep ConnectCallback)))"

lemmas connect_defs = TConnectReceiver_set_value_def TConnectReceiver_ConnectCallback_def
  connect_start_def call_completion_def status_completion_def emit_def Let_def

interpretation connect_op: request_op request_enabled TConnectReceiver_step trace
  "\<lambda>r. running (RChild r) (trace r)" "\<lambda>r. in_flight (Req r) (trace r)" connect_start
proof
  fix s :: TConnectReceiver and e :: "sockaddr revent" and p
  assume A: "in_qphase p (running (RChild s) (trace s)) (in_flight (Req s) (trace s)) (trace s)"
    "request_enabled e s"
  then show "in_qphase (qspec_step (case e of RBegin env b \<Rightarrow> connect_start s env b | _ \<Rightarrow> None) e p)
      (running (RChild (TConnectReceiver_step e s)) (trace (TConnectReceiver_step e s)))
      (in_flight (Req (TConnectReceiver_step e s)) (trace (TConnectReceiver_step e s)))
      (trace (TConnectReceiver_step e s))"
    by (cases e; cases p; cases "Kind s")
      (simp_all add: handler_defs connect_defs split: if_splits)
qed simp_all

text \<open>\<open>TCloseReceiver\<close>: closing the handle is the request; the close callback has no status.\<close>

definition TCloseReceiver_set_value :: "TRequestReceiver \<Rightarrow> TRequestReceiver" where
  "TCloseReceiver_set_value r = Close (Handle r) (Some CloseCallback) r"

definition TCloseReceiver_CloseCallback :: "TRequestReceiver \<Rightarrow> TRequestReceiver" where
  "TCloseReceiver_CloseCallback r = set_value [] r"

fun TCloseReceiver_step :: "unit revent \<Rightarrow> TRequestReceiver \<Rightarrow> TRequestReceiver" where
  "TCloseReceiver_step (RBegin env b) r = TCloseReceiver_set_value (emit (ChildDone (RChild r)) r)"
| "TCloseReceiver_step (RDone st) r =
     TCloseReceiver_CloseCallback (emit (Callback CloseCallback (Handle r)) r)"

fun close_enabled :: "unit revent \<Rightarrow> TRequestReceiver \<Rightarrow> bool" where
  "close_enabled (RBegin env b) r \<longleftrightarrow> running (RChild r) (trace r)"
| "close_enabled (RDone st) r \<longleftrightarrow> closing (Handle r) (trace r) \<and> st = 0"

definition close_start :: "TRequestReceiver \<Rightarrow> uvenv \<Rightarrow> unit \<Rightarrow> completion option" where
  "close_start r env b = None"

lemmas close_defs = TCloseReceiver_set_value_def TCloseReceiver_CloseCallback_def
  close_start_def status_completion_def emit_def Let_def

interpretation close_op: request_op close_enabled TCloseReceiver_step trace
  "\<lambda>r. running (RChild r) (trace r)" "\<lambda>r. closing (Handle r) (trace r)" close_start
proof
  fix s :: TRequestReceiver and e :: "unit revent" and p
  assume A: "in_qphase p (running (RChild s) (trace s)) (closing (Handle s) (trace s)) (trace s)"
    "close_enabled e s"
  then show "in_qphase (qspec_step (case e of RBegin env b \<Rightarrow> close_start s env b | _ \<Rightarrow> None) e p)
      (running (RChild (TCloseReceiver_step e s)) (trace (TCloseReceiver_step e s)))
      (closing (Handle (TCloseReceiver_step e s)) (trace (TCloseReceiver_step e s)))
      (trace (TCloseReceiver_step e s))"
    by (cases e; cases p) (simp_all add: handler_defs close_defs split: if_splits)
qed simp_all

section \<open>Properties\<close>

lemma started_QReady:
  assumes "trace s = [Started (RChild s)]"
  shows "in_qphase QReady (running (RChild s) (trace s)) (in_flight (Req s) (trace s)) (trace s)"
    and "in_qphase QReady (running (RChild s) (trace s)) (closing (Handle s) (trace s)) (trace s)"
  by (simp_all add: assms running_def in_flight_def closing_def)

text \<open>
  C15: \<open>write\<close>, \<open>send\<close> and \<open>send_to\<close>, in every run from the start of the child sender (for \<open>send\<close>, one that
  does not send an empty span of bytes): the operation has completed exactly when it should have, with the error of
  the call, or else with what libuv reports of the request; and its request is in flight exactly as
  long as it has not completed.
\<close>

theorem write_send_outcome:
  assumes "trace r = [Started (RChild r)]"
  shows "(admissible request_enabled TWriteReceiver_step r es \<longrightarrow>
      request_outcome (write_start r) es
        (in_flight (Req (fold TWriteReceiver_step es r)) (trace (fold TWriteReceiver_step es r)))
        (trace (fold TWriteReceiver_step es r))) \<and>
    (admissible send_enabled TSendReceiver_step r es \<longrightarrow>
      request_outcome (send_start r) es
        (in_flight (Req (fold TSendReceiver_step es r)) (trace (fold TSendReceiver_step es r)))
        (trace (fold TSendReceiver_step es r))) \<and>
    (admissible request_enabled TSendToReceiver_step r es' \<longrightarrow>
      request_outcome (send_to_start r) es'
        (in_flight (Req (fold TSendToReceiver_step es' r)) (trace (fold TSendToReceiver_step es' r)))
        (trace (fold TSendToReceiver_step es' r)))"
  using write_op.run_outcome [OF started_QReady(1) [OF assms], of es]
    send_op.run_outcome [OF started_QReady(1) [OF assms], of es]
    send_to_op.run_outcome [OF started_QReady(1) [OF assms], of es'] by simp

definition sample_writer :: TBufReceiver where
  "sample_writer = request_start (TWriteReceiver_new 0 1 2)"

theorem write_send_outcome_witness:
  "request_outcome (write_start sample_writer) [RBegin (\<lambda>_. 0) (Bytes \<lparr>base = 8, len = 4\<rparr>), RDone (-32)]
     False (trace (fold TWriteReceiver_step
       [RBegin (\<lambda>_. 0) (Bytes \<lparr>base = 8, len = 4\<rparr>), RDone (-32)] sample_writer))"
proof -
  have t: "trace sample_writer = [Started (RChild sample_writer)]" by code_simp
  have "admissible request_enabled TWriteReceiver_step sample_writer
      [RBegin (\<lambda>_. 0) (Bytes \<lparr>base = 8, len = 4\<rparr>), RDone (-32)]" by code_simp
  moreover have "\<not> in_flight (Req (fold TWriteReceiver_step
       [RBegin (\<lambda>_. 0) (Bytes \<lparr>base = 8, len = 4\<rparr>), RDone (-32)] sample_writer))
     (trace (fold TWriteReceiver_step
       [RBegin (\<lambda>_. 0) (Bytes \<lparr>base = 8, len = 4\<rparr>), RDone (-32)] sample_writer))" by code_simp
  ultimately show ?thesis using write_send_outcome [OF t] by metis
qed

text \<open>
  C16: \<open>shutdown\<close>, \<open>connect\<close> and \<open>close\<close>, in every run from the start of the child sender: the same. \<open>connect\<close> of a
  UDP socket completes within the call; \<open>close\<close> completes exactly once, when the handle is closed, always with a
  value.
\<close>

theorem shutdown_connect_close_outcome:
  assumes "trace r = [Started (RChild r)]" "trace c = [Started (RChild c)]"
  shows "(admissible request_enabled TShutdownReceiver_step r es \<longrightarrow>
      request_outcome (shutdown_start r) es
        (in_flight (Req (fold TShutdownReceiver_step es r)) (trace (fold TShutdownReceiver_step es r)))
        (trace (fold TShutdownReceiver_step es r))) \<and>
    (admissible request_enabled TConnectReceiver_step c es' \<longrightarrow>
      request_outcome (connect_start c) es'
        (in_flight (Req (fold TConnectReceiver_step es' c)) (trace (fold TConnectReceiver_step es' c)))
        (trace (fold TConnectReceiver_step es' c))) \<and>
    (admissible close_enabled TCloseReceiver_step r es \<longrightarrow>
      request_outcome (close_start r) es
        (closing (Handle (fold TCloseReceiver_step es r)) (trace (fold TCloseReceiver_step es r)))
        (trace (fold TCloseReceiver_step es r)))"
  using shutdown_op.run_outcome [OF started_QReady(1) [OF assms(1)], of es]
    connect_op.run_outcome [OF started_QReady(1) [OF assms(2)], of es']
    close_op.run_outcome [OF started_QReady(2) [OF assms(1)], of es] by simp

definition sample_closer :: TRequestReceiver where
  "sample_closer = request_start \<lparr>trace = [], RChild = 0, Req = 1, Handle = 2\<rparr>"

definition sample_connector :: TConnectReceiver where
  "sample_connector = request_start \<lparr>trace = [], RChild = 0, Req = 1, Handle = 2, Kind = UdpSocket\<rparr>"

theorem shutdown_connect_close_outcome_witness:
  "request_outcome (close_start sample_closer) [RBegin (\<lambda>_. 0) (), RDone 0] False
     (trace (fold TCloseReceiver_step [RBegin (\<lambda>_. 0) (), RDone 0] sample_closer))"
proof -
  have t: "trace sample_closer = [Started (RChild sample_closer)]"
    "trace sample_connector = [Started (RChild sample_connector)]" by code_simp+
  have "admissible close_enabled TCloseReceiver_step sample_closer [RBegin (\<lambda>_. 0) (), RDone 0]"
    by code_simp
  moreover have "\<not> closing (Handle (fold TCloseReceiver_step [RBegin (\<lambda>_. 0) (), RDone 0] sample_closer))
     (trace (fold TCloseReceiver_step [RBegin (\<lambda>_. 0) (), RDone 0] sample_closer))" by code_simp
  ultimately show ?thesis using shutdown_connect_close_outcome [OF t] by metis
qed

text \<open>
  \<open>send\<close> of an empty span of bytes completes with a value and goes on to send it: the request is
  issued with the receiver already completed, and its error, or later its callback, completes the
  receiver a second time.
\<close>

theorem send_empty_bytes_completes_twice:
  assumes "len b = 0" "completions (trace r) = []"
  shows "(let err = env (uv_udp_send (Req r) (Handle r) [b] 1 None SendCallback);
         s = TSendReceiver_set_value_bytes env b r
     in (if IsError err then completions (trace s) = [SetValue [], SetError (EErrc err)]
         else completions (trace s) = [SetValue []] \<and> in_flight (Req s) (trace s) \<and>
              completions (trace (TSendReceiver_SendCallback st s)) =
                [SetValue [], status_completion st]))"
  using assms by (simp add: handler_defs send_defs)

theorem send_empty_bytes_completes_twice_witness:
  "completions (trace (TSendReceiver_SendCallback 0
     (TSendReceiver_set_value_bytes (\<lambda>_. 0) \<lparr>base = 8, len = 0\<rparr> sample_writer))) =
   [SetValue [], SetValue []]"
proof -
  have "completions (trace sample_writer) = []" by code_simp
  from send_empty_bytes_completes_twice [OF _ this, of "\<lparr>base = 8, len = 0\<rparr>" "\<lambda>_. 0" 0]
  show ?thesis by (simp add: Let_def IsError_def status_completion_def)
qed

end
