(* ===== verification/Listener.thy ===== *)
theory Listener
  imports Stop_Operation Intrusive_List
begin

text \<open>
  \<open>TTcpListener\<close> (include/uvexec/sockets/tcp_listener.hpp, src/sockets/tcp_listener.cpp): a
  listening socket, the operations that wait for a connection, and the connections that
  wait for an operation. The accept operations are numbered; \<open>Accepts l i\<close> is the state of operation \<open>i\<close>,
  with the trace of what happens to its receiver. The calls on the listening socket are in the
  trace of the listener. \<open>PendingConnections\<close>, a C \<open>int\<close>, is an integer here: libuv announces
  no new connection while one is unaccepted, so it does not come near its limits.
\<close>

section \<open>The accept operation\<close>

record TAcceptOpState = cop +
  AChild :: ptr
  ASocket :: ptr
  AReceiver :: bool

record TTcpListener = world +
  LSocket :: ptr
  AcceptList :: "nat ilist"
  PendingConnections :: int
  Accepts :: "nat \<Rightarrow> TAcceptOpState"

definition on_accept ::
    "nat \<Rightarrow> (TAcceptOpState \<Rightarrow> TAcceptOpState) \<Rightarrow> TTcpListener \<Rightarrow> TTcpListener" where
  "on_accept i f l = l\<lparr>Accepts := (Accepts l)(i := f (Accepts l i))\<rparr>"

definition complete_accept :: "completion \<Rightarrow> TAcceptOpState \<Rightarrow> TAcceptOpState" where
  "complete_accept c op =
     (if AReceiver op then emit (Signal c) op else emit (Undefined ''empty optional'') op)"

definition TAcceptOpState_new :: "ptr \<Rightarrow> ptr \<Rightarrow> ptr \<Rightarrow> ptr \<Rightarrow> bool \<Rightarrow> TAcceptOpState" where
  "TAcceptOpState_new child stop_op socket loop token =
     \<lparr>trace = [], StopOp = TStopOperation_new token stop_op, Loop = loop, AChild = child,
      ASocket = socket, AReceiver = False\<rparr>"

definition TAcceptOpState_start :: "TAcceptOpState \<Rightarrow> TAcceptOpState" where
  "TAcceptOpState_start op = emit (Started (AChild op)) op"

definition TAcceptOpState_Accept :: "uvenv \<Rightarrow> nat \<Rightarrow> TTcpListener \<Rightarrow> TTcpListener" where
  "TAcceptOpState_Accept env i l =
     (let (used, op) = Reset (Accepts l i);
          l = on_accept i (\<lambda>_. op) l
      in if used then l
         else let (err, l) = Accept_req env (LSocket l) (ASocket op) l
              in if IsError err then on_accept i (complete_accept (SetError (EErrc err))) l
                 else on_accept i (complete_accept (SetValue [])) l)"

definition TAcceptOpState_Error :: "EErrc \<Rightarrow> nat \<Rightarrow> TTcpListener \<Rightarrow> TTcpListener" where
  "TAcceptOpState_Error err i l =
     (let (used, op) = Reset (Accepts l i);
          l = on_accept i (\<lambda>_. op) l
      in if used then l else on_accept i (complete_accept (SetError err)) l)"

definition TAcceptOpState_StopCallback :: "nat \<Rightarrow> TTcpListener \<Rightarrow> TTcpListener" where
  "TAcceptOpState_StopCallback i l =
     (let l = l\<lparr>AcceptList := TIntrusiveList_Erase i (AcceptList l)\<rparr>;
          (_, op) = ResetUnsafe (Accepts l i)
      in on_accept i (\<lambda>_. complete_accept SetStopped op) l)"

section \<open>The listener\<close>

text \<open>The public constructor listens at once and keeps \<open>-backlog\<close>; the private one, used by
  \<open>bind_to\<close>, listens in \<open>Bind\<close> and resets the counter.\<close>

definition TTcpListener_StartListening :: "uvenv \<Rightarrow> TTcpListener \<Rightarrow> EErrc \<times> TTcpListener" where
  "TTcpListener_StartListening env l =
     (let (err, l) = uv env (UvTcpListen (LSocket l) (- PendingConnections l) ConnectionCallback) l
      in (if IsError err then EErrc err else EErrc 0, l))"

definition TTcpListener_fields :: "ptr \<Rightarrow> nat \<Rightarrow> (nat \<Rightarrow> TAcceptOpState) \<Rightarrow> TTcpListener" where
  "TTcpListener_fields socket backlog ops =
     \<lparr>trace = [], LSocket = socket, AcceptList = TIntrusiveList,
      PendingConnections = - int backlog, Accepts = ops\<rparr>"

text \<open>The exceptions of the constructor are the left side of the sum.\<close>

definition TTcpListener_ctor ::
    "uvenv \<Rightarrow> ptr \<Rightarrow> sockaddr \<Rightarrow> nat \<Rightarrow> (nat \<Rightarrow> TAcceptOpState) \<Rightarrow> EErrc + TTcpListener" where
  "TTcpListener_ctor env socket ep backlog ops =
     (let l = TTcpListener_fields socket backlog ops;
          (e, l) = Bind env (LSocket l) ep l
      in case Assert e of
           Inl x \<Rightarrow> Inl x
         | Inr _ \<Rightarrow> let (err, l) = TTcpListener_StartListening env l
                    in if err \<noteq> EErrc 0 then Inl err else Inr l)"

definition TTcpListener_Bind :: "uvenv \<Rightarrow> sockaddr \<Rightarrow> TTcpListener \<Rightarrow> EErrc \<times> TTcpListener" where
  "TTcpListener_Bind env ep l =
     (let (e, l) = Bind env (LSocket l) ep l
      in if \<not> IsError e then
           let (err, l) = TTcpListener_StartListening env l
           in (err, l\<lparr>PendingConnections := 0\<rparr>)
         else (EErrc e, l))"

definition TTcpListener_RegisterAccept :: "uvenv \<Rightarrow> nat \<Rightarrow> TTcpListener \<Rightarrow> TTcpListener" where
  "TTcpListener_RegisterAccept env i l =
     (if PendingConnections l > 0 then
        TAcceptOpState_Accept env i (l\<lparr>PendingConnections := PendingConnections l - 1\<rparr>)
      else
        let l = l\<lparr>AcceptList := TIntrusiveList_Add i (AcceptList l)\<rparr>
        in if PendingConnections l < 0 then
             let (err, l) = TTcpListener_StartListening env l
             in if err \<noteq> EErrc 0 then TAcceptOpState_Error err i l
                else l\<lparr>PendingConnections := 0\<rparr>
           else l)"

definition TTcpListener_ConnectionCallback :: "uvenv \<Rightarrow> int \<Rightarrow> TTcpListener \<Rightarrow> TTcpListener" where
  "TTcpListener_ConnectionCallback env status l =
     (if IsError status then l
      else if TIntrusiveList_Empty (AcceptList l) then
        l\<lparr>PendingConnections := PendingConnections l + 1\<rparr>
      else case TIntrusiveList_Pop (AcceptList l) of
          None \<Rightarrow> emit (Undefined ''null dereference'') l
        | Some (i, q) \<Rightarrow> TAcceptOpState_Accept env i (l\<lparr>AcceptList := q\<rparr>))"

definition TAcceptReceiver_set_value :: "uvenv \<Rightarrow> nat \<Rightarrow> TTcpListener \<Rightarrow> TTcpListener" where
  "TAcceptReceiver_set_value env i l =
     (let l = on_accept i (\<lambda>op. op\<lparr>AReceiver := True\<rparr>) l;
          l = TTcpListener_RegisterAccept env i l
      in on_accept i Setup l)"

section \<open>Runs\<close>

text \<open>The events: the child of an operation completes with a value; libuv announces a connection;
  stop is requested of an operation; the loop applies its stop operation.\<close>

datatype levent =
    LBegin nat uvenv | LConnection uvenv int | LRequestStop nat | LRunStop nat

fun listener_step :: "levent \<Rightarrow> TTcpListener \<Rightarrow> TTcpListener" where
  "listener_step (LBegin i env) l =
     TAcceptReceiver_set_value env i
       (on_accept i (\<lambda>op. emit (ChildDone (AChild op)) op) l)"
| "listener_step (LConnection env status) l =
     TTcpListener_ConnectionCallback env status
       (if IsError status then l else emit (Callback ConnectionCallback (LSocket l)) l)"
| "listener_step (LRequestStop i) l = on_accept i request_stop l"
| "listener_step (LRunStop i) l =
     TAcceptOpState_StopCallback i (on_accept i (\<lambda>op. emit (Applied (SelfOp (StopOp op))) op) l)"

fun listener_enabled :: "levent \<Rightarrow> TTcpListener \<Rightarrow> bool" where
  "listener_enabled (LBegin i env) l \<longleftrightarrow> running (AChild (Accepts l i)) (trace (Accepts l i))"
| "listener_enabled (LConnection env status) l \<longleftrightarrow> True"
| "listener_enabled (LRequestStop i) l \<longleftrightarrow> \<not> Token (StopOp (Accepts l i))"
| "listener_enabled (LRunStop i) l \<longleftrightarrow>
     queued (SelfOp (StopOp (Accepts l i))) (trace (Accepts l i))"

text \<open>The connections libuv has announced, and the calls of \<open>uv_accept\<close>.\<close>

definition announced :: "TTcpListener \<Rightarrow> nat" where
  "announced l = length (filter (\<lambda>e. case e of Callback ConnectionCallback _ \<Rightarrow> True | _ \<Rightarrow> False) (trace l))"

definition accept_calls :: "TTcpListener \<Rightarrow> nat" where
  "accept_calls l =
     length (filter (\<lambda>e. case e of UvCall (uv_accept _ _) _ \<Rightarrow> True | _ \<Rightarrow> False) (trace l))"

section \<open>The invariant\<close>

text \<open>What an accept operation may look like; \<open>waits\<close>: it is in the list.\<close>

definition accept_inv :: "bool \<Rightarrow> TAcceptOpState \<Rightarrow> bool" where
  "accept_inv waits op \<longleftrightarrow> \<not> undefined_in (trace op) \<and>
     (if running (AChild op) (trace op) then
        \<not> waits \<and> \<not> Used (StopOp op) \<and> \<not> StopCallback (StopOp op) \<and>
        \<not> queued (SelfOp (StopOp op)) (trace op) \<and> completions (trace op) = []
      else if completions (trace op) = [] then
        AReceiver op \<and> StopCallback (StopOp op) \<and>
        (if Used (StopOp op) then Token (StopOp op) \<and> queued (SelfOp (StopOp op)) (trace op)
         else waits \<and> \<not> Token (StopOp op) \<and> \<not> queued (SelfOp (StopOp op)) (trace op))
      else length (completions (trace op)) = 1 \<and> Used (StopOp op) \<and>
        \<not> queued (SelfOp (StopOp op)) (trace op))"

definition listener_inv :: "TTcpListener \<Rightarrow> nat list \<Rightarrow> bool" where
  "listener_inv l xs \<longleftrightarrow> dll (AcceptList l) xs \<and> \<not> undefined_in (trace l) \<and>
     (\<forall>i. accept_inv (i \<in> set xs) (Accepts l i))"

text \<open>Requesting stop, and the operations at the time they are called.\<close>

lemma accept_inv_request_stop:
  "accept_inv w op \<Longrightarrow> \<not> Token (StopOp op) \<Longrightarrow> accept_inv w (request_stop op)"
  by (auto simp: accept_inv_def handler_defs split: if_splits)

lemma on_accept_simps [simp]:
  "Accepts (on_accept i f l) j = (if j = i then f (Accepts l i) else Accepts l j)"
  "AcceptList (on_accept i f l) = AcceptList l"
  "PendingConnections (on_accept i f l) = PendingConnections l"
  "LSocket (on_accept i f l) = LSocket l"
  "trace (on_accept i f l) = trace l"
  by (simp_all add: on_accept_def)

text \<open>\<open>Accept\<close> and \<open>Error\<close> complete their operation unless it is used, and touch no other.\<close>

definition take_accept :: "completion \<Rightarrow> TAcceptOpState \<Rightarrow> TAcceptOpState" where
  "take_accept c op =
     (if Used (StopOp op) then op
      else complete_accept c (op\<lparr>StopOp := StopOp op\<lparr>Used := True, StopCallback := False\<rparr>\<rparr>))"

definition accept_result :: "uvenv \<Rightarrow> nat \<Rightarrow> TTcpListener \<Rightarrow> completion" where
  "accept_result env i l =
     (let err = env (uv_accept (LSocket l) (ASocket (Accepts l i)))
      in if IsError err then SetError (EErrc err) else SetValue [])"

lemma Accept_simps [simp]:
  "Accepts (TAcceptOpState_Accept env i l) =
     (Accepts l)(i := take_accept (accept_result env i l) (Accepts l i))"
  "AcceptList (TAcceptOpState_Accept env i l) = AcceptList l"
  "PendingConnections (TAcceptOpState_Accept env i l) = PendingConnections l"
  "trace (TAcceptOpState_Accept env i l) = trace l @
     (if Used (StopOp (Accepts l i)) then []
      else [UvCall (uv_accept (LSocket l) (ASocket (Accepts l i)))
              (env (uv_accept (LSocket l) (ASocket (Accepts l i))))])"
  by (auto simp: TAcceptOpState_Accept_def handler_defs on_accept_def take_accept_def
      accept_result_def fun_eq_iff)

lemma Error_simps [simp]:
  "Accepts (TAcceptOpState_Error err i l) = (Accepts l)(i := take_accept (SetError err) (Accepts l i))"
  "AcceptList (TAcceptOpState_Error err i l) = AcceptList l"
  "PendingConnections (TAcceptOpState_Error err i l) = PendingConnections l"
  "trace (TAcceptOpState_Error err i l) = trace l"
  by (auto simp: TAcceptOpState_Error_def handler_defs on_accept_def take_accept_def fun_eq_iff)

lemma accept_inv_take:
  "accept_inv w op \<Longrightarrow> \<not> running (AChild op) (trace op) \<Longrightarrow> accept_inv w' (take_accept c op)"
  by (auto simp: accept_inv_def take_accept_def complete_accept_def handler_defs split: if_splits)

abbreviation begun :: "TAcceptOpState \<Rightarrow> TAcceptOpState" where
  "begun op \<equiv> (emit (ChildDone (AChild op)) op)\<lparr>AReceiver := True\<rparr>"

lemma accept_inv_begun:
  assumes "accept_inv w op" "running (AChild op) (trace op)"
  shows "accept_inv True (Setup (begun op))" "accept_inv w' (Setup (take_accept c (begun op)))"
  using assms
  by (auto simp: accept_inv_def take_accept_def complete_accept_def handler_defs split: if_splits)

lemma accept_inv_stopped:
  assumes "accept_inv w op" "queued (SelfOp (StopOp op)) (trace op)"
  shows "accept_inv False
    (complete_accept SetStopped
      (snd (ResetUnsafe (emit (Applied (SelfOp (StopOp op))) op))))"
  using assms
  by (auto simp: accept_inv_def complete_accept_def handler_defs split: if_splits)

lemma accept_inv_waiting: "accept_inv True op \<Longrightarrow> \<not> running (AChild op) (trace op)"
  by (simp add: accept_inv_def split: if_splits)

lemma StartListening_simps [simp]:
  "Accepts (snd (TTcpListener_StartListening env l)) = Accepts l"
  "AcceptList (snd (TTcpListener_StartListening env l)) = AcceptList l"
  "PendingConnections (snd (TTcpListener_StartListening env l)) = PendingConnections l"
  "trace (snd (TTcpListener_StartListening env l)) = trace l @
     [UvCall (uv_listen (LSocket l) (- PendingConnections l) ConnectionCallback)
        (env (uv_listen (LSocket l) (- PendingConnections l) ConnectionCallback))]"
  by (simp_all add: TTcpListener_StartListening_def handler_defs)

lemma listener_inv_step:
  assumes "listener_inv l xs" "listener_enabled e l"
  shows "\<exists>ys. listener_inv (listener_step e l) ys"
proof -
  have dll: "dll (AcceptList l) xs" and ops: "\<And>i. accept_inv (i \<in> set xs) (Accepts l i)"
    and nu: "\<not> undefined_in (trace l)"
    using assms(1) by (auto simp: listener_inv_def)
  show ?thesis
  proof (cases e)
    case (LRequestStop i)
    then have "listener_inv (listener_step e l) xs"
      using dll ops nu accept_inv_request_stop [OF ops [of i]] assms(2) by (simp add: listener_inv_def)
    then show ?thesis ..
  next
    case (LRunStop i)
    let ?op = "Accepts l i"
    have "dll (TIntrusiveList_Erase i (AcceptList l)) (remove1 i xs)"
      using il.rep_erase [OF dll] .
    moreover have "set (remove1 i xs) = set xs - {i}" using dll by (simp add: dll_def)
    moreover have "accept_inv False (Accepts (listener_step e l) i)"
      using accept_inv_stopped [OF ops [of i]] assms(2) LRunStop
      by (simp add: TAcceptOpState_StopCallback_def Let_def ResetUnsafe_def split: prod.splits)
    ultimately have "listener_inv (listener_step e l) (remove1 i xs)"
      using LRunStop ops nu
      by (auto simp: listener_inv_def TAcceptOpState_StopCallback_def Let_def split: prod.splits)
    then show ?thesis ..
  next
    case (LConnection env status)
    show ?thesis
    proof (cases "IsError status \<or> xs = []")
      case True
      then have "listener_inv (listener_step e l) xs"
        using LConnection dll ops nu il.rep_is_empty [OF dll]
        by (auto simp: listener_inv_def TTcpListener_ConnectionCallback_def emit_def)
      then show ?thesis ..
    next
      case False
      then obtain i ys where xs: "xs = i # ys" by (cases xs) auto
      obtain q where q: "TIntrusiveList_Pop (AcceptList l) = Some (i, q)" "dll q ys"
        by (rule dll_Pop [OF dll [unfolded xs]])
      have iy: "i \<notin> set ys" using dll xs by (simp add: dll_def)
      have "accept_inv False (take_accept c (Accepts l i))" for c
        using accept_inv_take ops [of i] accept_inv_waiting xs by simp
      moreover have "accept_inv (j \<in> set ys) (Accepts l j)" if "j \<noteq> i" for j
        using ops [of j] xs that by simp
      ultimately have "listener_inv (listener_step e l) ys"
        using LConnection False q iy nu il.rep_is_empty [OF dll]
        by (auto simp: listener_inv_def TTcpListener_ConnectionCallback_def emit_def)
      then show ?thesis ..
    qed
  next
    case (LBegin i env)
    let ?l = "on_accept i (\<lambda>op. op\<lparr>AReceiver := True\<rparr>)
      (on_accept i (\<lambda>op. emit (ChildDone (AChild op)) op) l)"
    have r: "running (AChild (Accepts l i)) (trace (Accepts l i))" using assms(2) LBegin by simp
    have ix: "i \<notin> set xs" using ops [of i] r by (auto simp: accept_inv_def)
    note b = accept_inv_begun [OF ops [of i] r]
    have add: "dll (TIntrusiveList_Add i (AcceptList l)) (i # xs)" using il.rep_add [OF dll ix] .
    obtain err l1 where sl: "TTcpListener_StartListening env
        (?l\<lparr>AcceptList := TIntrusiveList_Add i (AcceptList l)\<rparr>) = (err, l1)" by (cases rule: prod.exhaust)
    have l1: "Accepts l1 = Accepts ?l" "AcceptList l1 = TIntrusiveList_Add i (AcceptList l)"
      "\<not> undefined_in (trace l1)"
      using StartListening_simps [of env "?l\<lparr>AcceptList := TIntrusiveList_Add i (AcceptList l)\<rparr>"]
        sl nu by simp_all
    have "listener_inv (listener_step e l) (if PendingConnections l > 0 then xs else i # xs)"
      using LBegin dll ops nu ix b add sl l1
      by (auto simp: listener_inv_def TAcceptReceiver_set_value_def
          TTcpListener_RegisterAccept_def Let_def)
    then show ?thesis ..
  qed
qed

interpretation listener: guarded_steps listener_enabled listener_step "\<lambda>l. \<exists>xs. listener_inv l xs"
proof
  show "\<exists>xs. listener_inv (listener_step e l) xs"
    if "\<exists>xs. listener_inv l xs" "listener_enabled e l" for l e
    using that listener_inv_step by blast
qed

section \<open>Use after completion\<close>

text \<open>
  Operation states live on in the model; in the program a receiver may destroy its operation when it is completed. \<open>listen_refused\<close>: the operation begins on a
  listener that has to listen again, which fails. \<open>completed_inside\<close>: \<open>RegisterAccept\<close> completes the operation within \<open>set_value\<close>, which goes on with
  \<open>StopOp.Setup()\<close>.
\<close>

fun listen_refused :: "nat \<Rightarrow> levent \<Rightarrow> TTcpListener \<Rightarrow> bool" where
  "listen_refused i (LBegin j env) l \<longleftrightarrow>
     j = i \<and> PendingConnections l < 0 \<and> EErrc 0 \<noteq> fst (TTcpListener_StartListening env l)"
| "listen_refused i e l \<longleftrightarrow> False"

fun completed_inside :: "nat \<Rightarrow> levent \<Rightarrow> TTcpListener \<Rightarrow> bool" where
  "completed_inside i (LBegin j env) l \<longleftrightarrow> j = i \<and> (PendingConnections l > 0 \<or> listen_refused i (LBegin j env) l)"
| "completed_inside i e l \<longleftrightarrow> False"

text \<open>Whether it happens to an operation in a run.\<close>

fun in_run :: "(nat \<Rightarrow> levent \<Rightarrow> TTcpListener \<Rightarrow> bool) \<Rightarrow> nat \<Rightarrow> levent list \<Rightarrow> TTcpListener \<Rightarrow> bool" where
  "in_run f i [] l \<longleftrightarrow> False"
| "in_run f i (e # es) l \<longleftrightarrow> f i e l \<or> in_run f i es (listener_step e l)"

lemma StartListening_fst:
  "fst (TTcpListener_StartListening env (l\<lparr>AcceptList := q, Accepts := a, trace := tr\<rparr>)) = fst (TTcpListener_StartListening env l)"
  "fst (TTcpListener_StartListening env (on_accept i f l)) = fst (TTcpListener_StartListening env l)"
  "fst (TTcpListener_StartListening env (l\<lparr>AcceptList := q\<rparr>)) = fst (TTcpListener_StartListening env l)"
  by (simp_all add: TTcpListener_StartListening_def handler_defs on_accept_def)

text \<open>One step: what it does to the stop callback of a completed operation, and to its place in the list.\<close>

definition left_registered :: "TAcceptOpState \<Rightarrow> bool" where
  "left_registered op \<longleftrightarrow> completions (trace op) \<noteq> [] \<and> StopCallback (StopOp op)"

lemma Begin_accepts:
  "\<exists>c. Accepts (listener_step (LBegin i env) l) = (Accepts l)(i := Setup
     (if completed_inside i (LBegin i env) l then take_accept c (begun (Accepts l i)) else begun (Accepts l i)))"
proof -
  let ?l = "on_accept i (\<lambda>op. op\<lparr>AReceiver := True\<rparr>) (on_accept i (\<lambda>op. emit (ChildDone (AChild op)) op) l)"
  let ?m = "?l\<lparr>AcceptList := TIntrusiveList_Add i (AcceptList l)\<rparr>"
  have eq: "l1 = l2 \<longleftrightarrow> (\<forall>j. l1 j = l2 j)" for l1 l2 :: "nat \<Rightarrow> TAcceptOpState" by (simp add: fun_eq_iff)
  obtain err l1 where sl: "TTcpListener_StartListening env ?m = (err, l1)" by (cases rule: prod.exhaust)
  have l1: "Accepts l1 = Accepts ?l" using StartListening_simps(1) [of env ?m] sl by simp
  have err: "fst (TTcpListener_StartListening env l) = err"
    using StartListening_fst(3) [where l = ?l] StartListening_fst(2) sl by (metis fst_conv)
  consider "PendingConnections l > 0" | "PendingConnections l = 0"
    | "PendingConnections l < 0" "err = EErrc 0" | "PendingConnections l < 0" "err \<noteq> EErrc 0" by linarith
  then show ?thesis
    using sl l1 err
    by cases (auto simp: eq TAcceptReceiver_set_value_def TTcpListener_RegisterAccept_def Let_def)
qed

lemma left_registered_Begin:
  assumes inv: "listener_inv l xs" and en: "listener_enabled (LBegin i env) l"
  shows "completions (trace (Accepts (listener_step (LBegin i env) l) i)) \<noteq> [] \<longleftrightarrow> completed_inside i (LBegin i env) l"
    "left_registered (Accepts (listener_step (LBegin i env) l) i) \<longleftrightarrow> completed_inside i (LBegin i env) l"
proof -
  let ?op = "Accepts l i"
  have r: "running (AChild ?op) (trace ?op)" using en by simp
  have a: "accept_inv (i \<in> set xs) ?op" using inv by (simp add: listener_inv_def)
  then have op: "\<not> Used (StopOp ?op)" "\<not> StopCallback (StopOp ?op)" "completions (trace ?op) = []"
    using r by (simp_all add: accept_inv_def)
  have b: "completions (trace (Setup (begun ?op))) = []" using op by (simp add: handler_defs)
  have t: "completions (trace (Setup (take_accept c (begun ?op)))) = [c]"
    "StopCallback (StopOp (Setup (take_accept c (begun ?op))))" for c
    using op by (simp_all add: take_accept_def complete_accept_def handler_defs)
  obtain c where c: "Accepts (listener_step (LBegin i env) l) = (Accepts l)(i := Setup
     (if completed_inside i (LBegin i env) l then take_accept c (begun (Accepts l i)) else begun (Accepts l i)))"
    using Begin_accepts by blast
  show "completions (trace (Accepts (listener_step (LBegin i env) l) i)) \<noteq> [] \<longleftrightarrow> completed_inside i (LBegin i env) l"
    "left_registered (Accepts (listener_step (LBegin i env) l) i) \<longleftrightarrow> completed_inside i (LBegin i env) l"
    unfolding c using b t [of c] by (cases "completed_inside i (LBegin i env) l"; simp add: left_registered_def)+
qed

lemma left_registered_step:
  assumes inv: "listener_inv l xs" and en: "listener_enabled e l"
  shows "left_registered (Accepts (listener_step e l) i) \<longleftrightarrow> left_registered (Accepts l i) \<or> completed_inside i e l"
proof (cases e)
  case (LBegin j env)
  have "completed_inside i e l \<Longrightarrow> j = i" using LBegin by simp
  moreover have "i \<noteq> j \<Longrightarrow> Accepts (listener_step e l) i = Accepts l i"
    using LBegin Begin_accepts [of j env l] by (auto simp del: listener_step.simps)
  moreover have "i = j \<Longrightarrow> \<not> left_registered (Accepts l i)"
    using inv en LBegin by (auto simp: listener_inv_def accept_inv_def left_registered_def)
  ultimately show ?thesis using left_registered_Begin(2) [OF inv] en LBegin
    by (cases "i = j") (auto simp del: listener_step.simps listener_enabled.simps completed_inside.simps)
next
  case (LConnection env status)
  have a: "accept_inv (i \<in> set xs) (Accepts l i)" using inv by (simp add: listener_inv_def)
  have "left_registered (take_accept c (Accepts l i)) = left_registered (Accepts l i)" if "i \<in> set xs" for c
  proof (cases "Used (StopOp (Accepts l i))")
    case False
    moreover have "\<not> running (AChild (Accepts l i)) (trace (Accepts l i))" using a accept_inv_waiting that by simp
    ultimately have "completions (trace (Accepts l i)) = []" using a by (simp add: accept_inv_def split: if_splits)
    then show ?thesis using False by (simp add: left_registered_def take_accept_def complete_accept_def emit_def)
  qed (simp add: take_accept_def)
  moreover have "j \<in> set xs" if p: "TIntrusiveList_Pop (AcceptList l) = Some (j, q)" "\<not> TIntrusiveList_Empty (AcceptList l)" for j q
  proof -
    have d: "dll (AcceptList l) xs" using inv by (simp add: listener_inv_def)
    then obtain h zs where x: "xs = h # zs" using p(2) il.rep_is_empty [OF d] by (cases xs) auto
    obtain q' where "TIntrusiveList_Pop (AcceptList l) = Some (h, q')" by (rule dll_Pop [OF d [unfolded x]])
    then show ?thesis using p(1) x by simp
  qed
  ultimately show ?thesis
    using LConnection by (auto simp: TTcpListener_ConnectionCallback_def emit_def split: option.splits)
next
  case (LRequestStop j)
  have a: "accept_inv (i \<in> set xs) (Accepts l i)" using inv by (simp add: listener_inv_def)
  show ?thesis using LRequestStop by (auto simp: left_registered_def handler_defs)
next
  case (LRunStop j)
  have "accept_inv (j \<in> set xs) (Accepts l j)" using inv by (simp add: listener_inv_def)
  then show ?thesis
    using LRunStop en
    by (auto simp: left_registered_def TAcceptOpState_StopCallback_def complete_accept_def accept_inv_def handler_defs split: if_splits)
qed

lemma left_registered_run:
  assumes "listener_inv l xs" "admissible listener_enabled listener_step l es"
  shows "left_registered (Accepts (fold listener_step es l) i) \<longleftrightarrow>
    left_registered (Accepts l i) \<or> in_run completed_inside i es l"
  using assms
proof (induction es arbitrary: l xs)
  case (Cons e es)
  have en: "listener_enabled e l" using Cons.prems(2) by simp
  obtain ys where "listener_inv (listener_step e l) ys" using listener_inv_step [OF Cons.prems(1) en] ..
  then show ?case using Cons.IH Cons.prems(2) left_registered_step [OF Cons.prems(1) en] by simp
qed simp

text \<open>An operation that has completed is in the list only if it began when listening was refused.\<close>

lemma listed_step:
  assumes inv: "listener_inv l xs" and inv': "listener_inv (listener_step e l) ys" and en: "listener_enabled e l"
    and i: "i \<in> set ys" "completions (trace (Accepts (listener_step e l) i)) \<noteq> []"
  shows "i \<in> set xs \<and> completions (trace (Accepts l i)) \<noteq> [] \<or> listen_refused i e l"
proof -
  have d: "dll (AcceptList l) xs" "dll (AcceptList (listener_step e l)) ys" using inv inv' by (simp_all add: listener_inv_def)
  show ?thesis
  proof (cases e)
    case (LBegin j env)
    let ?m = "(on_accept j (\<lambda>op. op\<lparr>AReceiver := True\<rparr>) (on_accept j (\<lambda>op. emit (ChildDone (AChild op)) op) l))
      \<lparr>AcceptList := TIntrusiveList_Add j (AcceptList l)\<rparr>"
    have jx: "j \<notin> set xs" using inv en LBegin by (auto simp: listener_inv_def accept_inv_def split: if_splits)
    obtain err l1 where sl: "TTcpListener_StartListening env ?m = (err, l1)" by (cases rule: prod.exhaust)
    have "AcceptList l1 = AcceptList ?m" using StartListening_simps(2) [of env ?m] sl by simp
    then have al: "AcceptList (listener_step e l) =
        (if PendingConnections l > 0 then AcceptList l else TIntrusiveList_Add j (AcceptList l))"
      using LBegin sl by (auto simp: TAcceptReceiver_set_value_def TTcpListener_RegisterAccept_def Let_def)
    have ys: "ys = (if PendingConnections l > 0 then xs else j # xs)"
      using d al il.rep_add [OF d(1) jx] dll_unique by (metis (full_types))
    show ?thesis
    proof (cases "i = j")
      case True
      then have "completed_inside i e l" using left_registered_Begin(1) [OF inv] en i(2) LBegin by blast
      then show ?thesis using True LBegin ys i(1) jx by (auto split: if_splits)
    next
      case False
      then have "Accepts (listener_step e l) i = Accepts l i"
        using LBegin Begin_accepts [of j env l] by (auto simp del: listener_step.simps)
      then show ?thesis using i ys False by (auto split: if_splits)
    qed
  next
    case (LConnection env status)
    show ?thesis
    proof (cases "IsError status \<or> xs = []")
      case True
      then have "listener_inv (listener_step e l) xs" "Accepts (listener_step e l) = Accepts l"
        using LConnection inv il.rep_is_empty [OF d(1)]
        by (auto simp: listener_inv_def TTcpListener_ConnectionCallback_def emit_def)
      then show ?thesis using i d(2) dll_unique by (metis listener_inv_def)
    next
      case False
      then obtain h zs where xs: "xs = h # zs" by (cases xs) auto
      obtain q where q: "TIntrusiveList_Pop (AcceptList l) = Some (h, q)" "dll q zs"
        by (rule dll_Pop [OF d(1) [unfolded xs]])
      have s: "AcceptList (listener_step e l) = q" "\<And>k. k \<noteq> h \<Longrightarrow> Accepts (listener_step e l) k = Accepts l k"
        using LConnection False q xs il.rep_is_empty [OF d(1)]
        by (auto simp: TTcpListener_ConnectionCallback_def emit_def)
      then have "ys = zs" using d(2) q(2) dll_unique by metis
      moreover from this have "i \<noteq> h" using d(1) xs i(1) by (auto simp: dll_def)
      ultimately show ?thesis using i s(2) xs by simp
    qed
  next
    case (LRequestStop j)
    have "completions (trace (request_stop op)) = completions (trace op)" for op :: TAcceptOpState
      by (simp add: handler_defs)
    then show ?thesis using i d LRequestStop dll_unique [of "AcceptList l" xs ys] by (auto split: if_splits)
  next
    case (LRunStop j)
    have al: "AcceptList (listener_step e l) = TIntrusiveList_Erase j (AcceptList l)"
      and ac: "\<And>k. k \<noteq> j \<Longrightarrow> Accepts (listener_step e l) k = Accepts l k"
      using LRunStop by (auto simp: TAcceptOpState_StopCallback_def Let_def split: prod.splits)
    then have "ys = remove1 j xs" using d il.rep_erase [OF d(1), of j] dll_unique by metis
    moreover have "distinct xs" using d(1) by (simp add: dll_def)
    ultimately show ?thesis using i ac [of i] by auto
  qed
qed

lemma listed_run:
  assumes "listener_inv l xs" "admissible listener_enabled listener_step l es"
    and "listener_inv (fold listener_step es l) ys" "i \<in> set ys"
    and "completions (trace (Accepts (fold listener_step es l) i)) \<noteq> []"
  shows "i \<in> set xs \<and> completions (trace (Accepts l i)) \<noteq> [] \<or> in_run listen_refused i es l"
  using assms
proof (induction es arbitrary: l xs)
  case Nil
  then have "xs = ys" using dll_unique [of "AcceptList l"] by (auto simp: listener_inv_def)
  then show ?case using Nil by simp
next
  case (Cons e es)
  have en: "listener_enabled e l" using Cons.prems(2) by simp
  obtain zs where zs: "listener_inv (listener_step e l) zs" using listener_inv_step [OF Cons.prems(1) en] ..
  have "i \<in> set zs \<and> completions (trace (Accepts (listener_step e l) i)) \<noteq> [] \<or> in_run listen_refused i es (listener_step e l)"
    using Cons.IH [OF zs] Cons.prems(2-5) by simp
  then show ?case using listed_step [OF Cons.prems(1) zs en] by auto
qed

section \<open>Connections and accept operations\<close>

lemma announced_append [simp]:
  "announced (l\<lparr>trace := tr @ es\<rparr>) = announced (l\<lparr>trace := tr\<rparr>) + announced (l\<lparr>trace := es\<rparr>)"
  "accept_calls (l\<lparr>trace := tr @ es\<rparr>) = accept_calls (l\<lparr>trace := tr\<rparr>) + accept_calls (l\<lparr>trace := es\<rparr>)"
  by (simp_all add: announced_def accept_calls_def)

text \<open>A listener that \<open>bind_to\<close> has started: the counter is not negative, no operation waits while a
  connection does, and every announced connection was handed to \<open>uv_accept\<close>, is counted,
  or was dropped by an operation that had been stopped; \<open>strict\<close>: there was none.\<close>

definition match_inv :: "bool \<Rightarrow> TTcpListener \<Rightarrow> nat list \<Rightarrow> bool" where
  "match_inv strict l xs \<longleftrightarrow> listener_inv l xs \<and> 0 \<le> PendingConnections l \<and>
     (xs \<noteq> [] \<longrightarrow> PendingConnections l = 0) \<and>
     int (accept_calls l) + PendingConnections l \<le> int (announced l) \<and>
     (strict \<longrightarrow> int (accept_calls l) + PendingConnections l = int (announced l) \<and>
        (\<forall>i. \<not> Token (StopOp (Accepts l i))) \<and> (\<forall>i \<in> set xs. \<not> Used (StopOp (Accepts l i))))"

lemma StopOp_emit [simp]: "StopOp (emit e op) = StopOp op"
  by (simp add: emit_def)

lemma Token_take_Setup [simp]:
  "Token (StopOp (take_accept c op)) = Token (StopOp op)"
  "Token (StopOp (Setup op)) = Token (StopOp op)"
  "Token (StopOp (begun op)) = Token (StopOp op)"
  by (simp_all add: take_accept_def complete_accept_def handler_defs)

lemma Used_Setup: "\<not> Token (StopOp op) \<Longrightarrow> Used (StopOp (Setup op)) = Used (StopOp op)"
  by (simp add: handler_defs)

lemma match_inv_Begin:
  assumes "match_inv strict l xs" "listener_enabled (LBegin i env) l"
  shows "\<exists>ys. match_inv strict (listener_step (LBegin i env) l) ys"
proof -
  let ?l = "on_accept i (\<lambda>op. op\<lparr>AReceiver := True\<rparr>)
    (on_accept i (\<lambda>op. emit (ChildDone (AChild op)) op) l)"
  have li: "listener_inv l xs" and r: "running (AChild (Accepts l i)) (trace (Accepts l i))"
    using assms by (auto simp: match_inv_def)
  obtain ys where ys: "listener_inv (listener_step (LBegin i env) l) ys"
    using listener_inv_step [OF li assms(2)] ..
  have nu: "\<not> Used (StopOp (Accepts l i))" and ix: "i \<notin> set xs"
    using li r by (auto simp: listener_inv_def accept_inv_def split: if_splits)
  have dll: "dll (AcceptList l) xs" using li by (simp add: listener_inv_def)
  show ?thesis
  proof (cases "PendingConnections l > 0")
    case True
    then have xs: "xs = []" using assms(1) by (auto simp: match_inv_def)
    have al: "AcceptList (listener_step (LBegin i env) l) = AcceptList l"
      using True by (simp add: TAcceptReceiver_set_value_def TTcpListener_RegisterAccept_def)
    then have "ys = []" using ys dll xs dll_unique by (metis listener_inv_def)
    moreover have "trace (listener_step (LBegin i env) l) = trace l @
        [UvCall (uv_accept (LSocket l) (ASocket (Accepts l i)))
           (env (uv_accept (LSocket l) (ASocket (Accepts l i))))]"
      using True nu by (simp add: TAcceptReceiver_set_value_def TTcpListener_RegisterAccept_def Let_def emit_def)
    moreover have "PendingConnections (listener_step (LBegin i env) l) = PendingConnections l - 1"
      using True by (simp add: TAcceptReceiver_set_value_def TTcpListener_RegisterAccept_def Let_def)
    moreover have "Token (StopOp (Accepts (listener_step (LBegin i env) l) j)) =
        Token (StopOp (Accepts l j))" for j
      using True by (simp add: TAcceptReceiver_set_value_def TTcpListener_RegisterAccept_def Let_def)
    ultimately have "match_inv strict (listener_step (LBegin i env) l) []"
      using assms(1) ys True by (auto simp: match_inv_def accept_calls_def announced_def)
    then show ?thesis ..
  next
    case False
    then have p: "PendingConnections l = 0" using assms(1) by (simp add: match_inv_def)
    have st: "listener_step (LBegin i env) l = on_accept i Setup
        (?l\<lparr>AcceptList := TIntrusiveList_Add i (AcceptList l)\<rparr>)"
      using p by (simp add: TAcceptReceiver_set_value_def TTcpListener_RegisterAccept_def)
    then have "ys = i # xs"
      using ys il.rep_add [OF dll ix] dll_unique by (simp add: listener_inv_def) blast
    moreover have "\<not> Used (StopOp (Accepts (listener_step (LBegin i env) l) j))"
      if "j \<in> set (i # xs)" "strict" for j
      using that assms(1) nu unfolding st match_inv_def by (auto simp: Used_Setup)
    ultimately have "match_inv strict (listener_step (LBegin i env) l) (i # xs)"
      using assms(1) ys p unfolding st match_inv_def by (auto simp: accept_calls_def announced_def)
    then show ?thesis ..
  qed
qed

lemma match_inv_Connection:
  assumes "match_inv strict l xs"
  shows "\<exists>ys. match_inv strict (listener_step (LConnection env status) l) ys"
proof -
  have li: "listener_inv l xs" and dll: "dll (AcceptList l) xs"
    using assms by (auto simp: match_inv_def listener_inv_def)
  obtain ys where ys: "listener_inv (listener_step (LConnection env status) l) ys"
    using listener_inv_step [OF li, of "LConnection env status"] by auto
  show ?thesis
  proof (cases "IsError status")
    case True
    then show ?thesis using assms by (auto simp: TTcpListener_ConnectionCallback_def)
  next
    case False
    show ?thesis
    proof (cases xs)
      case Nil
      then have "TIntrusiveList_Empty (AcceptList l)" using il.rep_is_empty [OF dll] by simp
      then have st: "listener_step (LConnection env status) l =
          (emit (Callback ConnectionCallback (LSocket l)) l)\<lparr>PendingConnections := PendingConnections l + 1\<rparr>"
        using False by (simp add: TTcpListener_ConnectionCallback_def emit_def)
      then have "ys = []" using ys dll Nil dll_unique by (simp add: listener_inv_def emit_def) blast
      then have "match_inv strict (listener_step (LConnection env status) l) []"
        using assms ys Nil unfolding st match_inv_def
        by (auto simp: accept_calls_def announced_def emit_def)
      then show ?thesis ..
    next
      case (Cons i zs)
      obtain q where q: "TIntrusiveList_Pop (AcceptList l) = Some (i, q)" "dll q zs"
        by (rule dll_Pop [OF dll [unfolded Cons]])
      have ne: "\<not> TIntrusiveList_Empty (AcceptList l)" using il.rep_is_empty [OF dll] Cons by simp
      have st: "listener_step (LConnection env status) l = TAcceptOpState_Accept env i
          ((emit (Callback ConnectionCallback (LSocket l)) l)\<lparr>AcceptList := q\<rparr>)"
        using False ne q by (simp add: TTcpListener_ConnectionCallback_def emit_def)
      have "ys = zs" using ys q(2) dll_unique unfolding st by (simp add: listener_inv_def) blast
      moreover have "i \<notin> set zs" using dll Cons by (simp add: dll_def)
      ultimately have "match_inv strict (listener_step (LConnection env status) l) zs"
        using assms ys Cons unfolding st match_inv_def
        by (auto simp: accept_calls_def announced_def emit_def)
      then show ?thesis ..
    qed
  qed
qed

lemma match_inv_stop:
  assumes "match_inv False l xs" "listener_enabled e l" "e = LRequestStop i \<or> e = LRunStop i"
  shows "\<exists>ys. match_inv False (listener_step e l) ys"
proof -
  have li: "listener_inv l xs" and dll: "dll (AcceptList l) xs"
    using assms(1) by (auto simp: match_inv_def listener_inv_def)
  obtain ys where ys: "listener_inv (listener_step e l) ys"
    using listener_inv_step [OF li assms(2)] ..
  have "PendingConnections (listener_step e l) = PendingConnections l"
    "trace (listener_step e l) = trace l"
    using assms(3) by (auto simp: TAcceptOpState_StopCallback_def Let_def split: prod.splits)
  moreover have "set ys \<subseteq> set xs"
  proof -
    have "AcceptList (listener_step e l) =
        (if e = LRequestStop i then AcceptList l else TIntrusiveList_Erase i (AcceptList l))"
      using assms(3) by (auto simp: TAcceptOpState_StopCallback_def Let_def split: prod.splits)
    then have "ys = xs \<or> ys = remove1 i xs"
      using ys dll il.rep_erase [OF dll, of i] dll_unique by (metis listener_inv_def)
    then show ?thesis using set_remove1_subset by fastforce
  qed
  ultimately have "match_inv False (listener_step e l) ys"
    using assms(1) ys by (auto simp: match_inv_def accept_calls_def announced_def)
  then show ?thesis ..
qed

lemma match_inv_run:
  assumes "match_inv strict l xs" "admissible listener_enabled listener_step l es"
    and "strict \<longrightarrow> (\<forall>i. LRequestStop i \<notin> set es)"
  shows "\<exists>ys. match_inv strict (fold listener_step es l) ys"
  using assms
proof (induction es arbitrary: l xs)
  case (Cons e es)
  have en: "listener_enabled e l" using Cons.prems(2) by simp
  have "\<exists>ys. match_inv strict (listener_step e l) ys"
  proof (cases e)
    case (LBegin i env)
    then show ?thesis using match_inv_Begin Cons.prems(1) en by blast
  next
    case (LConnection env st)
    then show ?thesis using match_inv_Connection Cons.prems(1) by blast
  next
    case (LRequestStop i)
    then have "\<not> strict" using Cons.prems(3) by auto
    then show ?thesis using match_inv_stop [of l xs e i] Cons.prems(1) en LRequestStop by simp
  next
    case (LRunStop i)
    have "\<not> queued (SelfOp (StopOp (Accepts l i))) (trace (Accepts l i))" if strict
      using Cons.prems(1) that
      by (auto simp: match_inv_def listener_inv_def accept_inv_def split: if_splits)
    then have "\<not> strict" using en LRunStop by auto
    then show ?thesis using match_inv_stop [of l xs e i] Cons.prems(1) en LRunStop by simp
  qed
  then obtain ys where "match_inv strict (listener_step e l) ys" ..
  then show ?case using Cons.IH Cons.prems by simp
qed auto

section \<open>Runs from the start\<close>

text \<open>The accept operations of a program: any number, each connected to its sockets and started.\<close>

definition started_accepts ::
    "ptr \<Rightarrow> (nat \<Rightarrow> ptr) \<Rightarrow> (nat \<Rightarrow> ptr) \<Rightarrow> (nat \<Rightarrow> ptr) \<Rightarrow> (nat \<Rightarrow> bool) \<Rightarrow> nat \<Rightarrow> TAcceptOpState" where
  "started_accepts loop child stop_op socket token =
     (\<lambda>i. TAcceptOpState_start (TAcceptOpState_new (child i) (stop_op i) (socket i) loop (token i)))"

lemma started_accepts_simps [simp]:
  "accept_inv False (started_accepts loop child stop_op socket token i)"
  "Token (StopOp (started_accepts loop child stop_op socket token i)) = token i"
  by (simp_all add: accept_inv_def started_accepts_def TAcceptOpState_start_def
      TAcceptOpState_new_def TStopOperation_new_def emit_def running_def queued_def)

lemma ctor_listener_inv:
  assumes "TTcpListener_ctor env socket ep backlog (started_accepts lp ch st so tk) = Inr l"
  shows "listener_inv l []"
  using assms dll_empty_list
  by (auto simp: TTcpListener_ctor_def TTcpListener_StartListening_def TTcpListener_fields_def
      Bind_def UvTcpBind_def handler_defs listener_inv_def Assert_def split: if_splits)

lemma accept_inv_outcome:
  "accept_inv waits op \<Longrightarrow> length (completions (trace op)) \<le> 1 \<and> \<not> undefined_in (trace op) \<and>
     (completions (trace op) = [] \<longrightarrow> running (AChild op) (trace op) \<or> queued (SelfOp (StopOp op)) (trace op) \<or> waits)"
  by (auto simp: accept_inv_def split: if_splits)

lemma ctor_accepts:
  "TTcpListener_ctor env socket ep backlog ops = Inr l \<Longrightarrow> Accepts l = ops"
  by (auto simp: TTcpListener_ctor_def TTcpListener_StartListening_def TTcpListener_fields_def
      Bind_def UvTcpBind_def handler_defs Assert_def split: if_splits)

lemma Bind_match_inv:
  assumes "TTcpListener_Bind env ep (TTcpListener_fields socket backlog
      (started_accepts lp ch st so tk)) = (EErrc 0, l)"
  shows "match_inv (\<forall>i. \<not> tk i) l []"
  using assms dll_empty_list
  by (auto simp: TTcpListener_Bind_def TTcpListener_StartListening_def TTcpListener_fields_def
      Bind_def UvTcpBind_def handler_defs match_inv_def listener_inv_def accept_calls_def
      announced_def IsError_def split: if_splits)

section \<open>Properties\<close>

text \<open>
  C17: however accepts, connections and stop requests interleave on a listener made by its public constructor, every accept operation completes at most
  once, and one that has not completed still has its child running, or waits in the list, or has its stop queued. An operation is used after it has
  completed, by a \<open>Setup\<close> that leaves its stop callback registered, exactly when \<open>RegisterAccept\<close> completes it within \<open>set_value\<close>: a connection is
  pending, or listening again is refused. It is in the list after it has completed only when listening was refused. Apart from these uses, which are
  defined only as long as the receiver does not destroy the operation, no optional is read empty and no null dereferenced.
\<close>

theorem accept_completes_at_most_once:
  assumes "TTcpListener_ctor env socket ep backlog (started_accepts lp ch st so tk) = Inr l"
    and "admissible listener_enabled listener_step l es"
  shows "let l' = fold listener_step es l; op = Accepts l' i; done = completions (trace op) \<noteq> [];
       listed = (\<exists>xs. dll (AcceptList l') xs \<and> i \<in> set xs)
    in length (completions (trace op)) \<le> 1 \<and>
       (\<not> done \<longrightarrow> running (AChild op) (trace op) \<or> queued (SelfOp (StopOp op)) (trace op) \<or> listed) \<and>
       (done \<longrightarrow> StopCallback (StopOp op) = in_run completed_inside i es l) \<and>
       (in_run completed_inside i es l \<longrightarrow> done) \<and>
       (done \<and> listed \<longrightarrow> in_run listen_refused i es l) \<and>
       \<not> undefined_in (trace op) \<and> \<not> undefined_in (trace l')"
proof -
  have l0: "listener_inv l []" by (rule ctor_listener_inv [OF assms(1)])
  obtain xs where x: "listener_inv (fold listener_step es l) xs"
    using listener.run_Inv [OF _ assms(2)] l0 by blast
  then have i: "accept_inv (i \<in> set xs) (Accepts (fold listener_step es l) i)"
    "\<not> undefined_in (trace (fold listener_step es l))" "dll (AcceptList (fold listener_step es l)) xs"
    by (simp_all add: listener_inv_def)
  have "\<not> left_registered (Accepts l i)" "completions (trace (Accepts l i)) = []"
    using ctor_accepts [OF assms(1)] by (simp_all add: left_registered_def started_accepts_def TAcceptOpState_start_def
        TAcceptOpState_new_def emit_def)
  then have "left_registered (Accepts (fold listener_step es l) i) \<longleftrightarrow> in_run completed_inside i es l"
    "i \<in> set xs \<Longrightarrow> completions (trace (Accepts (fold listener_step es l) i)) \<noteq> [] \<Longrightarrow> in_run listen_refused i es l"
    using left_registered_run [OF l0 assms(2), of i] listed_run [OF l0 assms(2) x, of i] by auto
  moreover have "ys = xs" if "dll (AcceptList (fold listener_step es l)) ys" for ys
    using dll_unique i(3) that by blast
  ultimately show ?thesis
    unfolding Let_def left_registered_def using accept_inv_outcome [OF i(1)] i(2,3) by blast
qed

definition sample_accepts :: "nat \<Rightarrow> TAcceptOpState" where
  "sample_accepts = started_accepts 1 (\<lambda>i. 0) (\<lambda>i. 2) (\<lambda>i. 3) (\<lambda>i. False)"

definition sample_listener :: TTcpListener where
  "sample_listener = TTcpListener_fields 9 4 sample_accepts"

definition ctor_listener :: TTcpListener where
  "ctor_listener = sample_listener\<lparr>trace :=
     [UvCall (uv_tcp_bind 9 \<lparr>sa_family = 2, sa_bytes = []\<rparr> 0) 0,
      UvCall (uv_listen 9 4 ConnectionCallback) 0]\<rparr>"

definition bound_listener :: TTcpListener where
  "bound_listener = ctor_listener\<lparr>PendingConnections := 0\<rparr>"

lemma sample_ctor:
  "TTcpListener_ctor (\<lambda>_. 0) 9 \<lparr>sa_family = 2, sa_bytes = []\<rparr> 4 sample_accepts = Inr ctor_listener"
  by (simp add: TTcpListener_ctor_def TTcpListener_StartListening_def TTcpListener_fields_def
      Bind_def UvTcpBind_def handler_defs Assert_def ctor_listener_def sample_listener_def
      IsError_def UvTcpListen_def)

lemma sample_Bind:
  "TTcpListener_Bind (\<lambda>_. 0) \<lparr>sa_family = 2, sa_bytes = []\<rparr> sample_listener =
     (EErrc 0, bound_listener)"
  by (simp add: TTcpListener_Bind_def TTcpListener_StartListening_def TTcpListener_fields_def
      Bind_def UvTcpBind_def handler_defs ctor_listener_def sample_listener_def
      IsError_def bound_listener_def UvTcpListen_def)

theorem accept_completes_at_most_once_witness:
  "let op = Accepts (fold listener_step [LBegin 0 (\<lambda>_. -98), LRequestStop 0, LConnection (\<lambda>_. 0) 0] ctor_listener) 0
   in length (completions (trace op)) = 1 \<and> StopCallback (StopOp op)"
proof -
  let ?es = "[LBegin 0 (\<lambda>_. -98), LRequestStop 0, LConnection (\<lambda>_. 0) 0]"
  have a: "admissible listener_enabled listener_step ctor_listener ?es" by code_simp
  have r: "in_run completed_inside 0 ?es ctor_listener" by code_simp
  have "length cs = 1" if "length cs \<le> 1" "cs \<noteq> []" for cs :: "completion list"
    using that by (cases cs) auto
  then show ?thesis
    using accept_completes_at_most_once [OF sample_ctor [unfolded sample_accepts_def] a, of 0] r
    unfolding Let_def by blast
qed

text \<open>
  C18: on a listener started by \<open>bind_to\<close>, no operation waits while a connection is pending, and the
  connections handed to \<open>uv_accept\<close> with those pending are never more than libuv announced; when no stop is
  requested, they are exactly those: no connection is lost.
\<close>

theorem bound_listener_matches_connections:
  assumes "TTcpListener_Bind env ep (TTcpListener_fields socket backlog
      (started_accepts lp ch st so tk)) = (EErrc 0, l)"
    and "admissible listener_enabled listener_step l es"
  shows "let l' = fold listener_step es l
    in (Head (AcceptList l') \<noteq> None \<longrightarrow> PendingConnections l' = 0) \<and> 0 \<le> PendingConnections l' \<and>
       int (accept_calls l') + PendingConnections l' \<le> int (announced l') \<and>
       ((\<forall>i. \<not> tk i \<and> LRequestStop i \<notin> set es) \<longrightarrow>
          int (accept_calls l') + PendingConnections l' = int (announced l'))"
proof -
  define strict where "strict \<longleftrightarrow> (\<forall>i. \<not> tk i \<and> LRequestStop i \<notin> set es)"
  have "match_inv strict l []"
    using Bind_match_inv [OF assms(1)] unfolding match_inv_def strict_def by blast
  then obtain xs where m: "match_inv strict (fold listener_step es l) xs"
    using match_inv_run [OF _ assms(2)] unfolding strict_def by blast
  then have "Head (AcceptList (fold listener_step es l)) \<noteq> None \<longrightarrow> xs \<noteq> []"
    by (auto simp: match_inv_def listener_inv_def dll_def)
  with m show ?thesis unfolding match_inv_def strict_def Let_def by blast
qed

definition sample_connections :: "levent list" where
  "sample_connections = [LConnection (\<lambda>_. 0) 0, LConnection (\<lambda>_. 0) 0, LBegin 0 (\<lambda>_. 0)]"

theorem bound_listener_matches_connections_witness:
  "int (accept_calls (fold listener_step sample_connections bound_listener)) +
     PendingConnections (fold listener_step sample_connections bound_listener) = 2"
proof -
  have a: "admissible listener_enabled listener_step bound_listener sample_connections"
    by code_simp
  have n: "announced (fold listener_step sample_connections bound_listener) = 2" by code_simp
  have "LRequestStop i \<notin> set sample_connections" for i by (simp add: sample_connections_def)
  with bound_listener_matches_connections [OF sample_Bind [unfolded sample_listener_def
        sample_accepts_def] a] n
  show ?thesis unfolding Let_def by (metis of_nat_numeral)
qed

text \<open>
  connections that are lost. (1) A listener made by its public constructor counts up from minus its backlog:
  the connection announced before the first accept operation is forgotten by it. (2) A connection that arrives
  for an operation whose stop is queued is taken from libuv's hands by nobody: the operation behind it waits.
  (3) When listening again fails, the operation completes with the error but stays in the list, and takes
  the next connection.
\<close>

theorem connections_can_be_lost:
  "(let l = fold listener_step [LConnection (\<lambda>_. 0) 0, LBegin 0 (\<lambda>_. 0)] ctor_listener
    in announced l = 1 \<and> accept_calls l = 0 \<and> PendingConnections l = 0 \<and>
       completions (trace (Accepts l 0)) = []) \<and>
   (let l = fold listener_step [LBegin 1 (\<lambda>_. 0), LBegin 0 (\<lambda>_. 0), LRequestStop 0,
        LConnection (\<lambda>_. 0) 0, LRunStop 0] bound_listener
    in announced l = 1 \<and> accept_calls l = 0 \<and> PendingConnections l = 0 \<and>
       completions (trace (Accepts l 0)) = [SetStopped] \<and> completions (trace (Accepts l 1)) = []) \<and>
   (let l = fold listener_step [LBegin 0 (\<lambda>_. -98)] ctor_listener
    in completions (trace (Accepts l 0)) = [SetError (EErrc (-98))] \<and> Head (AcceptList l) = Some 0)"
  by code_simp

end
