(* ===== verification/Sockets.thy ===== *)
theory Sockets
  imports Listener
begin

text \<open>
  The sockets and addresses of include/uvexec/sockets and src/sockets: how \<open>TTcpSocket\<close>, \<open>TUdpSocket\<close> and
  \<open>TTcpListener\<close> are made, with exceptions (the public constructors) and with an error code (the private
  ones, which the scoped operations use), and how they are bound. \<open>uv_ip4_addr\<close> and \<open>uv_ip6_addr\<close>
  of libuv, which parse an address, are a parameter \<open>parse\<close>.
\<close>

section \<open>Addresses\<close>

text \<open>The default constructors fill the structure with zeros.\<close>

definition zero_addr :: "nat \<Rightarrow> sockaddr" where
  "zero_addr n = \<lparr>sa_family = 0, sa_bytes = replicate n 0\<rparr>"

definition TIp4Addr_default :: "platform \<Rightarrow> sockaddr" where
  "TIp4Addr_default P = zero_addr (sizeof_sockaddr_in P)"

definition TIp6Addr_default :: "platform \<Rightarrow> sockaddr" where
  "TIp6Addr_default P = zero_addr (sizeof_sockaddr_in6 P)"

definition TIp4Addr_ctor ::
    "(string \<Rightarrow> int \<Rightarrow> TUvError \<times> sockaddr) \<Rightarrow> string \<Rightarrow> int \<Rightarrow> EErrc + sockaddr" where
  "TIp4Addr_ctor parse ip port =
     (let (err, addr) = parse ip port
      in case Assert err of Inl e \<Rightarrow> Inl e | Inr _ \<Rightarrow> Inr addr)"

definition TIp6Addr_ctor ::
    "(string \<Rightarrow> int \<Rightarrow> TUvError \<times> sockaddr) \<Rightarrow> string \<Rightarrow> int \<Rightarrow> EErrc + sockaddr" where
  "TIp6Addr_ctor parse ip port =
     (let (err, addr) = parse ip port
      in case Assert err of Inl e \<Rightarrow> Inl e | Inr _ \<Rightarrow> Inr addr)"

definition DefaultAddr ::
    "(string \<Rightarrow> int \<Rightarrow> TUvError \<times> sockaddr) \<Rightarrow> addr_kind \<Rightarrow> EErrc + sockaddr" where
  "DefaultAddr parse kind =
     (case kind of
        TIp4Addr \<Rightarrow> TIp4Addr_ctor parse ''0.0.0.0'' 0
      | TIp6Addr \<Rightarrow> TIp6Addr_ctor parse ''::'' 0)"

section \<open>Sockets\<close>

text \<open>The constructors with an error code.\<close>

definition TTcpSocket_try ::
    "uvenv \<Rightarrow> ptr \<Rightarrow> ptr \<Rightarrow> 'a world_scheme \<Rightarrow> EErrc \<times> 'a world_scheme" where
  "TTcpSocket_try env loop socket w =
     (let (st, w) = uv env (uv_tcp_init loop socket) w in (ToErrc st, w))"

definition TUdpSocket_try ::
    "uvenv \<Rightarrow> ptr \<Rightarrow> ptr \<Rightarrow> 'a world_scheme \<Rightarrow> EErrc \<times> 'a world_scheme" where
  "TUdpSocket_try env loop socket w =
     (let (st, w) = uv env (uv_udp_init loop socket) w in (ToErrc st, w))"

definition TUdpSocket_Bind ::
    "uvenv \<Rightarrow> ptr \<Rightarrow> sockaddr \<Rightarrow> 'a world_scheme \<Rightarrow> EErrc \<times> 'a world_scheme" where
  "TUdpSocket_Bind env socket addr w =
     (let (st, w) = uv env (UvUdpBind socket addr) w in (ToErrc st, w))"

text \<open>The constructors that throw. What they did before is in the trace on both sides.\<close>

definition TTcpSocket_ctor ::
    "uvenv \<Rightarrow> ptr \<Rightarrow> ptr \<Rightarrow> 'a world_scheme \<Rightarrow> (EErrc + unit) \<times> 'a world_scheme" where
  "TTcpSocket_ctor env loop socket w =
     (let (st, w) = uv env (uv_tcp_init loop socket) w in (Assert st, w))"

definition TUdpSocket_ctor ::
    "uvenv \<Rightarrow> ptr \<Rightarrow> ptr \<Rightarrow> sockaddr \<Rightarrow> 'a world_scheme \<Rightarrow> (EErrc + unit) \<times> 'a world_scheme" where
  "TUdpSocket_ctor env loop socket addr w =
     (let (st, w) = uv env (uv_udp_init loop socket) w
      in case Assert st of
           Inl e \<Rightarrow> (Inl e, w)
         | Inr _ \<Rightarrow> let (st, w) = uv env (UvUdpBind socket addr) w in (Assert st, w))"

text \<open>The three socket types a scoped operation makes, and how it binds the two it binds.\<close>

datatype scope_socket = ScopeTcp | ScopeUdp | ScopeListener

definition socket_try ::
    "scope_socket \<Rightarrow> uvenv \<Rightarrow> ptr \<Rightarrow> ptr \<Rightarrow> 'a world_scheme \<Rightarrow> EErrc \<times> 'a world_scheme" where
  "socket_try k = (if k = ScopeUdp then TUdpSocket_try else TTcpSocket_try)"

definition no_accepts :: "nat \<Rightarrow> TAcceptOpState" where
  "no_accepts i = TAcceptOpState_new 0 0 0 0 False"

text \<open>The private constructor of \<open>TTcpListener\<close> has the default backlog 4096.\<close>

definition socket_bind ::
    "scope_socket \<Rightarrow> uvenv \<Rightarrow> ptr \<Rightarrow> sockaddr \<Rightarrow> 'a world_scheme \<Rightarrow> EErrc \<times> 'a world_scheme" where
  "socket_bind k env socket ep w =
     (if k = ScopeListener then
        let (err, l) = TTcpListener_Bind env ep
              ((TTcpListener_fields socket 4096 no_accepts)\<lparr>trace := trace w\<rparr>)
        in (err, w\<lparr>trace := trace l\<rparr>)
      else TUdpSocket_Bind env socket ep w)"

lemmas socket_defs = socket_try_def TTcpSocket_try_def TUdpSocket_try_def socket_bind_def
  TUdpSocket_Bind_def TTcpListener_Bind_def TTcpListener_StartListening_def
  TTcpListener_fields_def handler_defs

text \<open>The statuses of these calls.\<close>

definition socket_try_error :: "scope_socket \<Rightarrow> uvenv \<Rightarrow> ptr \<Rightarrow> ptr \<Rightarrow> EErrc" where
  "socket_try_error k env loop socket =
     ToErrc (env (if k = ScopeUdp then uv_udp_init loop socket else uv_tcp_init loop socket))"

definition socket_bind_error :: "scope_socket \<Rightarrow> uvenv \<Rightarrow> ptr \<Rightarrow> sockaddr \<Rightarrow> EErrc" where
  "socket_bind_error k env socket ep =
     (if k = ScopeListener then
        if IsError (env (uv_tcp_bind socket ep 0)) then EErrc (env (uv_tcp_bind socket ep 0))
        else ToErrc (env (uv_listen socket 4096 ConnectionCallback))
      else ToErrc (env (uv_udp_bind socket ep 0)))"

lemma socket_try_simps [simp]:
  "fst (socket_try k env loop socket w) = socket_try_error k env loop socket"
  "world.more (snd (socket_try k env loop socket w)) = world.more w"
  "completions (trace (snd (socket_try k env loop socket w))) = completions (trace w)"
  "inited h (trace (snd (socket_try k env loop socket w))) \<longleftrightarrow>
     inited h (trace w) \<or> socket = h \<and> socket_try_error k env loop socket = EErrc 0"
  "closing h (trace (snd (socket_try k env loop socket w))) = closing h (trace w)"
  "closes h (trace (snd (socket_try k env loop socket w))) = closes h (trace w)"
  "running p (trace (snd (socket_try k env loop socket w))) = running p (trace w)"
  "undefined_in (trace (snd (socket_try k env loop socket w))) = undefined_in (trace w)"
  by (auto simp: socket_defs socket_try_error_def)

lemma socket_bind_simps [simp]:
  "fst (socket_bind k env socket ep w) = socket_bind_error k env socket ep"
  "world.more (snd (socket_bind k env socket ep w)) = world.more w"
  "completions (trace (snd (socket_bind k env socket ep w))) = completions (trace w)"
  "inited h (trace (snd (socket_bind k env socket ep w))) = inited h (trace w)"
  "closing h (trace (snd (socket_bind k env socket ep w))) = closing h (trace w)"
  "closes h (trace (snd (socket_bind k env socket ep w))) = closes h (trace w)"
  "running p (trace (snd (socket_bind k env socket ep w))) = running p (trace w)"
  "undefined_in (trace (snd (socket_bind k env socket ep w))) = undefined_in (trace w)"
  by (auto simp: socket_defs socket_bind_error_def split: if_splits)

text \<open>
  When the constructor of a UDP socket throws because it cannot bind, its handle has been initialised and is
  not closed: the object is gone, and the loop keeps the handle.
\<close>

lemma udp_constructor_leaks_its_handle:
  assumes "\<not> IsError (env (uv_udp_init loop socket))" "IsError (env (uv_udp_bind socket addr 0))"
  shows "fst (TUdpSocket_ctor env loop socket addr w) = Inl (EErrc (env (uv_udp_bind socket addr 0)))"
    "inited socket (trace (snd (TUdpSocket_ctor env loop socket addr w)))"
    "closes socket (trace (snd (TUdpSocket_ctor env loop socket addr w))) = closes socket (trace w)"
  using assms by (simp_all add: TUdpSocket_ctor_def handler_defs Assert_def)

end
