(* ===== verification/Scoped_Ops.thy ===== *)
theory Scoped_Ops
  imports Sockets
begin

text \<open>
  The operations that own a socket for the time of a body: \<open>bind_to\<close>, \<open>connect_to\<close> and \<open>accept_from\<close>
  (include/uvexec/algorithms/bind_to_op_state.hpp, connect_to_op_state.hpp, accept_from_op_state.hpp). Their
  common contract is the locale \<open>scoped_op\<close>: which completion the client hears, what has become of the socket by
  then, when the body is started, and which runs read a receiver that no longer exists.

  The body is run by \<open>exec::finally\<close>, which is foreign. What is used of it, as conditions on the
  events it may cause (\<open>scope_enabled\<close>): when the body's sender has completed it starts the closing sender, and when that has
  completed it completes the receiver as the body did.
\<close>

section \<open>The state\<close>

text \<open>
  \<open>Alt\<close> is the active alternative of the variant \<open>OpState\<close>: the operation that precedes the body, the body with its
  \<open>finally\<close>, or the closing of the socket after a failure, whose receiver keeps the completion. \<open>Valueless\<close>: an
  \<open>emplace\<close> has thrown. \<open>BodyResult\<close> and \<open>FinClosed\<close> are the memory of \<open>finally\<close>.
\<close>

datatype scope_alt = NoAlt | InAlt | BodyAlt | CloseAlt completion | Valueless

record TScopedOpState = world +
  ScLoop :: ptr
  ScKind :: scope_socket
  ScSocket :: ptr
  InOp :: ptr
  BodyOp :: ptr
  Alt :: scope_alt
  BodyResult :: "completion option"
  FinClosed :: bool

text \<open>
  Where the receiver is that an \<open>emplace\<close> moves into the new alternative: copied out before, or still referenced
  inside the alternative that \<open>emplace\<close> destroys first, which is undefined. What such a read
  yields is taken to be the receiver all the same, so that the rest of the run can be followed.
\<close>

datatype receiver_place = MovedOut | InsideAlternative

definition read_receiver :: "receiver_place \<Rightarrow> TScopedOpState \<Rightarrow> TScopedOpState" where
  "read_receiver pl op =
     (if pl = InsideAlternative \<and> Alt op \<noteq> InAlt
      then emit (Undefined ''receiver of a destroyed operation state'') op else op)"

definition emplace :: "scope_alt \<Rightarrow> receiver_place \<Rightarrow> TScopedOpState \<Rightarrow> TScopedOpState" where
  "emplace alt pl op = read_receiver pl (op\<lparr>Alt := alt\<rparr>)"

text \<open>\<open>uvexec::close\<close> of the socket, as a sender of its own: it is started and closes at once.\<close>

definition start_close :: "TScopedOpState \<Rightarrow> TScopedOpState" where
  "start_close op = Close (ScSocket op) (Some CloseCallback) op"

definition start_body :: "TScopedOpState \<Rightarrow> TScopedOpState" where
  "start_body op = emit (Started (BodyOp op)) op"

definition exc :: completion where
  "exc = SetException ''current_exception''"

section \<open>\<open>bind_to\<close>\<close>

definition TBindToOpState_new ::
    "scope_socket \<Rightarrow> ptr \<Rightarrow> ptr \<Rightarrow> ptr \<Rightarrow> ptr \<Rightarrow> TScopedOpState" where
  "TBindToOpState_new kind loop socket inop body =
     \<lparr>trace = [], ScLoop = loop, ScKind = kind, ScSocket = socket, InOp = inop, BodyOp = body,
      Alt = InAlt, BodyResult = None, FinClosed = False\<rparr>"

definition TBindToOpState_start :: "TScopedOpState \<Rightarrow> TScopedOpState" where
  "TBindToOpState_start op = emit (Started (InOp op)) op"

text \<open>\<open>throws\<close>: whether the construction of the body throws; the exception is the left side of the sum.\<close>

definition TBindToOpState_EmplaceAndStartBody ::
    "uvenv \<Rightarrow> bool \<Rightarrow> sockaddr \<Rightarrow> TScopedOpState \<Rightarrow> (completion + EErrc) \<times> TScopedOpState" where
  "TBindToOpState_EmplaceAndStartBody env throws ep op =
     (let (err, op) = socket_try (ScKind op) env (ScLoop op) (ScSocket op) op
      in if err \<noteq> EErrc 0 then (Inr err, op)
         else let (err, op) = socket_bind (ScKind op) env (ScSocket op) ep op
              in if err \<noteq> EErrc 0 then
                   (Inr (EErrc 0), start_close (emplace (CloseAlt (SetError err)) InsideAlternative op))
                 else if throws then (Inl exc, op\<lparr>Alt := Valueless\<rparr>)
                 else (Inr (EErrc 0), start_body (emplace BodyAlt InsideAlternative op)))"

definition TBindToReceiver_set_value ::
    "uvenv \<Rightarrow> bool \<Rightarrow> sockaddr \<Rightarrow> TScopedOpState \<Rightarrow> TScopedOpState" where
  "TBindToReceiver_set_value env throws ep op =
     (case TBindToOpState_EmplaceAndStartBody env throws ep op of
        (Inl c, op) \<Rightarrow> emit (Signal c) (read_receiver InsideAlternative op)
      | (Inr err, op) \<Rightarrow>
          if err \<noteq> EErrc 0 then set_error err (read_receiver InsideAlternative op) else op)"

text \<open>Once the socket is closed after a failure.\<close>

definition TBindErrReceiver_set_value :: "TScopedOpState \<Rightarrow> TScopedOpState" where
  "TBindErrReceiver_set_value op =
     (case Alt op of
        CloseAlt c \<Rightarrow> emit (Signal c) op
      | _ \<Rightarrow> emit (Undefined ''wrong alternative'') op)"

section \<open>\<open>connect_to\<close>\<close>

text \<open>\<open>start\<close> makes the socket and connects. \<open>EmplaceAndStartClose\<close> takes the receiver by value, so it is
  read before the alternative is destroyed.\<close>

definition TConnectToOpState_EmplaceAndStartInitially ::
    "uvenv \<Rightarrow> bool \<Rightarrow> TScopedOpState \<Rightarrow> TScopedOpState" where
  "TConnectToOpState_EmplaceAndStartInitially env throws op =
     (let (err, op) = socket_try (ScKind op) env (ScLoop op) (ScSocket op) op
      in if err \<noteq> EErrc 0 then set_error err op
         else if throws then emit (Signal exc) (op\<lparr>Alt := Valueless\<rparr>)
         else emit (Started (InOp op)) (emplace InAlt MovedOut op))"

definition TConnectToOpState_EmplaceAndStartBody ::
    "bool \<Rightarrow> TScopedOpState \<Rightarrow> (completion + unit) \<times> TScopedOpState" where
  "TConnectToOpState_EmplaceAndStartBody throws op =
     (if throws then (Inl exc, op\<lparr>Alt := Valueless\<rparr>)
      else (Inr (), start_body (emplace BodyAlt InsideAlternative op)))"

definition TConnectToOpState_EmplaceAndStartClose ::
    "completion \<Rightarrow> TScopedOpState \<Rightarrow> TScopedOpState" where
  "TConnectToOpState_EmplaceAndStartClose fin op =
     start_close (emplace (CloseAlt fin) MovedOut (read_receiver InsideAlternative op))"

text \<open>\<open>set_error\<close> and \<open>set_stopped\<close> close with what they were given.\<close>

definition TConnectToReceiver_set_value :: "bool \<Rightarrow> TScopedOpState \<Rightarrow> TScopedOpState" where
  "TConnectToReceiver_set_value throws op =
     (case TConnectToOpState_EmplaceAndStartBody throws op of
        (Inl e, op) \<Rightarrow> TConnectToOpState_EmplaceAndStartClose e op
      | (Inr _, op) \<Rightarrow> op)"

definition TConnectToReceiver_set_other :: "completion \<Rightarrow> TScopedOpState \<Rightarrow> TScopedOpState" where
  "TConnectToReceiver_set_other c op = TConnectToOpState_EmplaceAndStartClose c op"

definition TConnectErrorReceiver_set_value :: "TScopedOpState \<Rightarrow> TScopedOpState" where
  "TConnectErrorReceiver_set_value op =
     (case Alt op of
        CloseAlt c \<Rightarrow> emit (Signal c) op
      | _ \<Rightarrow> emit (Undefined ''wrong alternative'') op)"

section \<open>\<open>accept_from\<close>\<close>

definition TAcceptFromOpState_EmplaceAndStartInitially ::
    "uvenv \<Rightarrow> bool \<Rightarrow> TScopedOpState \<Rightarrow> TScopedOpState" where
  "TAcceptFromOpState_EmplaceAndStartInitially env throws op =
     (let (err, op) = socket_try (ScKind op) env (ScLoop op) (ScSocket op) op
      in if err \<noteq> EErrc 0 then set_error err op
         else if throws then emit (Signal exc) (op\<lparr>Alt := Valueless\<rparr>)
         else emit (Started (InOp op)) (emplace InAlt MovedOut op))"

definition TAcceptFromOpState_EmplaceAndStartBody ::
    "bool \<Rightarrow> TScopedOpState \<Rightarrow> (completion + unit) \<times> TScopedOpState" where
  "TAcceptFromOpState_EmplaceAndStartBody throws op =
     (if throws then (Inl exc, op\<lparr>Alt := Valueless\<rparr>)
      else (Inr (), start_body (emplace BodyAlt InsideAlternative op)))"

text \<open>Here the receiver is taken by reference.\<close>

definition TAcceptFromOpState_EmplaceAndStartClose ::
    "completion \<Rightarrow> TScopedOpState \<Rightarrow> TScopedOpState" where
  "TAcceptFromOpState_EmplaceAndStartClose fin op =
     start_close (emplace (CloseAlt fin) InsideAlternative op)"

definition TAcceptFromReceiver_set_other :: "completion \<Rightarrow> TScopedOpState \<Rightarrow> TScopedOpState" where
  "TAcceptFromReceiver_set_other c op = TAcceptFromOpState_EmplaceAndStartClose c op"

definition TAcceptFromReceiver_set_value :: "bool \<Rightarrow> TScopedOpState \<Rightarrow> TScopedOpState" where
  "TAcceptFromReceiver_set_value throws op =
     (case TAcceptFromOpState_EmplaceAndStartBody throws op of
        (Inl e, op) \<Rightarrow> TAcceptFromReceiver_set_other e op
      | (Inr _, op) \<Rightarrow> op)"

definition TAcceptErrorReceiver_set_value :: "TScopedOpState \<Rightarrow> TScopedOpState" where
  "TAcceptErrorReceiver_set_value op =
     (case Alt op of
        CloseAlt c \<Rightarrow> emit (Signal c) op
      | _ \<Rightarrow> emit (Undefined ''wrong alternative'') op)"

definition TScopedOpState_new ::
    "scope_socket \<Rightarrow> ptr \<Rightarrow> ptr \<Rightarrow> ptr \<Rightarrow> ptr \<Rightarrow> TScopedOpState" where
  "TScopedOpState_new kind loop socket inop body =
     \<lparr>trace = [], ScLoop = loop, ScKind = kind, ScSocket = socket, InOp = inop, BodyOp = body,
      Alt = NoAlt, BodyResult = None, FinClosed = False\<rparr>"

section \<open>Events\<close>

text \<open>
  The preceding operation completes with a value, or otherwise; the body completes, and \<open>finally\<close> starts the closing sender;
  the socket's close callback runs; \<open>finally\<close> completes the receiver.
\<close>

datatype scope_event =
    InValue uvenv bool sockaddr | InOther completion | BodyDone completion
  | SocketClosed | FinallyDone completion

definition body_done :: "completion \<Rightarrow> TScopedOpState \<Rightarrow> TScopedOpState" where
  "body_done c op = start_close ((emit (ChildDone (BodyOp op)) op)\<lparr>BodyResult := Some c\<rparr>)"

definition socket_closed ::
    "(TScopedOpState \<Rightarrow> TScopedOpState) \<Rightarrow> TScopedOpState \<Rightarrow> TScopedOpState" where
  "socket_closed receiver op =
     (let op = emit (Callback CloseCallback (ScSocket op)) op
      in if Alt op = BodyAlt then op\<lparr>FinClosed := True\<rparr> else receiver op)"

fun TBindToOpState_step :: "scope_event \<Rightarrow> TScopedOpState \<Rightarrow> TScopedOpState" where
  "TBindToOpState_step (InValue env throws ep) op =
     TBindToReceiver_set_value env throws ep (emit (ChildDone (InOp op)) op)"
| "TBindToOpState_step (InOther c) op = emit (Signal c) (emit (ChildDone (InOp op)) op)"
| "TBindToOpState_step (BodyDone c) op = body_done c op"
| "TBindToOpState_step SocketClosed op = socket_closed TBindErrReceiver_set_value op"
| "TBindToOpState_step (FinallyDone c) op = emit (Signal c) op"

fun TConnectToOpState_step :: "scope_event \<Rightarrow> TScopedOpState \<Rightarrow> TScopedOpState" where
  "TConnectToOpState_step (InValue env throws ep) op =
     TConnectToReceiver_set_value throws (emit (ChildDone (InOp op)) op)"
| "TConnectToOpState_step (InOther c) op =
     TConnectToReceiver_set_other c (emit (ChildDone (InOp op)) op)"
| "TConnectToOpState_step (BodyDone c) op = body_done c op"
| "TConnectToOpState_step SocketClosed op = socket_closed TConnectErrorReceiver_set_value op"
| "TConnectToOpState_step (FinallyDone c) op = emit (Signal c) op"

fun TAcceptFromOpState_step :: "scope_event \<Rightarrow> TScopedOpState \<Rightarrow> TScopedOpState" where
  "TAcceptFromOpState_step (InValue env throws ep) op =
     TAcceptFromReceiver_set_value throws (emit (ChildDone (InOp op)) op)"
| "TAcceptFromOpState_step (InOther c) op =
     TAcceptFromReceiver_set_other c (emit (ChildDone (InOp op)) op)"
| "TAcceptFromOpState_step (BodyDone c) op = body_done c op"
| "TAcceptFromOpState_step SocketClosed op = socket_closed TAcceptErrorReceiver_set_value op"
| "TAcceptFromOpState_step (FinallyDone c) op = emit (Signal c) op"

fun scope_enabled :: "scope_event \<Rightarrow> TScopedOpState \<Rightarrow> bool" where
  "scope_enabled (InValue env throws ep) op \<longleftrightarrow> running (InOp op) (trace op)"
| "scope_enabled (InOther c) op \<longleftrightarrow> running (InOp op) (trace op) \<and> (case c of SetValue vs \<Rightarrow> False | _ \<Rightarrow> True)"
| "scope_enabled (BodyDone c) op \<longleftrightarrow> running (BodyOp op) (trace op)"
| "scope_enabled SocketClosed op \<longleftrightarrow> closing (ScSocket op) (trace op)"
| "scope_enabled (FinallyDone c) op \<longleftrightarrow>
     BodyResult op = Some c \<and> FinClosed op \<and> completions (trace op) = []"

section \<open>The contract\<close>

text \<open>
  What a scoped operation does, without its variant and its receivers: it waits, runs the body, has \<open>finally\<close> close the
  socket, or closes it itself after a failure with the completion kept. \<open>PDone c fate\<close>: it has sent \<open>c\<close>, and
  \<open>fate\<close> says what has become of the socket.
\<close>

datatype socket_fate = NeverOpened | ClosedOnce | LeftOpen

datatype scope_phase =
    PWait | PBody | PFin completion | PFinClosed completion | PClosing completion
  | PDone completion socket_fate

fun scope_spec ::
    "(uvenv \<Rightarrow> bool \<Rightarrow> sockaddr \<Rightarrow> scope_phase) \<Rightarrow> (completion \<Rightarrow> scope_phase) \<Rightarrow>
     scope_event \<Rightarrow> scope_phase \<Rightarrow> scope_phase" where
  "scope_spec react other (InValue env throws ep) PWait = react env throws ep"
| "scope_spec react other (InOther c) PWait = other c"
| "scope_spec react other (BodyDone c) PBody = PFin c"
| "scope_spec react other SocketClosed (PFin c) = PFinClosed c"
| "scope_spec react other SocketClosed (PClosing c) = PDone c ClosedOnce"
| "scope_spec react other (FinallyDone c') (PFinClosed c) = PDone c ClosedOnce"
| "scope_spec react other e p = p"

text \<open>What the preceding operation's completion leads to: for \<open>bind_to\<close>, and for the other two.\<close>

definition bind_react :: "TScopedOpState \<Rightarrow> uvenv \<Rightarrow> bool \<Rightarrow> sockaddr \<Rightarrow> scope_phase" where
  "bind_react op env throws ep =
     (let e = socket_try_error (ScKind op) env (ScLoop op) (ScSocket op);
          e' = socket_bind_error (ScKind op) env (ScSocket op) ep
      in if e \<noteq> EErrc 0 then PDone (SetError e) NeverOpened
         else if e' \<noteq> EErrc 0 then PClosing (SetError e')
         else if throws then PDone exc LeftOpen else PBody)"

definition open_react :: "TScopedOpState \<Rightarrow> uvenv \<Rightarrow> bool \<Rightarrow> sockaddr \<Rightarrow> scope_phase" where
  "open_react op env throws ep = (if throws then PClosing exc else PBody)"

definition initial_phase :: "TScopedOpState \<Rightarrow> uvenv \<Rightarrow> bool \<Rightarrow> scope_phase" where
  "initial_phase op env throws =
     (let e = socket_try_error (ScKind op) env (ScLoop op) (ScSocket op)
      in if e \<noteq> EErrc 0 then PDone (SetError e) NeverOpened
         else if throws then PDone exc LeftOpen else PWait)"

text \<open>What holds in each phase; \<open>pre\<close>: the socket is open while the operation waits.\<close>

fun in_scope :: "bool \<Rightarrow> scope_phase \<Rightarrow> TScopedOpState \<Rightarrow> bool" where
  "in_scope pre PWait op \<longleftrightarrow> Alt op = InAlt \<and> BodyResult op = None \<and> \<not> FinClosed op \<and>
     running (InOp op) (trace op) \<and> \<not> running (BodyOp op) (trace op) \<and>
     inited (ScSocket op) (trace op) = pre \<and> \<not> closing (ScSocket op) (trace op) \<and>
     closes (ScSocket op) (trace op) = 0 \<and> completions (trace op) = []"
| "in_scope pre PBody op \<longleftrightarrow> Alt op = BodyAlt \<and> BodyResult op = None \<and> \<not> FinClosed op \<and>
     \<not> running (InOp op) (trace op) \<and> running (BodyOp op) (trace op) \<and>
     inited (ScSocket op) (trace op) \<and> \<not> closing (ScSocket op) (trace op) \<and>
     closes (ScSocket op) (trace op) = 0 \<and> completions (trace op) = []"
| "in_scope pre (PFin c) op \<longleftrightarrow> Alt op = BodyAlt \<and> BodyResult op = Some c \<and> \<not> FinClosed op \<and>
     \<not> running (InOp op) (trace op) \<and> \<not> running (BodyOp op) (trace op) \<and>
     inited (ScSocket op) (trace op) \<and> closing (ScSocket op) (trace op) \<and>
     closes (ScSocket op) (trace op) = 1 \<and> completions (trace op) = []"
| "in_scope pre (PFinClosed c) op \<longleftrightarrow> BodyResult op = Some c \<and> FinClosed op \<and>
     \<not> running (InOp op) (trace op) \<and> \<not> running (BodyOp op) (trace op) \<and>
     \<not> inited (ScSocket op) (trace op) \<and> \<not> closing (ScSocket op) (trace op) \<and>
     closes (ScSocket op) (trace op) = 1 \<and> completions (trace op) = []"
| "in_scope pre (PClosing c) op \<longleftrightarrow> Alt op = CloseAlt c \<and> \<not> FinClosed op \<and>
     \<not> running (InOp op) (trace op) \<and> \<not> running (BodyOp op) (trace op) \<and>
     inited (ScSocket op) (trace op) \<and> closing (ScSocket op) (trace op) \<and>
     closes (ScSocket op) (trace op) = 1 \<and> completions (trace op) = []"
| "in_scope pre (PDone c fate) op \<longleftrightarrow>
     \<not> running (InOp op) (trace op) \<and> \<not> running (BodyOp op) (trace op) \<and>
     inited (ScSocket op) (trace op) = (fate = LeftOpen) \<and> \<not> closing (ScSocket op) (trace op) \<and>
     closes (ScSocket op) (trace op) = (if fate = ClosedOnce then 1 else 0) \<and>
     completions (trace op) = [c]"

text \<open>
  What the client sees, the number of times the socket has been closed, and when the operation stands still: some event is
  possible until the client has heard.
\<close>

definition closed_times :: "scope_phase \<Rightarrow> nat" where
  "closed_times p =
     (case p of PWait \<Rightarrow> 0 | PBody \<Rightarrow> 0 | PDone c fate \<Rightarrow> if fate = ClosedOnce then 1 else 0 | _ \<Rightarrow> 1)"

definition scope_outcome :: "scope_phase \<Rightarrow> ptr \<Rightarrow> TScopedOpState \<Rightarrow> bool" where
  "scope_outcome p h op \<longleftrightarrow>
     completions (trace op) = (case p of PDone c fate \<Rightarrow> [c] | _ \<Rightarrow> []) \<and>
     closes h (trace op) = closed_times p \<and>
     (case p of PDone c fate \<Rightarrow> \<not> closing h (trace op) \<and> inited h (trace op) = (fate = LeftOpen) | _ \<Rightarrow> True) \<and>
     (completions (trace op) = [] \<longleftrightarrow> (\<exists>e. scope_enabled e op))"

lemma in_scope_goes_on:
  "in_scope pre p op \<Longrightarrow> completions (trace op) = [] \<longleftrightarrow> (\<exists>e. scope_enabled e op)"
proof (cases p)
  case PWait
  assume "in_scope pre p op"
  with PWait have "scope_enabled (InOther SetStopped) op" "completions (trace op) = []" by simp_all
  then show ?thesis by blast
next
  case PBody
  assume "in_scope pre p op"
  with PBody have "scope_enabled (BodyDone SetStopped) op" "completions (trace op) = []" by simp_all
  then show ?thesis by blast
next
  case (PFin c)
  assume "in_scope pre p op"
  with PFin have "scope_enabled SocketClosed op" "completions (trace op) = []" by simp_all
  then show ?thesis by blast
next
  case (PFinClosed c)
  assume "in_scope pre p op"
  with PFinClosed have "scope_enabled (FinallyDone c) op" "completions (trace op) = []" by simp_all
  then show ?thesis by blast
next
  case (PClosing c)
  assume "in_scope pre p op"
  with PClosing have "scope_enabled SocketClosed op" "completions (trace op) = []" by simp_all
  then show ?thesis by blast
next
  case (PDone c fate)
  assume i: "in_scope pre p op"
  have "\<not> scope_enabled e op" for e using i PDone by (cases e) simp_all
  with i PDone show ?thesis by auto
qed

lemma in_scope_outcome: "in_scope pre p op \<Longrightarrow> scope_outcome p (ScSocket op) op"
  using in_scope_goes_on [of pre p op]
  by (cases p) (simp_all add: scope_outcome_def closed_times_def)

text \<open>
  What an event decides: the socket is made, it is bound, the sender before has completed, whether the construction of the body
  throws.
\<close>

fun socket_opens :: "TScopedOpState \<Rightarrow> scope_event \<Rightarrow> bool" where
  "socket_opens op (InValue env throws ep) \<longleftrightarrow>
     socket_try_error (ScKind op) env (ScLoop op) (ScSocket op) = EErrc 0"
| "socket_opens op e \<longleftrightarrow> False"

fun socket_bound :: "TScopedOpState \<Rightarrow> scope_event \<Rightarrow> bool" where
  "socket_bound op (InValue env throws ep) \<longleftrightarrow>
     socket_try_error (ScKind op) env (ScLoop op) (ScSocket op) = EErrc 0 \<and>
     socket_bind_error (ScKind op) env (ScSocket op) ep = EErrc 0"
| "socket_bound op e \<longleftrightarrow> False"

fun in_value :: "scope_event \<Rightarrow> bool" where
  "in_value (InValue env throws ep) \<longleftrightarrow> True"
| "in_value e \<longleftrightarrow> False"

fun in_other :: "scope_event \<Rightarrow> bool" where
  "in_other (InOther c) \<longleftrightarrow> True"
| "in_other e \<longleftrightarrow> False"

fun body_throws :: "scope_event \<Rightarrow> bool" where
  "body_throws (InValue env throws ep) \<longleftrightarrow> throws"
| "body_throws e \<longleftrightarrow> False"

lemma list_ex_InValue:
  assumes "\<And>e. P e \<longleftrightarrow> (\<exists>env throws ep. e = InValue env throws ep \<and> Q env throws ep)"
  shows "list_ex P es \<longleftrightarrow> (\<exists>env throws ep. InValue env throws ep \<in> set es \<and> Q env throws ep)"
  unfolding list_ex_iff assms by blast

text \<open>The events of a run, read as conditions on its list.\<close>

lemma list_ex_events:
  "list_ex (socket_opens op) es \<longleftrightarrow> (\<exists>env throws ep. InValue env throws ep \<in> set es \<and>
     socket_try_error (ScKind op) env (ScLoop op) (ScSocket op) = EErrc 0)"
  "list_ex (\<lambda>e. socket_bound op e \<and> \<not> body_throws e) es \<longleftrightarrow> (\<exists>env ep. InValue env False ep \<in> set es \<and>
     socket_try_error (ScKind op) env (ScLoop op) (ScSocket op) = EErrc 0 \<and>
     socket_bind_error (ScKind op) env (ScSocket op) ep = EErrc 0)"
  "list_ex (\<lambda>e. socket_bound op e \<and> body_throws e) es \<longleftrightarrow> (\<exists>env ep. InValue env True ep \<in> set es \<and>
     socket_try_error (ScKind op) env (ScLoop op) (ScSocket op) = EErrc 0 \<and>
     socket_bind_error (ScKind op) env (ScSocket op) ep = EErrc 0)"
  "list_ex in_value es \<longleftrightarrow> (\<exists>env throws ep. InValue env throws ep \<in> set es)"
  "list_ex (\<lambda>e. in_value e \<and> \<not> body_throws e) es \<longleftrightarrow> (\<exists>env ep. InValue env False ep \<in> set es)"
  "list_ex (\<lambda>e. in_value e \<or> in_other e) es \<longleftrightarrow>
     (\<exists>env throws ep. InValue env throws ep \<in> set es) \<or> (\<exists>c. InOther c \<in> set es)"
proof -
  have e: "socket_opens op e \<longleftrightarrow> (\<exists>env throws ep. e = InValue env throws ep \<and>
       socket_try_error (ScKind op) env (ScLoop op) (ScSocket op) = EErrc 0)"
    "socket_bound op e \<and> \<not> body_throws e \<longleftrightarrow> (\<exists>env throws ep. e = InValue env throws ep \<and> \<not> throws \<and>
       socket_try_error (ScKind op) env (ScLoop op) (ScSocket op) = EErrc 0 \<and>
       socket_bind_error (ScKind op) env (ScSocket op) ep = EErrc 0)"
    "socket_bound op e \<and> body_throws e \<longleftrightarrow> (\<exists>env throws ep. e = InValue env throws ep \<and> throws \<and>
       socket_try_error (ScKind op) env (ScLoop op) (ScSocket op) = EErrc 0 \<and>
       socket_bind_error (ScKind op) env (ScSocket op) ep = EErrc 0)"
    "in_value e \<longleftrightarrow> (\<exists>env throws ep. e = InValue env throws ep \<and> True)"
    "in_value e \<and> \<not> body_throws e \<longleftrightarrow> (\<exists>env throws ep. e = InValue env throws ep \<and> \<not> throws)"
    "in_other e \<longleftrightarrow> (\<exists>c. e = InOther c)" for e
    by (cases e; auto; fail)+
  have o: "list_ex in_other es \<longleftrightarrow> (\<exists>c. InOther c \<in> set es)" unfolding list_ex_iff e(6) by blast
  have d: "list_ex (\<lambda>e. in_value e \<or> in_other e) es \<longleftrightarrow> list_ex in_value es \<or> list_ex in_other es"
    by (auto simp: list_ex_iff)
  note l = list_ex_InValue [OF e(1), of es] list_ex_InValue [OF e(2), of es]
    list_ex_InValue [OF e(3), of es] list_ex_InValue [OF e(4), of es] list_ex_InValue [OF e(5), of es]
  show "list_ex (socket_opens op) es \<longleftrightarrow> (\<exists>env throws ep. InValue env throws ep \<in> set es \<and>
     socket_try_error (ScKind op) env (ScLoop op) (ScSocket op) = EErrc 0)" by (rule l(1))
  show "list_ex (\<lambda>e. socket_bound op e \<and> \<not> body_throws e) es \<longleftrightarrow> (\<exists>env ep. InValue env False ep \<in> set es \<and>
     socket_try_error (ScKind op) env (ScLoop op) (ScSocket op) = EErrc 0 \<and>
     socket_bind_error (ScKind op) env (ScSocket op) ep = EErrc 0)" unfolding l(2) by (simp add: ex_bool_eq)
  show "list_ex (\<lambda>e. socket_bound op e \<and> body_throws e) es \<longleftrightarrow> (\<exists>env ep. InValue env True ep \<in> set es \<and>
     socket_try_error (ScKind op) env (ScLoop op) (ScSocket op) = EErrc 0 \<and>
     socket_bind_error (ScKind op) env (ScSocket op) ep = EErrc 0)" unfolding l(3) by (simp add: ex_bool_eq)
  show v: "list_ex in_value es \<longleftrightarrow> (\<exists>env throws ep. InValue env throws ep \<in> set es)"
    unfolding l(4) by simp
  show "list_ex (\<lambda>e. in_value e \<and> \<not> body_throws e) es \<longleftrightarrow> (\<exists>env ep. InValue env False ep \<in> set es)"
    unfolding l(5) by (simp add: ex_bool_eq)
  show "list_ex (\<lambda>e. in_value e \<or> in_other e) es \<longleftrightarrow>
     (\<exists>env throws ep. InValue env throws ep \<in> set es) \<or> (\<exists>c. InOther c \<in> set es)"
    unfolding d o v by (rule refl)
qed

definition left_open :: "scope_phase \<Rightarrow> bool" where
  "left_open p \<longleftrightarrow> (case p of PDone c LeftOpen \<Rightarrow> True | _ \<Rightarrow> False)"

definition body_started :: "TScopedOpState \<Rightarrow> bool" where
  "body_started op \<longleftrightarrow> Started (BodyOp op) \<in> set (trace op)"

text \<open>
  The interface. \<open>react\<close> and \<open>other\<close>: what the completion of the preceding operation leads to. \<open>begins\<close>, \<open>leaks\<close> and
  \<open>dangles\<close>: the events that start the body, that leave the socket open for good, and that read a receiver after
  the operation which holds it has been destroyed.
\<close>

locale scoped_op =
  fixes step :: "scope_event \<Rightarrow> TScopedOpState \<Rightarrow> TScopedOpState"
    and pre :: bool
    and react :: "TScopedOpState \<Rightarrow> uvenv \<Rightarrow> bool \<Rightarrow> sockaddr \<Rightarrow> scope_phase"
    and other :: "completion \<Rightarrow> scope_phase"
    and begins leaks dangles :: "TScopedOpState \<Rightarrow> scope_event \<Rightarrow> bool"
  assumes phase_step:
      "in_scope pre p op \<Longrightarrow> InOp op \<noteq> BodyOp op \<Longrightarrow> scope_enabled e op \<Longrightarrow>
       in_scope pre (scope_spec (react op) other e p) (step e op)"
    and body_step:
      "in_scope pre p op \<Longrightarrow> InOp op \<noteq> BodyOp op \<Longrightarrow> scope_enabled e op \<Longrightarrow>
       body_started (step e op) \<longleftrightarrow> body_started op \<or> begins op e"
    and leak_step:
      "in_scope pre p op \<Longrightarrow> scope_enabled e op \<Longrightarrow>
       left_open (scope_spec (react op) other e p) \<longleftrightarrow> left_open p \<or> leaks op e"
    and dangle_step:
      "in_scope pre p op \<Longrightarrow> scope_enabled e op \<Longrightarrow>
       undefined_in (trace (step e op)) \<longleftrightarrow> undefined_in (trace op) \<or> dangles op e"
    and step_const: "react (step e op) = react op" "InOp (step e op) = InOp op"
      "BodyOp (step e op) = BodyOp op" "ScSocket (step e op) = ScSocket op"
      "begins (step e op) = begins op" "leaks (step e op) = leaks op"
      "dangles (step e op) = dangles op"
begin

lemma run_phase:
  "in_scope pre p op \<Longrightarrow> InOp op \<noteq> BodyOp op \<Longrightarrow> admissible scope_enabled step op es \<Longrightarrow>
   in_scope pre (fold (scope_spec (react op) other) es p) (fold step es op)"
proof (induction es arbitrary: op p)
  case (Cons e es)
  have "in_scope pre (scope_spec (react op) other e p) (step e op)"
    using phase_step Cons.prems by simp
  then show ?case using Cons.IH [of _ "step e op"] Cons.prems by (simp add: step_const)
qed simp

lemma run_flags:
  "in_scope pre p op \<Longrightarrow> InOp op \<noteq> BodyOp op \<Longrightarrow> admissible scope_enabled step op es \<Longrightarrow>
   (body_started (fold step es op) \<longleftrightarrow> body_started op \<or> list_ex (begins op) es) \<and>
   (left_open (fold (scope_spec (react op) other) es p) \<longleftrightarrow> left_open p \<or> list_ex (leaks op) es) \<and>
   (undefined_in (trace (fold step es op)) \<longleftrightarrow> undefined_in (trace op) \<or> list_ex (dangles op) es)"
proof (induction es arbitrary: op p)
  case (Cons e es)
  have "in_scope pre (scope_spec (react op) other e p) (step e op)"
    using phase_step Cons.prems by simp
  then show ?case
    using Cons.IH [of _ "step e op"] Cons.prems body_step [of p op e] leak_step [of p op e]
      dangle_step [of p op e] by (simp add: step_const)
qed simp

lemma run_socket: "ScSocket (fold step es op) = ScSocket op"
  by (induction es arbitrary: op) (simp_all add: step_const)

lemma run_body: "BodyOp (fold step es op) = BodyOp op"
  by (induction es arbitrary: op) (simp_all add: step_const)

lemma run_outcome:
  assumes "in_scope pre p op" "InOp op \<noteq> BodyOp op" "admissible scope_enabled step op es"
  shows "scope_outcome (fold (scope_spec (react op) other) es p) (ScSocket op) (fold step es op)"
  using in_scope_outcome [OF run_phase [OF assms]] by (simp add: run_socket)

end

lemmas bind_defs = TBindToReceiver_set_value_def TBindToOpState_EmplaceAndStartBody_def
  TBindErrReceiver_set_value_def
lemmas connect_to_defs = TConnectToReceiver_set_value_def TConnectToOpState_EmplaceAndStartBody_def
  TConnectToOpState_EmplaceAndStartClose_def TConnectToReceiver_set_other_def
  TConnectErrorReceiver_set_value_def
lemmas accept_from_defs = TAcceptFromReceiver_set_value_def
  TAcceptFromOpState_EmplaceAndStartBody_def TAcceptFromOpState_EmplaceAndStartClose_def
  TAcceptFromReceiver_set_other_def TAcceptErrorReceiver_set_value_def
lemmas scope_defs = start_body_def start_close_def emplace_def read_receiver_def body_done_def
  socket_closed_def bind_react_def open_react_def handler_defs

lemma socket_calls_more:
  "ScLoop (snd (socket_try k env l h op)) = ScLoop op" "ScKind (snd (socket_try k env l h op)) = ScKind op"
  "ScSocket (snd (socket_try k env l h op)) = ScSocket op" "InOp (snd (socket_try k env l h op)) = InOp op"
  "BodyOp (snd (socket_try k env l h op)) = BodyOp op" "Alt (snd (socket_try k env l h op)) = Alt op"
  "BodyResult (snd (socket_try k env l h op)) = BodyResult op"
  "FinClosed (snd (socket_try k env l h op)) = FinClosed op"
  "ScLoop (snd (socket_bind k env h ep op)) = ScLoop op" "ScKind (snd (socket_bind k env h ep op)) = ScKind op"
  "ScSocket (snd (socket_bind k env h ep op)) = ScSocket op" "InOp (snd (socket_bind k env h ep op)) = InOp op"
  "BodyOp (snd (socket_bind k env h ep op)) = BodyOp op" "Alt (snd (socket_bind k env h ep op)) = Alt op"
  "BodyResult (snd (socket_bind k env h ep op)) = BodyResult op"
  "FinClosed (snd (socket_bind k env h ep op)) = FinClosed op"
  by (simp_all add: socket_defs split: if_splits)

lemma socket_calls_start [simp]:
  "Started b \<in> set (trace (snd (socket_try k env l h op))) \<longleftrightarrow> Started b \<in> set (trace op)"
  "Started b \<in> set (trace (snd (socket_bind k env h ep op))) \<longleftrightarrow> Started b \<in> set (trace op)"
  by (auto simp: socket_defs split: if_splits)

lemma event_flags_cong:
  assumes "ScKind op' = ScKind op" "ScLoop op' = ScLoop op" "ScSocket op' = ScSocket op"
  shows "socket_opens op' = socket_opens op" "socket_bound op' = socket_bound op"
proof -
  have "socket_opens op' e = socket_opens op e" "socket_bound op' e = socket_bound op e" for e
    using assms by (cases e; simp)+
  then show "socket_opens op' = socket_opens op" "socket_bound op' = socket_bound op" by auto
qed

lemma bind_to_const:
  "ScKind (TBindToOpState_step e op) = ScKind op" "ScLoop (TBindToOpState_step e op) = ScLoop op"
  "ScSocket (TBindToOpState_step e op) = ScSocket op"
  by (cases e; simp add: bind_defs scope_defs socket_calls_more split_beta split: scope_alt.splits)+

interpretation bind_to: scoped_op TBindToOpState_step False bind_react "\<lambda>c. PDone c NeverOpened"
  "\<lambda>op e. socket_bound op e \<and> \<not> body_throws e"
  "\<lambda>op e. socket_bound op e \<and> body_throws e"
  "socket_opens"
proof
  fix p op and e :: scope_event
  assume i: "in_scope False p op" "scope_enabled e op"
  show "in_scope False (scope_spec (bind_react op) (\<lambda>c. PDone c NeverOpened) e p) (TBindToOpState_step e op)"
    if "InOp op \<noteq> BodyOp op"
    using i that by (cases e; cases p) (simp_all add: bind_defs scope_defs socket_calls_more split_beta split: if_splits)
  show "body_started (TBindToOpState_step e op) \<longleftrightarrow> body_started op \<or> (\<lambda>op e. socket_bound op e \<and> \<not> body_throws e) op e"
    if "InOp op \<noteq> BodyOp op"
    using i that by (cases e; cases p)
      (auto simp: body_started_def bind_defs scope_defs socket_calls_more split_beta split: if_splits)
  show "left_open (scope_spec (bind_react op) (\<lambda>c. PDone c NeverOpened) e p) \<longleftrightarrow> left_open p \<or> (\<lambda>op e. socket_bound op e \<and> body_throws e) op e"
    using i by (cases e; cases p) (auto simp: left_open_def bind_react_def Let_def split: if_splits)
  show "undefined_in (trace (TBindToOpState_step e op)) \<longleftrightarrow> undefined_in (trace op) \<or> (socket_opens) op e"
    using i by (cases e; cases p) (auto simp: bind_defs scope_defs socket_calls_more split_beta split: if_splits)
next
  fix op and e :: scope_event
  show "bind_react (TBindToOpState_step e op) = bind_react op"
    "InOp (TBindToOpState_step e op) = InOp op" "BodyOp (TBindToOpState_step e op) = BodyOp op"
    "ScSocket (TBindToOpState_step e op) = ScSocket op"
    by (cases e; simp add: bind_defs scope_defs socket_calls_more split_beta fun_eq_iff
        split: scope_alt.splits)+
qed (simp_all add: event_flags_cong [OF bind_to_const] fun_eq_iff)

interpretation connect_to: scoped_op TConnectToOpState_step True open_react "PClosing"
  "\<lambda>op e. in_value e \<and> \<not> body_throws e"
  "\<lambda>op e. False"
  "\<lambda>op e. in_value e"
proof
  fix p op and e :: scope_event
  assume i: "in_scope True p op" "scope_enabled e op"
  show "in_scope True (scope_spec (open_react op) (PClosing) e p) (TConnectToOpState_step e op)"
    if "InOp op \<noteq> BodyOp op"
    using i that by (cases e; cases p) (simp_all add: connect_to_defs scope_defs split: if_splits)
  show "body_started (TConnectToOpState_step e op) \<longleftrightarrow> body_started op \<or> (\<lambda>op e. in_value e \<and> \<not> body_throws e) op e"
    if "InOp op \<noteq> BodyOp op"
    using i that by (cases e; cases p)
      (auto simp: body_started_def connect_to_defs scope_defs split: if_splits)
  show "left_open (scope_spec (open_react op) (PClosing) e p) \<longleftrightarrow> left_open p \<or> (\<lambda>op e. False) op e"
    using i by (cases e; cases p) (auto simp: left_open_def open_react_def Let_def split: if_splits)
  show "undefined_in (trace (TConnectToOpState_step e op)) \<longleftrightarrow> undefined_in (trace op) \<or> (\<lambda>op e. in_value e) op e"
    using i by (cases e; cases p) (auto simp: connect_to_defs scope_defs split: if_splits)
next
  fix op and e :: scope_event
  show "open_react (TConnectToOpState_step e op) = open_react op"
    "InOp (TConnectToOpState_step e op) = InOp op" "BodyOp (TConnectToOpState_step e op) = BodyOp op"
    "ScSocket (TConnectToOpState_step e op) = ScSocket op"
    by (cases e; simp add: connect_to_defs scope_defs fun_eq_iff
        split: scope_alt.splits)+
qed simp_all

interpretation accept_from: scoped_op TAcceptFromOpState_step True open_react "PClosing"
  "\<lambda>op e. in_value e \<and> \<not> body_throws e"
  "\<lambda>op e. False"
  "\<lambda>op e. in_value e \<or> in_other e"
proof
  fix p op and e :: scope_event
  assume i: "in_scope True p op" "scope_enabled e op"
  show "in_scope True (scope_spec (open_react op) (PClosing) e p) (TAcceptFromOpState_step e op)"
    if "InOp op \<noteq> BodyOp op"
    using i that by (cases e; cases p) (simp_all add: accept_from_defs scope_defs split: if_splits)
  show "body_started (TAcceptFromOpState_step e op) \<longleftrightarrow> body_started op \<or> (\<lambda>op e. in_value e \<and> \<not> body_throws e) op e"
    if "InOp op \<noteq> BodyOp op"
    using i that by (cases e; cases p)
      (auto simp: body_started_def accept_from_defs scope_defs split: if_splits)
  show "left_open (scope_spec (open_react op) (PClosing) e p) \<longleftrightarrow> left_open p \<or> (\<lambda>op e. False) op e"
    using i by (cases e; cases p) (auto simp: left_open_def open_react_def Let_def split: if_splits)
  show "undefined_in (trace (TAcceptFromOpState_step e op)) \<longleftrightarrow> undefined_in (trace op) \<or> (\<lambda>op e. in_value e \<or> in_other e) op e"
    using i by (cases e; cases p) (auto simp: accept_from_defs scope_defs split: if_splits)
next
  fix op and e :: scope_event
  show "open_react (TAcceptFromOpState_step e op) = open_react op"
    "InOp (TAcceptFromOpState_step e op) = InOp op" "BodyOp (TAcceptFromOpState_step e op) = BodyOp op"
    "ScSocket (TAcceptFromOpState_step e op) = ScSocket op"
    by (cases e; simp add: accept_from_defs scope_defs fun_eq_iff
        split: scope_alt.splits)+
qed simp_all

section \<open>Runs from the start\<close>

lemma bind_to_start:
  "inop \<noteq> body \<Longrightarrow>
   in_scope False PWait (TBindToOpState_start (TBindToOpState_new kind loop socket inop body))"
  by (simp add: TBindToOpState_start_def TBindToOpState_new_def emit_def inited_def closing_def
      running_def)

lemma open_start:
  assumes "inop \<noteq> body" "op0 = TScopedOpState_new kind loop socket inop body"
  shows "in_scope True (initial_phase op0 env throws)
      (TConnectToOpState_EmplaceAndStartInitially env throws op0)"
    "in_scope True (initial_phase op0 env throws)
      (TAcceptFromOpState_EmplaceAndStartInitially env throws op0)"
  using assms
  by (simp_all add: TConnectToOpState_EmplaceAndStartInitially_def
      TAcceptFromOpState_EmplaceAndStartInitially_def initial_phase_def TScopedOpState_new_def
      split_beta scope_defs socket_calls_more)

lemma start_addresses:
  assumes "op0 = TScopedOpState_new kind loop socket inop body"
  shows "InOp (TConnectToOpState_EmplaceAndStartInitially env throws op0) = inop"
    "BodyOp (TConnectToOpState_EmplaceAndStartInitially env throws op0) = body"
    "ScSocket (TConnectToOpState_EmplaceAndStartInitially env throws op0) = socket"
    "InOp (TAcceptFromOpState_EmplaceAndStartInitially env throws op0) = inop"
    "BodyOp (TAcceptFromOpState_EmplaceAndStartInitially env throws op0) = body"
    "ScSocket (TAcceptFromOpState_EmplaceAndStartInitially env throws op0) = socket"
  using assms
  by (simp_all add: TConnectToOpState_EmplaceAndStartInitially_def
      TAcceptFromOpState_EmplaceAndStartInitially_def TScopedOpState_new_def split_beta scope_defs
      socket_calls_more)

lemma start_flags:
  assumes "op0 = TScopedOpState_new kind loop socket inop body" "inop \<noteq> body"
  shows "\<not> body_started (TConnectToOpState_EmplaceAndStartInitially env throws op0)"
    "\<not> undefined_in (trace (TConnectToOpState_EmplaceAndStartInitially env throws op0))"
    "\<not> body_started (TAcceptFromOpState_EmplaceAndStartInitially env throws op0)"
    "\<not> undefined_in (trace (TAcceptFromOpState_EmplaceAndStartInitially env throws op0))"
  using assms
  by (simp_all add: TConnectToOpState_EmplaceAndStartInitially_def body_started_def
      TAcceptFromOpState_EmplaceAndStartInitially_def TScopedOpState_new_def split_beta scope_defs
      socket_calls_more)

section \<open>Properties\<close>

text \<open>
  C19: \<open>bind_to\<close>, in every run. The client hears at most one completion, and until it has heard one some event is possible; it is the
  one the contract owes (the error of the socket's initialisation, the error of binding it, what the sender before completed with, or
  what the body completed with). Before the completion of the body or of a failed binding is passed on the socket has been closed exactly once; a
  socket that could not be made is not closed. The body is started exactly when the socket has been made and bound and its construction has not
  thrown; when it has thrown the socket is left open for good, and at no other time. The run is undefined exactly when the
  socket was made: \<open>emplace\<close> then destroys the operation holding the receiver before the receiver is
  moved out of it (bind_to_op_state.hpp:108-119), so on such a run the rest holds as far as that read yields
  the receiver all the same.
\<close>

theorem bind_to_outcome:
  assumes "op = TBindToOpState_start (TBindToOpState_new kind loop socket inop body)"
    and "inop \<noteq> body" "admissible scope_enabled TBindToOpState_step op es"
  shows "let p = fold (scope_spec (bind_react op) (\<lambda>c. PDone c NeverOpened)) es PWait;
        s = fold TBindToOpState_step es op
    in scope_outcome p socket s \<and>
       (Started body \<in> set (trace s) \<longleftrightarrow>
          (\<exists>env ep. InValue env False ep \<in> set es \<and> socket_try_error kind env loop socket = EErrc 0 \<and>
             socket_bind_error kind env socket ep = EErrc 0)) \<and>
       (left_open p \<longleftrightarrow>
          (\<exists>env ep. InValue env True ep \<in> set es \<and> socket_try_error kind env loop socket = EErrc 0 \<and>
             socket_bind_error kind env socket ep = EErrc 0)) \<and>
       (undefined_in (trace s) \<longleftrightarrow>
          (\<exists>env throws ep. InValue env throws ep \<in> set es \<and>
             socket_try_error kind env loop socket = EErrc 0))"
proof -
  have i: "in_scope False PWait op" "InOp op \<noteq> BodyOp op" "ScSocket op = socket" "BodyOp op = body"
      "ScKind op = kind" "ScLoop op = loop"
    using bind_to_start [OF assms(2)] assms(1,2)
    by (simp_all add: TBindToOpState_start_def TBindToOpState_new_def emit_def)
  have n: "\<not> body_started op" "\<not> left_open PWait" "\<not> undefined_in (trace op)"
    using assms(1,2) by (simp_all add: TBindToOpState_start_def TBindToOpState_new_def emit_def
        body_started_def left_open_def)
  have b: "BodyOp (fold TBindToOpState_step es op) = body" by (simp add: bind_to.run_body i(4))
  note f = bind_to.run_flags [OF i(1,2) assms(3)]
  show ?thesis
    unfolding Let_def
  proof (intro conjI)
    show "scope_outcome (fold (scope_spec (bind_react op) (\<lambda>c. PDone c NeverOpened)) es PWait) socket
        (fold TBindToOpState_step es op)"
      using bind_to.run_outcome [OF i(1,2) assms(3)] i(3) by simp
  qed (use f n b in \<open>simp_all only: list_ex_events i body_started_def simp_thms\<close>)
qed

theorem bind_to_outcome_witness:
  "scope_outcome (PDone (SetValue []) ClosedOnce) 3
     (fold TBindToOpState_step
       [InValue (\<lambda>_. 0) False \<lparr>sa_family = 2, sa_bytes = []\<rparr>, BodyDone (SetValue []), SocketClosed,
        FinallyDone (SetValue [])]
       (TBindToOpState_start (TBindToOpState_new ScopeListener 1 3 4 5)))"
proof -
  have a: "admissible scope_enabled TBindToOpState_step
      (TBindToOpState_start (TBindToOpState_new ScopeListener 1 3 4 5))
      [InValue (\<lambda>_. 0) False \<lparr>sa_family = 2, sa_bytes = []\<rparr>, BodyDone (SetValue []), SocketClosed,
       FinallyDone (SetValue [])]" by code_simp
  have p: "fold (scope_spec (bind_react (TBindToOpState_start
        (TBindToOpState_new ScopeListener 1 3 4 5))) (\<lambda>c. PDone c NeverOpened))
      [InValue (\<lambda>_. 0) False \<lparr>sa_family = 2, sa_bytes = []\<rparr>, BodyDone (SetValue []), SocketClosed,
       FinallyDone (SetValue [])] PWait = PDone (SetValue []) ClosedOnce" by code_simp
  show ?thesis
    using bind_to_outcome [OF refl _ a] unfolding Let_def p by simp
qed

text \<open>
  C20: \<open>connect_to\<close> and \<open>accept_from\<close>, in every run: at most one completion, the one owed, and some event possible until then. The socket is
  opened first; an error, a stop or an exception of the connection, of accepting or of the body's construction is kept until the
  socket has been closed exactly once, as is what the body completed with. The body is started exactly when the
  connection or the accepting has succeeded and constructing the body has not thrown. The socket is left open exactly when it was made and connecting the sender
  of \<open>connect\<close> or \<open>accept\<close> threw. The run is undefined, for the reason given for \<open>bind_to\<close>, exactly
  when the connection has succeeded, and for \<open>accept_from\<close>, whose closing takes the receiver by reference too, when the
  accepting has completed in any way.
\<close>

theorem connect_to_accept_from_outcome:
  assumes "op0 = TScopedOpState_new kind loop socket inop body" "inop \<noteq> body"
    and "c = TConnectToOpState_EmplaceAndStartInitially env throws op0"
    and "a = TAcceptFromOpState_EmplaceAndStartInitially env throws op0"
    and "admissible scope_enabled TConnectToOpState_step c es"
    and "admissible scope_enabled TAcceptFromOpState_step a es'"
  shows "let p = fold (scope_spec (open_react c) PClosing) es (initial_phase op0 env throws);
        p' = fold (scope_spec (open_react a) PClosing) es' (initial_phase op0 env throws);
        s = fold TConnectToOpState_step es c; s' = fold TAcceptFromOpState_step es' a
    in scope_outcome p socket s \<and> scope_outcome p' socket s' \<and>
       (Started body \<in> set (trace s) \<longleftrightarrow> (\<exists>env ep. InValue env False ep \<in> set es)) \<and>
       (Started body \<in> set (trace s') \<longleftrightarrow> (\<exists>env ep. InValue env False ep \<in> set es')) \<and>
       (left_open p \<longleftrightarrow> throws \<and> socket_try_error kind env loop socket = EErrc 0) \<and>
       (left_open p' \<longleftrightarrow> throws \<and> socket_try_error kind env loop socket = EErrc 0) \<and>
       (undefined_in (trace s) \<longleftrightarrow> (\<exists>env throws ep. InValue env throws ep \<in> set es)) \<and>
       (undefined_in (trace s') \<longleftrightarrow>
          (\<exists>env throws ep. InValue env throws ep \<in> set es') \<or> (\<exists>c. InOther c \<in> set es'))"
proof -
  note o = open_start [OF assms(2,1), of env throws] start_addresses [OF assms(1), of env throws]
    start_flags [OF assms(1,2), of env throws]
  have c: "in_scope True (initial_phase op0 env throws) c" "InOp c \<noteq> BodyOp c" "ScSocket c = socket"
      "BodyOp c = body" "\<not> body_started c" "\<not> undefined_in (trace c)"
    and a: "in_scope True (initial_phase op0 env throws) a" "InOp a \<noteq> BodyOp a" "ScSocket a = socket"
      "BodyOp a = body" "\<not> body_started a" "\<not> undefined_in (trace a)"
    using o assms(2-4) by simp_all
  have l: "left_open (initial_phase op0 env throws) \<longleftrightarrow> throws \<and> socket_try_error kind env loop socket = EErrc 0"
    using assms(1) by (simp add: initial_phase_def left_open_def Let_def TScopedOpState_new_def)
  have b: "BodyOp (fold TConnectToOpState_step es c) = body"
    "BodyOp (fold TAcceptFromOpState_step es' a) = body"
    by (simp_all add: connect_to.run_body accept_from.run_body c(4) a(4))
  note f = connect_to.run_flags [OF c(1,2) assms(5)] accept_from.run_flags [OF a(1,2) assms(6)]
  note g = connect_to.run_outcome [OF c(1,2) assms(5)] accept_from.run_outcome [OF a(1,2) assms(6)]
  have "list_ex (\<lambda>e. False) es = False" "list_ex (\<lambda>e. False) es' = False" by (simp_all add: list_ex_iff)
  with f g b l c(3,5,6) a(3,5,6) show ?thesis
    unfolding Let_def by (simp only: list_ex_events body_started_def simp_thms)
qed

definition sample_scope :: TScopedOpState where
  "sample_scope = TScopedOpState_new ScopeTcp 1 3 4 5"

definition scope_events :: "scope_event list" where
  "scope_events = [InValue (\<lambda>_. 0) False \<lparr>sa_family = 2, sa_bytes = []\<rparr>, BodyDone (SetValue []), SocketClosed,
     FinallyDone (SetValue [])]"

theorem connect_to_accept_from_outcome_witness:
  "scope_outcome (PDone SetStopped ClosedOnce) 3
     (fold TConnectToOpState_step [InOther SetStopped, SocketClosed]
       (TConnectToOpState_EmplaceAndStartInitially (\<lambda>_. 0) False sample_scope)) \<and>
   scope_outcome (PDone (SetValue []) ClosedOnce) 3
     (fold TAcceptFromOpState_step scope_events
       (TAcceptFromOpState_EmplaceAndStartInitially (\<lambda>_. 0) False sample_scope))"
proof -
  have a: "admissible scope_enabled TAcceptFromOpState_step
      (TAcceptFromOpState_EmplaceAndStartInitially (\<lambda>_. 0) False sample_scope) scope_events"
    by code_simp
  have c: "admissible scope_enabled TConnectToOpState_step
      (TConnectToOpState_EmplaceAndStartInitially (\<lambda>_. 0) False sample_scope)
      [InOther SetStopped, SocketClosed]"
    by (simp add: sample_scope_def TScopedOpState_new_def
        TConnectToOpState_EmplaceAndStartInitially_def split_beta scope_defs socket_calls_more
        connect_to_defs socket_try_error_def)
  have p: "fold (scope_spec (open_react (TConnectToOpState_EmplaceAndStartInitially (\<lambda>_. 0) False
      sample_scope)) PClosing) [InOther SetStopped, SocketClosed]
      (initial_phase sample_scope (\<lambda>_. 0) False) = PDone SetStopped ClosedOnce" by code_simp
  have p': "fold (scope_spec (open_react (TAcceptFromOpState_EmplaceAndStartInitially (\<lambda>_. 0) False
      sample_scope)) PClosing) scope_events
      (initial_phase sample_scope (\<lambda>_. 0) False) = PDone (SetValue []) ClosedOnce" by code_simp
  show ?thesis
    using connect_to_accept_from_outcome [OF sample_scope_def _ refl refl c a] unfolding Let_def p p'
    by simp
qed

text \<open>
  what exceptions and the variant do. (1) When the construction of \<open>bind_to\<close>'s body throws, and (2) when connecting the
  sender inside \<open>connect_to\<close> or \<open>accept_from\<close> throws, the client gets the exception and the socket stays open. (3) \<open>bind_to\<close> and
  \<open>accept_from\<close> always move the receiver out of the alternative that \<open>emplace\<close> has just destroyed, and so does \<open>connect_to\<close>
  on the way to its body.
\<close>

theorem scoped_sockets_leak_and_dangle:
  "(let s = fold TBindToOpState_step [InValue (\<lambda>_. 0) True \<lparr>sa_family = 2, sa_bytes = []\<rparr>]
        (TBindToOpState_start (TBindToOpState_new ScopeUdp 1 3 4 5))
    in completions (trace s) = [exc] \<and> inited 3 (trace s) \<and> closes 3 (trace s) = 0) \<and>
   (let s = TConnectToOpState_EmplaceAndStartInitially (\<lambda>_. 0) True sample_scope
    in completions (trace s) = [exc] \<and> inited 3 (trace s) \<and> closes 3 (trace s) = 0) \<and>
   undefined_in (trace (fold TBindToOpState_step
     [InValue (\<lambda>_. 0) False \<lparr>sa_family = 2, sa_bytes = []\<rparr>]
     (TBindToOpState_start (TBindToOpState_new ScopeUdp 1 3 4 5)))) \<and>
   undefined_in (trace (fold TAcceptFromOpState_step [InOther SetStopped]
     (TAcceptFromOpState_EmplaceAndStartInitially (\<lambda>_. 0) False sample_scope))) \<and>
   undefined_in (trace (fold TConnectToOpState_step
     [InValue (\<lambda>_. 0) False \<lparr>sa_family = 2, sa_bytes = []\<rparr>]
     (TConnectToOpState_EmplaceAndStartInitially (\<lambda>_. 0) False sample_scope))) \<and>
   \<not> undefined_in (trace (fold TConnectToOpState_step [InOther SetStopped]
     (TConnectToOpState_EmplaceAndStartInitially (\<lambda>_. 0) False sample_scope)))"
  by (intro conjI) code_simp+

end
