(* ===== verification/Signatures.thy ===== *)
theory Signatures
  imports Senders Read_Ops Receive_Ops Signal_Ops Request_Ops Scoped_Ops Scheduling
begin

text \<open>
  The completion signatures the senders declare (Sender_Classes) against the completions their operations send.
  \<open>mk_documented\<close> is what \<open>stdexec::make_completion_signatures\<close>, which is foreign, is documented to do: the added signatures, what each
  value signature becomes, and the errors and stopped signatures of the child.
\<close>

section \<open>Signatures\<close>

fun sig_of :: "completion \<Rightarrow> sig" where
  "sig_of (SetValue vs) = SigValue (map (\<lambda>_. SizeT) vs)"
| "sig_of (SetError e) = SigError ErrcT"
| "sig_of (SetException x) = SigError ExceptionPtrT"
| "sig_of SetStopped = SigStopped"

definition mk_documented :: "make_sigs \<Rightarrow> bool" where
  "mk_documented mk \<longleftrightarrow> (\<forall>sigs extra f x. x \<in> set (mk sigs extra f) \<longleftrightarrow>
     x \<in> set extra \<or> (\<exists>vs. SigValue vs \<in> set sigs \<and> x \<in> set (f vs)) \<or>
     (x \<in> set sigs \<and> (\<forall>vs. x \<noteq> SigValue vs)))"

section \<open>Declared and sent\<close>

text \<open>The completions a step of an operation sends are among \<open>sigs\<close>.\<close>

definition covers :: "sig list \<Rightarrow> effect list \<Rightarrow> effect list \<Rightarrow> bool" where
  "covers sigs tr tr' \<longleftrightarrow>
     (\<exists>cs. completions tr' = completions tr @ cs \<and> sig_of ` set cs \<subseteq> set sigs)"

lemma covers_same [simp]: "covers sigs tr tr"
  by (simp add: covers_def)

lemma covers_snoc [simp]:
  "covers sigs tr (tr @ es) \<longleftrightarrow> sig_of ` set (completions es) \<subseteq> set sigs"
  by (auto simp: covers_def)

lemma covers_mono: "covers sigs tr tr' \<Longrightarrow> set sigs \<subseteq> set sigs' \<Longrightarrow> covers sigs' tr tr'"
  unfolding covers_def by blast

definition mk_sample :: make_sigs where
  "mk_sample sigs extra f =
     extra @ concat (map (\<lambda>x. case x of SigValue vs \<Rightarrow> f vs | _ \<Rightarrow> [x]) sigs)"

lemma mk_sample_documented: "mk_documented mk_sample"
  unfolding mk_documented_def mk_sample_def
  by (auto split: sig.splits) (metis sig.exhaust)+

definition sample_sig_env :: sig_env where
  "sample_sig_env = \<lparr>Make = mk_sample, ForeignSigs = (\<lambda>_. []), FnSigs = (\<lambda>_. [])\<rparr>"

lemma sample_sig_env_documented: "mk_documented (Make sample_sig_env)"
  by (simp add: sample_sig_env_def mk_sample_documented)

lemma mk_members:
  assumes "mk_documented (Make p)" "SigValue vs \<in> set sigs"
  shows "x \<in> set extra \<Longrightarrow> x \<in> set (Make p sigs extra f)" "x \<in> set (f vs) \<Longrightarrow> x \<in> set (Make p sigs extra f)"
  using assms unfolding mk_documented_def by blast+

text \<open>A length or an error or stopped; a void value or an error.\<close>

abbreviation length_sigs :: "sig list" where
  "length_sigs \<equiv> [SigValue [SizeT], SigError ErrcT, SigStopped]"

abbreviation request_sigs :: "sig list" where
  "request_sigs \<equiv> [SigValue [], SigError ErrcT]"

lemma reading_covers:
  "covers length_sigs (trace rs) (trace (TReadSomeOpState_step P e1 rs))"
  "covers length_sigs (trace ru) (trace (TReadUntilOpState_step P e2 ru))"
  "covers length_sigs (trace rc) (trace (TReceiveOpState_step e3 rc))"
  "covers length_sigs (trace rf) (trace (TReceiveFromOpState_step P e4 rf))"
  subgoal by (cases e1) (simp_all add: handler_defs read_some_defs)
  subgoal by (cases e2) (simp_all add: handler_defs read_until_defs split_beta)
  subgoal by (cases e3) (auto simp: handler_defs receive_defs split_beta)
  subgoal by (cases e4) (auto simp: handler_defs receive_from_defs split_beta split: option.split)
  done

lemma timer_signal_covers:
  "covers TScheduleEventuallyCompletionSignatures (trace a) (trace (TAfterScheduleOpState_step e1 a))"
  "covers TScheduleEventuallyCompletionSignatures (trace b) (trace (TAfterOpState_step e1 b))"
  "covers TScheduleEventuallyCompletionSignatures (trace c) (trace (TUponSignalScheduleOpState_step e2 c))"
  "covers TScheduleEventuallyCompletionSignatures (trace d) (trace (TUponSignalOpState_step e2 d))"
  subgoal by (cases e1) (simp_all add: handler_defs after_schedule_defs sig_defs)
  subgoal by (cases e1) (simp_all add: handler_defs after_defs sig_defs)
  subgoal by (cases e2) (simp_all add: handler_defs upon_signal_schedule_defs sig_defs)
  subgoal by (cases e2) (simp_all add: handler_defs upon_signal_defs sig_defs)
  done

lemma request_covers:
  "covers request_sigs (trace w) (trace (TWriteReceiver_step e1 w))"
  "covers request_sigs (trace w) (trace (TSendReceiver_step e1 w))"
  "covers request_sigs (trace w) (trace (TSendToReceiver_step e2 w))"
  "covers request_sigs (trace r) (trace (TShutdownReceiver_step e3 r))"
  "covers request_sigs (trace k) (trace (TConnectReceiver_step e4 k))"
  "covers [SigValue []] (trace r) (trace (TCloseReceiver_step e3 r))"
  subgoal by (induction e1 w rule: TWriteReceiver_step.induct) (simp_all add: handler_defs write_defs)
  subgoal by (induction e1 w rule: TSendReceiver_step.induct) (simp_all add: handler_defs send_defs)
  subgoal by (induction e2 w rule: TSendToReceiver_step.induct) (simp_all add: handler_defs send_to_defs)
  subgoal by (cases e3) (simp_all add: handler_defs shutdown_defs)
  subgoal by (cases e4; cases "Kind k") (simp_all add: handler_defs connect_defs)
  subgoal by (cases e3) (simp_all add: handler_defs close_defs)
  done

lemma accept_covers:
  "covers TScheduleEventuallyCompletionSignatures (trace (Accepts l i))
     (trace (Accepts (listener_step e l) i))"
proof (cases e)
  case (LBegin j env)
  then show ?thesis
    by (auto simp: TAcceptReceiver_set_value_def TTcpListener_RegisterAccept_def
        TTcpListener_StartListening_def take_accept_def complete_accept_def accept_result_def
        sig_defs handler_defs split: if_splits)
next
  case (LConnection env st)
  then show ?thesis
    by (auto simp: TTcpListener_ConnectionCallback_def take_accept_def complete_accept_def
        accept_result_def sig_defs emit_def Let_def split: option.splits if_splits)
next
  case (LRequestStop j)
  then show ?thesis by (simp add: handler_defs)
next
  case (LRunStop j)
  then show ?thesis
    by (simp add: TAcceptOpState_StopCallback_def complete_accept_def sig_defs handler_defs)
qed

lemma schedule_covers:
  "covers TScheduleCompletionSignatures (trace op) (trace (TScheduleOpState_step e op))"
  by (cases e) (simp_all add: TScheduleOpState_Apply_def sig_defs emit_def)

text \<open>What an adaptor declares over a child that can send a value.\<close>

lemma declared_adaptors:
  assumes "mk_documented (Make p)" "SigValue vs \<in> set (declared tinv p s)"
  shows "set length_sigs \<subseteq> set (declared tinv p (TReadSomeSender s h))"
    "set length_sigs \<subseteq> set (declared tinv p (TReadUntilSender s c h))"
    "set length_sigs \<subseteq> set (declared tinv p (TReceiveSender s h))"
    "set length_sigs \<subseteq> set (declared tinv p (TReceiveFromSender s h))"
    "set TScheduleEventuallyCompletionSignatures \<subseteq> set (declared tinv p (TAfterSender ty s l t))"
    "set TScheduleEventuallyCompletionSignatures \<subseteq> set (declared tinv p (TUponSignalSender s l n))"
    "set TScheduleEventuallyCompletionSignatures \<subseteq> set (declared tinv p (TTcpAcceptSender s k h))"
    "set request_sigs \<subseteq> set (declared tinv p (TWriteSender s h))"
    "set request_sigs \<subseteq> set (declared tinv p (TSendSender s h))"
    "set request_sigs \<subseteq> set (declared tinv p (TSendToSender s h))"
    "set request_sigs \<subseteq> set (declared tinv p (TShutdownSender s h))"
    "set request_sigs \<subseteq> set (declared tinv p (TConnectSender s h))"
    "set [SigValue []] \<subseteq> set (declared tinv p (TCloseSender s h))"
  using mk_members [OF assms] by (simp_all add: own_classes sig_defs)

section \<open>Properties\<close>

text \<open>
  C30: over a child that can send a value, every completion that a step of one of these operations sends itself is one its sender
  declares: \<open>read_some\<close>, \<open>read_until\<close>, \<open>receive\<close>, \<open>receive_from\<close>, the timers and signals, \<open>accept\<close>, the writing operations, \<open>shutdown\<close>,
  \<open>connect\<close>, \<open>close\<close>, and \<open>schedule\<close> and its timed forms. The operations with a body are not among them: \<open>bind_to\<close> and \<open>connect_to\<close>
  send errors they do not declare (below), and \<open>accept_from\<close> and \<open>async_value\<close> pass on what a foreign body sends.
\<close>

theorem declared_signatures_cover_completions:
  assumes "mk_documented (Make p)" "SigValue vs \<in> set (declared tinv p s)"
  shows
    "covers (declared tinv p (TReadSomeSender s h)) (trace rs) (trace (TReadSomeOpState_step P er rs)) \<and>
     covers (declared tinv p (TReadUntilSender s c h)) (trace ru) (trace (TReadUntilOpState_step P eu ru)) \<and>
     covers (declared tinv p (TReceiveSender s h)) (trace rc) (trace (TReceiveOpState_step ec rc)) \<and>
     covers (declared tinv p (TReceiveFromSender s h)) (trace rf) (trace (TReceiveFromOpState_step P ef rf)) \<and>
     covers (declared tinv p (TAfterSender ty s l t)) (trace a) (trace (TAfterOpState_step ea a)) \<and>
     covers (declared tinv p (TUponSignalSender s l n)) (trace u) (trace (TUponSignalOpState_step es u)) \<and>
     covers (declared tinv p (TTcpAcceptSender s k h)) (trace (Accepts li i)) (trace (Accepts (listener_step el li) i)) \<and>
     covers (declared tinv p (TWriteSender s h)) (trace w) (trace (TWriteReceiver_step ew w)) \<and>
     covers (declared tinv p (TSendSender s h)) (trace w) (trace (TSendReceiver_step ew w)) \<and>
     covers (declared tinv p (TSendToSender s h)) (trace w) (trace (TSendToReceiver_step et w)) \<and>
     covers (declared tinv p (TShutdownSender s h)) (trace r) (trace (TShutdownReceiver_step eh r)) \<and>
     covers (declared tinv p (TConnectSender s h)) (trace co) (trace (TConnectReceiver_step eco co)) \<and>
     covers (declared tinv p (TCloseSender s h)) (trace r) (trace (TCloseReceiver_step eh r)) \<and>
     covers (declared tinv p (TScheduleSender l)) (trace sc) (trace (TScheduleOpState_step esc sc)) \<and>
     covers (declared tinv p (TAfterScheduleSender ty l t)) (trace sa) (trace (TAfterScheduleOpState_step ea sa)) \<and>
     covers (declared tinv p (TUponSignalScheduleSender l n)) (trace su) (trace (TUponSignalScheduleOpState_step es su))"
proof -
  note d = declared_adaptors [OF assms]
  show ?thesis
    by (intro conjI covers_mono [OF reading_covers(1) d(1)] covers_mono [OF reading_covers(2) d(2)]
        covers_mono [OF reading_covers(3) d(3)] covers_mono [OF reading_covers(4) d(4)]
        covers_mono [OF timer_signal_covers(2) d(5)] covers_mono [OF timer_signal_covers(4) d(6)]
        covers_mono [OF accept_covers d(7)] covers_mono [OF request_covers(1) d(8)]
        covers_mono [OF request_covers(2) d(9)] covers_mono [OF request_covers(3) d(10)]
        covers_mono [OF request_covers(4) d(11)] covers_mono [OF request_covers(5) d(12)]
        covers_mono [OF request_covers(6) d(13)])
      (simp_all add: own_classes schedule_covers timer_signal_covers)
qed

theorem declared_signatures_cover_completions_witness:
  "covers (declared no_custom sample_sig_env (TWriteSender (just [1]) (Tcp 2))) []
     (trace (TWriteReceiver_step (RDone (-32)) (TWriteReceiver_new 0 1 2)))"
proof -
  have t: "trace (TWriteReceiver_new 0 1 2) = []" by (simp add: TWriteReceiver_new_def)
  have "SigValue [OpaqueT 1] \<in> set (declared no_custom sample_sig_env (just [1]))"
    by (simp add: just_class_def)
  note c = declared_signatures_cover_completions [OF sample_sig_env_documented this,
      where h = "Tcp 2" and w = "TWriteReceiver_new 0 1 2" and ew = "RDone (-32)", unfolded t]
  show ?thesis
    by (rule c [THEN conjunct2, THEN conjunct2, THEN conjunct2, THEN conjunct2, THEN conjunct2,
          THEN conjunct2, THEN conjunct2, THEN conjunct1])
qed

text \<open>
  \<open>bind_to\<close> and \<open>connect_to\<close> send error codes they do not declare: over \<open>just(endpoint)\<close> and a body that only sends a value they
  declare an exception and the body's value, and complete with the error code when their socket cannot be initialised or
  bound. \<open>accept_from\<close> declares it.
\<close>

theorem bind_to_sends_undeclared_errors:
  assumes "mk_documented (Make p)" "FnSigs p f = [SigValue []]"
  shows "SigError ErrcT \<notin> set (declared tinv p (TBindToSender (just [ep]) f)) \<and>
     SigError ErrcT \<notin> set (declared tinv p (TConnectToSender (just [ep]) f)) \<and>
     SigError ErrcT \<in> set (declared tinv p (TAcceptFromSender (just []) k f)) \<and>
     (IsError (env (uv_udp_init loop socket)) \<longrightarrow>
       completions (trace (TBindToOpState_step (InValue env throws addr)
         (TBindToOpState_start (TBindToOpState_new ScopeUdp loop socket inop body)))) =
       [SetError (EErrc (env (uv_udp_init loop socket)))]) \<and>
     (IsError (env (uv_tcp_init loop socket)) \<longrightarrow>
       completions (trace (TConnectToOpState_EmplaceAndStartInitially env throws
         (TScopedOpState_new ScopeTcp loop socket inop body))) =
       [SetError (EErrc (env (uv_tcp_init loop socket)))])"
  using assms
  by (simp add: mk_documented_def own_classes sig_defs bind_defs scope_defs socket_calls_more split_beta
      socket_try_error_def TBindToOpState_start_def TBindToOpState_new_def TScopedOpState_new_def
      TConnectToOpState_EmplaceAndStartInitially_def)

theorem bind_to_sends_undeclared_errors_witness:
  "SigError ErrcT \<notin> set (declared no_custom (sample_sig_env\<lparr>FnSigs := \<lambda>_. [SigValue []]\<rparr>) (TBindToSender (just [7]) 0)) \<and>
   completions (trace (TBindToOpState_step (InValue (\<lambda>_. - 12) False \<lparr>sa_family = 2, sa_bytes = []\<rparr>)
     (TBindToOpState_start (TBindToOpState_new ScopeUdp 1 2 3 4)))) = [SetError (EErrc (- 12))]"
  using bind_to_sends_undeclared_errors [of "sample_sig_env\<lparr>FnSigs := \<lambda>_. [SigValue []]\<rparr>" 0 no_custom 7 "Tcp 0"
      "\<lambda>_. - 12" 1 2 False "\<lparr>sa_family = 2, sa_bytes = []\<rparr>" 3 4]
  by (simp add: IsError_def sample_sig_env_def mk_sample_documented)

text \<open>
  the senders a loop's domain puts in place of a package keep what the tag requires: the values they declare over a child that
  sends values are exactly the required ones, and they declare to be stopped exactly when the tag requires it or the child does.
\<close>

theorem customisations_keep_required_signatures:
  assumes "mk_documented (Make p)" "customize sch t s d = Some x"
    "SigValue us \<in> set (declared tinv p s)"
  shows "(SigValue vs \<in> set (declared tinv p x) \<longleftrightarrow>
       SigValue vs \<in> set (TRequiredValueCompletionSignatures (required_of t))) \<and>
     (SigStopped \<in> set (declared tinv p x) \<longleftrightarrow>
       SigStopped \<in> set (TRequiredStoppedCompletionSignatures (required_of t)) \<or>
       SigStopped \<in> set (declared tinv p s))"
proof -
  have v: "SigValue ws \<in> set (Make p (declared tinv p s) ex TVoidValueCompletionSignatures) \<longleftrightarrow>
        SigValue ws \<in> set ex \<or> ws = []"
      "SigValue ws \<in> set (Make p (declared tinv p s) ex TLengthValueCompletionSignatures) \<longleftrightarrow>
        SigValue ws \<in> set ex \<or> ws = [SizeT]"
    and o: "SigStopped \<in> set (Make p (declared tinv p s) ex TVoidValueCompletionSignatures) \<longleftrightarrow>
        SigStopped \<in> set ex \<or> SigStopped \<in> set (declared tinv p s)"
      "SigStopped \<in> set (Make p (declared tinv p s) ex TLengthValueCompletionSignatures) \<longleftrightarrow>
        SigStopped \<in> set ex \<or> SigStopped \<in> set (declared tinv p s)" for ws ex
    using assms(1,3) unfolding mk_documented_def sig_defs by auto
  show ?thesis
    using assms(2) unfolding customize_defs TAfterSender_new_def
    by (cases d; cases t)
      (auto simp: own_classes v o required_defs TCancellableAlgorithmCompletionSignatures_def
        TAlgorithmCompletionSignatures_def split: socket.splits option.splits if_splits)
qed

theorem customisations_keep_required_signatures_witness:
  "SigStopped \<in> set (declared no_custom sample_sig_env (TReadSomeSender (just [1]) (Tcp 2)))"
  using customisations_keep_required_signatures [OF sample_sig_env_documented,
      of None read_some_t "just [1]" "OnSocket (Tcp 2)" "TReadSomeSender (just [1]) (Tcp 2)" "[OpaqueT 1]"]
  by (simp add: customize_defs just_class_def required_defs)

end
