(* ===== verification/Loop_Env.thy ===== *)
theory Loop_Env
  imports Senders
begin

text \<open>
  The scheduler of a loop and the environments through which stdexec asks for it (\<open>TLoop::TScheduler\<close>, \<open>TEnv\<close>, \<open>TLoopEnv\<close>
  and \<open>TDomain\<close> of include/uvexec/execution/loop.hpp and src/execution/loop.cpp), and \<open>sync_wait\<close> as the dispatch over them: which loop a waiting thread runs,
  and in whose environment the sender is connected. What \<open>sync_wait\<close> returns is in Scheduling, how it waits in
  Loop_Protocol.
\<close>

section \<open>Schedulers\<close>

text \<open>A scheduler is a pointer to its loop; two are equal when their loops are.\<close>

datatype TScheduler = TScheduler_new (SchedLoop: ptr)

definition TLoop_get_scheduler :: "ptr \<Rightarrow> TScheduler" where
  "TLoop_get_scheduler l = TScheduler_new l"

definition TDomain_GetLoop :: "TScheduler \<Rightarrow> ptr" where
  "TDomain_GetLoop sch = SchedLoop sch"

definition TScheduler_get_domain :: "TScheduler \<Rightarrow> domain" where
  "TScheduler_get_domain sch = LoopDomain"

text \<open>\<open>get_completion_scheduler\<close> of a sender's environment, where it has one: for \<open>TEnv\<close> the scheduler of its loop.\<close>

definition get_completion_scheduler :: "sender_env \<Rightarrow> TScheduler option" where
  "get_completion_scheduler e = map_option TLoop_get_scheduler (EnvScheduler e)"

text \<open>The environment of the receiver of \<open>sync_wait\<close>.\<close>

datatype TLoopEnv = TLoopEnv_new (EnvLoop: ptr)

definition TLoopEnv_get_scheduler :: "TLoopEnv \<Rightarrow> TScheduler" where
  "TLoopEnv_get_scheduler e = TLoop_get_scheduler (EnvLoop e)"

definition TLoopEnv_get_domain :: "TLoopEnv \<Rightarrow> domain" where
  "TLoopEnv_get_domain e = LoopDomain"

section \<open>\<open>sync_wait\<close>\<close>

text \<open>
  The operation that a scheduler's \<open>sync_wait\<close> connects and starts, and the loop whose \<open>RunnerSteal\<close> it then calls. stdexec
  lets the early domain of the sender apply it; the domain of a loop asks the sender for its completion scheduler. A sender
  of the default domain is left to stdexec (\<open>None\<close>).
\<close>

definition TScheduler_sync_wait :: "custom \<Rightarrow> TScheduler \<Rightarrow> sender \<Rightarrow> ptr \<times> opstate" where
  "TScheduler_sync_wait tinv sch s =
     (let env = TLoopEnv_new (SchedLoop sch);
          op = connect_sender tinv (TLoopEnv_get_domain env)
                 (Some (TDomain_GetLoop (TLoopEnv_get_scheduler env))) s
      in (SchedLoop sch, op))"

definition TDomain_apply_sender :: "custom \<Rightarrow> sender \<Rightarrow> (ptr \<times> opstate) option" where
  "TDomain_apply_sender tinv s =
     map_option (\<lambda>sch. TScheduler_sync_wait tinv sch s) (get_completion_scheduler (get_env s))"

definition sync_wait :: "custom \<Rightarrow> sender \<Rightarrow> (ptr \<times> opstate) option" where
  "sync_wait tinv s = (if GetEarlyDomain s = LoopDomain then TDomain_apply_sender tinv s else None)"

lemmas env_defs = TLoop_get_scheduler_def TDomain_GetLoop_def get_completion_scheduler_def
  TLoopEnv_get_scheduler_def TLoopEnv_get_domain_def TScheduler_sync_wait_def
  TDomain_apply_sender_def sync_wait_def

section \<open>Pipelines\<close>

text \<open>What begins on a loop, and the algorithms called one after the other on it.\<close>

datatype source = Now | After_time int | At_time int | On_signal int

primrec begins :: "ptr \<Rightarrow> source \<Rightarrow> sender" where
  "begins l Now = schedule l"
| "begins l (After_time t) = schedule_after l t"
| "begins l (At_time t) = schedule_at l t"
| "begins l (On_signal n) = schedule_upon_signal l n"

primrec pipeline :: "sender \<Rightarrow> (tag \<times> data) list \<Rightarrow> sender option" where
  "pipeline s [] = Some s"
| "pipeline s (x # xs) =
     (case apply_tag (fst x) s (snd x) of None \<Rightarrow> None | Some s' \<Rightarrow> pipeline s' xs)"

text \<open>The loops that the parts of an operation are scheduled on.\<close>

primrec op_loops :: "opstate \<Rightarrow> ptr set" where
  "op_loops (JustOp vs) = {}"
| "op_loops (ForeignOp n) = {}"
| "op_loops (ScheduleOp l) = {l}"
| "op_loops (AfterScheduleOp ty l t) = {l}"
| "op_loops (UponSignalScheduleOp l n) = {l}"
| "op_loops (ConnectedTo r h c) = op_loops c"
| "op_loops (ReadSomeOp h c) = op_loops c"
| "op_loops (ReadUntilOp f h c) = op_loops c"
| "op_loops (ReceiveOp h c) = op_loops c"
| "op_loops (ReceiveFromOp h c) = op_loops c"
| "op_loops (AcceptOp l h c) = op_loops c"
| "op_loops (AfterOp ty l t c) = insert l (op_loops c)"
| "op_loops (UponSignalOp l n c) = insert l (op_loops c)"
| "op_loops (AsyncValueOp f c) = op_loops c"
| "op_loops (BindToOp f c) = op_loops c"
| "op_loops (ConnectToOp f s) = {}"
| "op_loops (AcceptFromOp l f s) = {}"
| "op_loops TFatalOpState = {}"
| "op_loops IllFormed = {}"

abbreviation connected :: "ptr \<Rightarrow> sender \<Rightarrow> opstate" where
  "connected l s \<equiv> connect_sender no_custom LoopDomain (Some l) s"

lemma begins_env: "get_env (begins l src) = TScheduler_TEnv l"
  by (cases src) (simp_all add: schedule_def schedule_after_def schedule_at_def
      schedule_upon_signal_def TAfterScheduleSender_new_def own_classes)

lemma begins_connected: "op_loops (connected l (begins l src)) = {l} \<and> resolved (connected l (begins l src))"
  by (cases src; subst connect_sender.simps; subst connect_sender.simps)
    (simp_all add: schedule_def schedule_after_def schedule_at_def schedule_upon_signal_def
      TAfterScheduleSender_new_def own_classes not_package_transform)

lemma apply_tag_package:
  "apply_tag t s d = Some s' \<Longrightarrow>
   s' = transform_sender (GetEarlyDomain s) (MakeSenderPackage t s d)"
  by (cases t; cases d) (simp_all add: apply_tag_def algorithm_defs split: if_splits)

lemma customize_loops:
  assumes "customize (Some l) t s d = Some x"
  shows "op_loops (connect_op (class_of tinv x) c) \<subseteq> insert l (op_loops c)"
  using assms unfolding customize_defs TAfterSender_new_def
  by (cases d; cases t) (auto simp: own_classes split: socket.splits option.splits if_splits)

text \<open>One algorithm on a sender that completes on the loop \<open>l\<close>.\<close>

lemma apply_tag_connected:
  assumes "apply_tag t s d = Some s'" "get_env s = TScheduler_TEnv l" "s \<noteq> just []"
  shows "get_env s' = TScheduler_TEnv l \<and> s' \<noteq> just [] \<and>
    (resolved (connected l s') \<longleftrightarrow> supported t d \<and> resolved (connected l s)) \<and>
    op_loops (connected l s') \<subseteq> insert l (op_loops (connected l s))"
proof -
  have dom: "GetEarlyDomain s = LoopDomain"
    using assms(2) by (simp add: GetEarlyDomain_def TScheduler_TEnv_def)
  have s': "s' = (case customize (Some l) t s d of Some x \<Rightarrow> x | None \<Rightarrow> TSenderPackage t s d)"
    using apply_tag_package [OF assms(1)] dom assms(2)
    by (simp add: transform_sender_def TDomain_transform_sender_def MakeSenderPackage_def TScheduler_TEnv_def)
  show ?thesis
  proof (cases "customize (Some l) t s d")
    case None
    then show ?thesis
      using s' assms(2) customize_supported [of l t s d]
      by (simp add: connect_package package_classes no_custom_def)
  next
    case (Some x)
    then have "s' = x" using s' by simp
    moreover have "supported t d" using Some customize_supported [of l t s d] by simp
    ultimately show ?thesis
      using assms(2,3) customize_shape [OF Some] customize_loops [OF Some] connect_customised [OF Some]
      by auto
  qed
qed

lemma pipeline_connected:
  "pipeline s xs = Some s' \<Longrightarrow> get_env s = TScheduler_TEnv l \<Longrightarrow> s \<noteq> just [] \<Longrightarrow>
   get_env s' = TScheduler_TEnv l \<and>
   (resolved (connected l s') \<longleftrightarrow> (\<forall>(t, d) \<in> set xs. supported t d) \<and> resolved (connected l s)) \<and>
   op_loops (connected l s') \<subseteq> insert l (op_loops (connected l s))"
proof (induction xs arbitrary: s)
  case (Cons x xs)
  then obtain r where r: "apply_tag (fst x) s (snd x) = Some r" "pipeline r xs = Some s'"
    by (auto split: option.splits)
  note step = apply_tag_connected [OF r(1) Cons.prems(2,3)]
  then have "get_env r = TScheduler_TEnv l" "r \<noteq> just []" by blast+
  note rest = Cons.IH [OF r(2) this]
  show ?case using step rest by (auto simp: case_prod_beta)
qed auto

section \<open>Properties\<close>

text \<open>
  C28: \<open>sync_wait\<close> of a pipeline of the library's algorithms that begins on a loop - by \<open>schedule\<close>, a timer or a signal - runs that
  loop and no other: it is found through the sender's environment, the operation is connected in its environment, and every timer and signal in
  it is scheduled on it. \<open>connect\<close> finds an operation state for every stage exactly when each algorithm supports its
  socket; whether the values of one stage fit the next is not part of it.
\<close>

theorem sync_wait_runs_the_loop_of_the_pipeline:
  assumes "pipeline (begins l src) xs = Some s"
  shows "\<exists>op. sync_wait no_custom s = Some (l, op) \<and> op_loops op \<subseteq> {l} \<and>
    (resolved op \<longleftrightarrow> (\<forall>(t, d) \<in> set xs. supported t d))"
proof -
  have "begins l src \<noteq> just []" using begins_env [of l src] by (auto simp: own_classes empty_env_def TScheduler_TEnv_def)
  note p = pipeline_connected [OF assms begins_env this]
  then have "sync_wait no_custom s = Some (l, connected l s)"
    by (simp add: env_defs GetEarlyDomain_def TScheduler_TEnv_def)
  then show ?thesis using p begins_connected [of l src] by auto
qed

definition accept_stages :: "(tag \<times> data) list" where
  "accept_stages = [(accept_t, OnListener (TcpListener 3) (Tcp 5)), (after_t, Millis 100),
     (shutdown_t, OnSocket (Tcp 5)), (close_t, OnSocket (Tcp 5))]"

theorem sync_wait_runs_the_loop_of_the_pipeline_witness:
  "\<exists>s op. pipeline (schedule 9) accept_stages = Some s \<and> sync_wait no_custom s = Some (9, op) \<and>
     op_loops op \<subseteq> {9} \<and> resolved op"
proof -
  have "pipeline (schedule 9) accept_stages \<noteq> None" by (simp add: accept_stages_def apply_tag_def)
  then obtain s where s: "pipeline (begins 9 Now) accept_stages = Some s" by auto
  have "\<forall>(t, d) \<in> set accept_stages. supported t d" by (simp add: accept_stages_def supported_def)
  then show ?thesis using sync_wait_runs_the_loop_of_the_pipeline [OF s] s by auto
qed

end
