(* ===== verification/Lazy_Construct.thy ===== *)
theory Lazy_Construct
  imports Uv_Prelude
begin

text \<open>
  include/uvexec/util/lazy.hpp: \<open>TLazy\<close>, and \<open>TLazyConstruct\<close>, which keeps the arguments of a constructor until the object is asked for and
  builds it then, in raw memory whose destructor destroys the object. The model records every construction and destruction of
  the object.
\<close>

section \<open>The object\<close>

text \<open>Arguments are opaque. \<open>TypeMemory b\<close> is the second alternative, where \<open>b\<close> tells whether an object lives in the memory; the
  code cannot see \<open>b\<close>.\<close>

datatype lazy_value = ArgsTuple "nat list" | TypeMemory bool

datatype life_event = ConstructedFrom "nat list" | DestroyedAt bool

record TLazyConstruct =
  LValue :: lazy_value
  Life :: "life_event list"

text \<open>
  What a member function does: it returns, returns a reference to memory where an object lives or does not, throws,
  terminates the program, or flows off its end without the value it should return, which is undefined.
\<close>

datatype lazy_outcome = Returned | RefTo bool | Threw | Terminated | FlowedOffTheEnd

definition TLazy_convert :: "(unit \<Rightarrow> 'a) \<Rightarrow> 'a" where
  "TLazy_convert lazy = lazy ()"

definition TLazyConstruct_new :: "nat list \<Rightarrow> TLazyConstruct" where
  "TLazyConstruct_new args = \<lparr>LValue = ArgsTuple args, Life = []\<rparr>"

definition TTypeMemory_dtor :: "bool \<Rightarrow> TLazyConstruct \<Rightarrow> TLazyConstruct" where
  "TTypeMemory_dtor alive l = l\<lparr>Life := Life l @ [DestroyedAt alive]\<rparr>"

text \<open>The variant destroys the alternative it holds.\<close>

definition TLazyConstruct_dtor :: "TLazyConstruct \<Rightarrow> TLazyConstruct" where
  "TLazyConstruct_dtor l =
     (case LValue l of ArgsTuple args \<Rightarrow> l | TypeMemory alive \<Rightarrow> TTypeMemory_dtor alive l)"

definition Constructed :: "TLazyConstruct \<Rightarrow> bool" where
  "Constructed l \<longleftrightarrow> (case LValue l of ArgsTuple args \<Rightarrow> False | TypeMemory alive \<Rightarrow> True)"

text \<open>The move constructor takes the arguments: \<open>std::get<0>\<close> throws out of a \<open>noexcept\<close> function when there are none.\<close>

definition TLazyConstruct_move :: "TLazyConstruct \<Rightarrow> TLazyConstruct option \<times> lazy_outcome" where
  "TLazyConstruct_move val =
     (case LValue val of
        ArgsTuple args \<Rightarrow> (Some (TLazyConstruct_new args), Returned)
      | TypeMemory alive \<Rightarrow> (None, Terminated))"

definition TLazyConstruct_assign :: "TLazyConstruct \<Rightarrow> TLazyConstruct \<Rightarrow> TLazyConstruct \<times> lazy_outcome" where
  "TLazyConstruct_assign val l =
     (if Constructed val then (l, Terminated)
      else ((TLazyConstruct_dtor l)\<lparr>LValue := LValue val\<rparr>, FlowedOffTheEnd))"

text \<open>The memory becomes the alternative before the object is constructed in it; \<open>throws\<close> tells whether the object's constructor
  does.\<close>

definition Transmogrify :: "bool \<Rightarrow> TLazyConstruct \<Rightarrow> TLazyConstruct \<times> lazy_outcome" where
  "Transmogrify throws l =
     (case LValue l of
        ArgsTuple args \<Rightarrow>
          (let l = l\<lparr>LValue := TypeMemory False\<rparr>
           in if throws then (l, Threw)
              else (l\<lparr>LValue := TypeMemory True, Life := Life l @ [ConstructedFrom args]\<rparr>, Returned))
      | TypeMemory alive \<Rightarrow> (l, Threw))"

definition reference_of :: "TLazyConstruct \<Rightarrow> lazy_outcome" where
  "reference_of l = (case LValue l of ArgsTuple args \<Rightarrow> Threw | TypeMemory alive \<Rightarrow> RefTo alive)"

definition TLazyConstruct_ref :: "bool \<Rightarrow> TLazyConstruct \<Rightarrow> TLazyConstruct \<times> lazy_outcome" where
  "TLazyConstruct_ref throws l =
     (if Constructed l then (l, reference_of l)
      else case Transmogrify throws l of
          (l, Returned) \<Rightarrow> (l, reference_of l)
        | (l, out) \<Rightarrow> (l, out))"

definition TLazyConstruct_const_ref :: "TLazyConstruct \<Rightarrow> TLazyConstruct \<times> lazy_outcome" where
  "TLazyConstruct_const_ref l =
     (if Constructed l then (l, reference_of l) else (l, Terminated))"

text \<open>A program uses the object through the conversions, and stops when it is terminated.\<close>

datatype lazy_use = UseRef bool | UseConstRef

fun use_step :: "lazy_use \<Rightarrow> TLazyConstruct \<Rightarrow> TLazyConstruct \<times> lazy_outcome" where
  "use_step (UseRef throws) l = TLazyConstruct_ref throws l"
| "use_step UseConstRef l = TLazyConstruct_const_ref l"

fun use_run :: "lazy_use list \<Rightarrow> TLazyConstruct \<Rightarrow> TLazyConstruct \<times> lazy_outcome list" where
  "use_run [] l = (l, [])"
| "use_run (u # us) l =
     (case use_step u l of (l', out) \<Rightarrow>
        if out = Terminated then (l', [out])
        else (case use_run us l' of (l'', outs) \<Rightarrow> (l'', out # outs)))"

lemmas lazy_defs = TLazyConstruct_new_def TTypeMemory_dtor_def TLazyConstruct_dtor_def Constructed_def
  TLazyConstruct_move_def TLazyConstruct_assign_def Transmogrify_def reference_of_def
  TLazyConstruct_ref_def TLazyConstruct_const_ref_def

text \<open>Once the memory is in place nothing changes any more.\<close>

lemma use_run_memory:
  "LValue l = TypeMemory alive \<Longrightarrow>
   fst (use_run us l) = l \<and> set (snd (use_run us l)) \<subseteq> {RefTo alive} \<and>
   length (snd (use_run us l)) = length us"
proof (induction us)
  case (Cons u us)
  then show ?case by (cases u) (auto simp: lazy_defs split_beta)
qed simp

section \<open>Properties\<close>

text \<open>
  where the constructor does not throw, the object is made from the arguments at the first use, exactly once, every use gets a
  reference to it, and it is destroyed once with the holder; without a use it is never made. The only way to go wrong is to
  use a holder as \<open>const\<close> first, which terminates the program.
\<close>

theorem lazy_object_lives_once:
  assumes "\<forall>u \<in> set us. u \<noteq> UseRef True"
  shows "case use_run us (TLazyConstruct_new args) of (l, outs) \<Rightarrow>
     (case us of
        [] \<Rightarrow> Life (TLazyConstruct_dtor l) = []
      | UseConstRef # _ \<Rightarrow> outs = [Terminated] \<and> Life l = []
      | UseRef _ # _ \<Rightarrow> outs = replicate (length us) (RefTo True) \<and>
          Life (TLazyConstruct_dtor l) = [ConstructedFrom args, DestroyedAt True])"
proof (cases us)
  case Nil
  then show ?thesis by (simp add: lazy_defs)
next
  case (Cons u vs)
  show ?thesis
  proof (cases u)
    case UseConstRef
    then show ?thesis using Cons by (simp add: lazy_defs)
  next
    case (UseRef throws)
    define l where "l = \<lparr>LValue = TypeMemory True, Life = [ConstructedFrom args]\<rparr>"
    have s: "use_step u (TLazyConstruct_new args) = (l, RefTo True)"
      using assms Cons UseRef by (simp add: lazy_defs l_def)
    have r: "fst (use_run vs l) = l" "set (snd (use_run vs l)) \<subseteq> {RefTo True}"
        "length (snd (use_run vs l)) = length vs"
      using use_run_memory [of l True vs] by (simp_all add: l_def)
    then have "snd (use_run vs l) = replicate (length vs) (RefTo True)"
      by (auto intro: replicate_eqI)
    then show ?thesis
      using Cons UseRef s r by (simp add: split_beta lazy_defs l_def)
  qed
qed

theorem lazy_object_lives_once_witness:
  "snd (use_run [UseRef False, UseConstRef] (TLazyConstruct_new [7])) = [RefTo True, RefTo True]"
  using lazy_object_lives_once [of "[UseRef False, UseConstRef]" "[7]"]
  by (simp add: split_beta numeral_2_eq_2)

text \<open>
  what goes wrong: after a constructor that threw, the holder counts as constructed, so every later use gets a reference to no
  object, and the holder destroys an object that was never made; a holder whose object is made cannot be moved; and assigning never
  returns as it should: it terminates, or takes the arguments (destroying its own object) and flows off its end.
\<close>

theorem lazy_faults:
  "(case TLazyConstruct_ref True (TLazyConstruct_new args) of (l, out) \<Rightarrow>
      out = Threw \<and> snd (use_step u l) = RefTo False \<and> Life (TLazyConstruct_dtor l) = [DestroyedAt False]) \<and>
   (case TLazyConstruct_ref False (TLazyConstruct_new args) of (l, out) \<Rightarrow>
      TLazyConstruct_move l = (None, Terminated) \<and> snd (TLazyConstruct_assign l k) = Terminated) \<and>
   snd (TLazyConstruct_assign m k) \<in> {Terminated, FlowedOffTheEnd} \<and>
   (case TLazyConstruct_assign (TLazyConstruct_new bs) (fst (TLazyConstruct_ref False (TLazyConstruct_new args))) of
      (l, out) \<Rightarrow> LValue l = ArgsTuple bs \<and> Life l = [ConstructedFrom args, DestroyedAt True])"
  by (cases u) (simp_all add: lazy_defs)

end
