(* ===== verification/Meta_Types.thy ===== *)
theory Meta_Types
  imports Uv_Prelude
begin

text \<open>
  The type functions of include/uvexec/meta on a language of types: the parameter type of a callable, lists of types with
  \<open>IndexOf\<close>, \<open>IsIn\<close> and \<open>TBindFront\<close>, and the result types that \<open>connect_to\<close> and \<open>accept_from\<close> build with
  them (connect_to_op_state.hpp, accept_from_op_state.hpp). A function that has no result for a type makes a substitution fail, \<open>None\<close>.
\<close>

section \<open>Types\<close>

text \<open>
  Named types, references and \<open>std::reference_wrapper\<close>; pointers to functions and to member functions with their result and parameter
  types; a class by the type of its \<open>operator()\<close>, if it has exactly one.
\<close>

datatype ref_qual = NoRef | LRef | RRef

datatype ty =
    Named nat
  | SetStoppedT
  | ExceptionPtr
  | Reference ty
  | ReferenceWrapper ty
  | FunctionPtr ty "ty list" bool
  | MethodPtr ty nat "ty list" (m_const: bool) (m_volatile: bool) (m_ref: ref_qual) (m_noexcept: bool)
  | ClassOf nat "ty option"

section \<open>Parameter types\<close>

text \<open>The twelve specialisations of \<open>TMethodArg\<close>: one parameter, and each choice of \<open>const\<close>, reference qualifier and \<open>noexcept\<close>.\<close>

fun TMethodArg :: "ty \<Rightarrow> ty option" where
  "TMethodArg (MethodPtr res fn [arg] False False NoRef False) = Some arg"
| "TMethodArg (MethodPtr res fn [arg] False False LRef False) = Some arg"
| "TMethodArg (MethodPtr res fn [arg] False False RRef False) = Some arg"
| "TMethodArg (MethodPtr res fn [arg] True False NoRef False) = Some arg"
| "TMethodArg (MethodPtr res fn [arg] True False LRef False) = Some arg"
| "TMethodArg (MethodPtr res fn [arg] True False RRef False) = Some arg"
| "TMethodArg (MethodPtr res fn [arg] False False NoRef True) = Some arg"
| "TMethodArg (MethodPtr res fn [arg] False False LRef True) = Some arg"
| "TMethodArg (MethodPtr res fn [arg] False False RRef True) = Some arg"
| "TMethodArg (MethodPtr res fn [arg] True False NoRef True) = Some arg"
| "TMethodArg (MethodPtr res fn [arg] True False LRef True) = Some arg"
| "TMethodArg (MethodPtr res fn [arg] True False RRef True) = Some arg"
| "TMethodArg t = None"

fun TRemoveReferenceWrapper :: "ty \<Rightarrow> ty" where
  "TRemoveReferenceWrapper (ReferenceWrapper t) = t"
| "TRemoveReferenceWrapper t = t"

text \<open>A pointer to a function with one parameter, or a class with one \<open>operator()\<close>.\<close>

fun TFunctionParameterTypeImpl :: "ty \<Rightarrow> ty option" where
  "TFunctionParameterTypeImpl (FunctionPtr res [arg] ne) = Some arg"
| "TFunctionParameterTypeImpl (ClassOf n (Some call)) = TMethodArg call"
| "TFunctionParameterTypeImpl t = None"

section \<open>Lists of types\<close>

definition BindFront :: "ty \<Rightarrow> ty list \<Rightarrow> ty list" where
  "BindFront t ts = t # ts"

primrec TIndexOf :: "ty \<Rightarrow> nat \<Rightarrow> ty list \<Rightarrow> nat" where
  "TIndexOf seek idx [] = idx"
| "TIndexOf seek idx (t # ts) = (if seek = t then idx else TIndexOf seek (idx + 1) ts)"

definition IndexOf :: "ty \<Rightarrow> ty list \<Rightarrow> nat" where
  "IndexOf seek ts = TIndexOf seek 0 ts"

definition ContainsImpl :: "ty \<Rightarrow> ty list \<Rightarrow> bool" where
  "ContainsImpl seek ts \<longleftrightarrow> IndexOf seek ts < length ts"

text \<open>\<open>std::decay_t\<close> of the types that occur: it removes a reference.\<close>

fun decay :: "ty \<Rightarrow> ty" where
  "decay (Reference t) = t"
| "decay t = t"

definition IsIn :: "ty \<Rightarrow> ty list \<Rightarrow> bool" where
  "IsIn t ts \<longleftrightarrow> ContainsImpl t ts"

definition IsInDecayed :: "ty \<Rightarrow> ty list \<Rightarrow> bool" where
  "IsInDecayed t ts \<longleftrightarrow> ContainsImpl (decay t) ts"

section \<open>The results of connect_to and accept_from\<close>

text \<open>The variants that keep, while the socket is closed, what the connecting or accepting sender completed with: its
  error types and whether it may be stopped are given.\<close>

definition TConnectErrorsResult :: "ty list \<Rightarrow> ty list" where
  "TConnectErrorsResult errors =
     (if IsIn ExceptionPtr errors then errors else BindFront ExceptionPtr errors)"

definition TConnectResult :: "ty list \<Rightarrow> bool \<Rightarrow> ty list" where
  "TConnectResult errors stoppable =
     (if stoppable then BindFront SetStoppedT (TConnectErrorsResult errors)
      else TConnectErrorsResult errors)"

definition TAcceptResult :: "ty list \<Rightarrow> ty list" where
  "TAcceptResult errors =
     BindFront SetStoppedT (if IsIn ExceptionPtr errors then errors else BindFront ExceptionPtr errors)"

section \<open>Lemmas\<close>

lemma TIndexOf_shift: "TIndexOf t k ts = k + TIndexOf t 0 ts"
proof (induction ts arbitrary: k)
  case (Cons u us)
  show ?case using Cons [of "k + 1"] Cons [of 1] by simp
qed simp

lemma IndexOf_Cons [simp]: "IndexOf t (u # us) = (if t = u then 0 else Suc (IndexOf t us))"
  by (simp add: IndexOf_def TIndexOf_shift [of t "Suc 0"])

lemma IndexOf_Nil [simp]: "IndexOf t [] = 0"
  by (simp add: IndexOf_def)

lemma IndexOf_less: "IndexOf t ts < length ts \<longleftrightarrow> t \<in> set ts"
  by (induction ts) auto

lemma IndexOf_absent: "t \<notin> set ts \<Longrightarrow> IndexOf t ts = length ts"
  by (induction ts) auto

lemma IndexOf_present: "t \<in> set ts \<Longrightarrow> ts ! IndexOf t ts = t \<and> (\<forall>i < IndexOf t ts. ts ! i \<noteq> t)"
  by (induction ts) (auto simp: nth_Cons split: nat.split)

lemma IsIn_iff [simp]: "IsIn t ts \<longleftrightarrow> t \<in> set ts"
  by (simp add: IsIn_def ContainsImpl_def IndexOf_less)

section \<open>Properties\<close>

text \<open>
  \<open>IsIn\<close> is membership and \<open>IndexOf\<close> the position of the first occurrence, or the number of types when there is none, which is how
  \<open>IsIn\<close> can compare it with \<open>sizeof...\<close>.
\<close>

theorem IndexOf_is_first_position:
  "(IsIn t ts \<longleftrightarrow> t \<in> set ts) \<and> (IsInDecayed u ts \<longleftrightarrow> decay u \<in> set ts) \<and>
   IndexOf t ts = length (takeWhile (\<lambda>x. x \<noteq> t) ts)"
proof -
  have "IndexOf t ts = length (takeWhile (\<lambda>x. x \<noteq> t) ts)"
    by (induction ts) auto
  then show ?thesis by (simp add: IsInDecayed_def IsIn_def ContainsImpl_def IndexOf_less)
qed

text \<open>
  the variants of \<open>connect_to\<close> and \<open>accept_from\<close> have an alternative for everything that can be kept in them: each error of the sender, an
  exception, and the stopped completion, for \<open>connect_to\<close> just if the sender may be stopped. Over distinct errors that do not
  include \<open>set_stopped_t\<close> the alternatives are distinct, so each kept type names one alternative.
\<close>

theorem scoped_results_hold_every_completion:
  assumes "distinct errors" "SetStoppedT \<notin> set errors"
  shows "set (TConnectResult errors stoppable) =
       set errors \<union> {ExceptionPtr} \<union> (if stoppable then {SetStoppedT} else {}) \<and>
     set (TAcceptResult errors) = set errors \<union> {ExceptionPtr, SetStoppedT} \<and>
     distinct (TConnectResult errors stoppable) \<and> distinct (TAcceptResult errors) \<and>
     (\<forall>i < length (TAcceptResult errors). IndexOf (TAcceptResult errors ! i) (TAcceptResult errors) = i)"
proof -
  have d: "distinct (TAcceptResult errors)"
    using assms by (simp add: TAcceptResult_def BindFront_def)
  have "IndexOf (ts ! i) ts = i" if "distinct ts" "i < length ts" for ts i
    using IndexOf_present [of "ts ! i" ts] IndexOf_less [of "ts ! i" ts] that
    by (metis nth_eq_iff_index_eq nth_mem)
  then have "\<forall>i < length (TAcceptResult errors). IndexOf (TAcceptResult errors ! i) (TAcceptResult errors) = i"
    using d by blast
  then show ?thesis
    using assms d
    by (auto simp: TConnectResult_def TConnectErrorsResult_def TAcceptResult_def BindFront_def
        simp del: IndexOf_Cons)
qed

theorem scoped_results_hold_every_completion_witness:
  "distinct (TAcceptResult [Named 1]) \<and> TConnectResult [Named 1] False = [ExceptionPtr, Named 1]"
  using scoped_results_hold_every_completion [of "[Named 1]" False]
  by (simp add: TConnectResult_def TConnectErrorsResult_def BindFront_def)

text \<open>
  the body functions of \<open>bind_to\<close>, \<open>connect_to\<close>, \<open>accept_from\<close> and \<open>async_value\<close> have a parameter type just if they are a function
  pointer or a class with one \<open>operator()\<close>, of exactly one parameter and not \<open>volatile\<close>; then it is the type of that parameter whatever the
  other qualifiers are.
\<close>

theorem parameter_type_iff_unary:
  "TFunctionParameterTypeImpl f = Some arg \<longleftrightarrow>
     (\<exists>res ne. f = FunctionPtr res [arg] ne) \<or>
     (\<exists>n res fn c r ne. f = ClassOf n (Some (MethodPtr res fn [arg] c False r ne)))"
proof -
  have m: "TMethodArg t = Some arg \<longleftrightarrow> (\<exists>res fn c r ne. t = MethodPtr res fn [arg] c False r ne)" for t
  proof
    assume "\<exists>res fn c r ne. t = MethodPtr res fn [arg] c False r ne"
    then obtain res fn c r ne where t: "t = MethodPtr res fn [arg] c False r ne" by blast
    show "TMethodArg t = Some arg" unfolding t by (cases c; cases r; cases ne) simp_all
  qed (induction t rule: TMethodArg.induct; auto)
  show ?thesis
    by (induction f rule: TFunctionParameterTypeImpl.induct) (auto simp: m)
qed

end
