(* ===== verification/C_Runtime.thy ===== *)
theory C_Runtime
  imports Uv_Prelude
begin

text \<open>
  What the C programs of src/examples/echo_uv.c run on: memory of \<open>malloc\<close> and \<open>free\<close>, and the streams of libuv with their
  queues. The blocks are those the programs allocate, each with the fields the programs use.
  A wrong use of either is recorded as a fault: using or freeing a block that is not allocated, an access
  outside of what has been written, a second \<open>uv_close\<close> of a handle (an assertion of libuv), overflow of an \<open>int\<close>.
\<close>

section \<open>Memory\<close>

text \<open>
  \<open>Chars cap bs\<close> is an array of \<open>cap\<close> bytes of which the first have been written. A field that has not been assigned yet is
  \<open>None\<close>. The requests and the handle are libuv's structures, of which the programs use the field \<open>data\<close>.
\<close>

datatype block =
    Chars nat "8 word list"
  | TcpHandle "ptr option"
  | ServerData "int option"
  | ReqData uv_buf_t ptr
  | ClientData uv_buf_t int int
  | WriteReq ptr
  | ShutdownReq ptr
  | ConnectReq ptr

datatype fault = UseAfterFree | BadFree | BadAccess | ClosedTwice | Overflow

record runtime =
  Mem :: "ptr \<Rightarrow> block option"
  Fresh :: ptr
  Faults :: "fault list"
  Opened :: "ptr set"
  Closing :: "ptr set"
  Reading :: "ptr set"
  Writes :: "ptr \<Rightarrow> ptr list"
  ShuttingDown :: "ptr \<Rightarrow> ptr option"
  Connecting :: "ptr \<Rightarrow> ptr option"

definition fault :: "fault \<Rightarrow> 'a runtime_scheme \<Rightarrow> 'a runtime_scheme" where
  "fault f s = s\<lparr>Faults := Faults s @ [f]\<rparr>"

definition malloc :: "block \<Rightarrow> 'a runtime_scheme \<Rightarrow> ptr \<times> 'a runtime_scheme" where
  "malloc b s = (Fresh s, s\<lparr>Mem := (Mem s)(Fresh s \<mapsto> b), Fresh := Fresh s + 1\<rparr>)"

definition free :: "ptr \<Rightarrow> 'a runtime_scheme \<Rightarrow> 'a runtime_scheme" where
  "free p s = (if Mem s p = None then fault BadFree s else s\<lparr>Mem := (Mem s)(p := None)\<rparr>)"

text \<open>Access to the fields of a block, and assignment of one.\<close>

definition deref :: "ptr \<Rightarrow> 'a runtime_scheme \<Rightarrow> 'a runtime_scheme" where
  "deref p s = (if Mem s p = None then fault UseAfterFree s else s)"

definition assign :: "ptr \<Rightarrow> block \<Rightarrow> 'a runtime_scheme \<Rightarrow> 'a runtime_scheme" where
  "assign p b s = (if Mem s p = None then fault UseAfterFree s else s\<lparr>Mem := (Mem s)(p \<mapsto> b)\<rparr>)"

fun data_of :: "block option \<Rightarrow> ptr" where
  "data_of (Some (TcpHandle (Some d))) = d"
| "data_of (Some (WriteReq d)) = d"
| "data_of (Some (ShutdownReq d)) = d"
| "data_of (Some (ConnectReq d)) = d"
| "data_of b = 0"

fun buf_of :: "block option \<Rightarrow> uv_buf_t" where
  "buf_of (Some (ReqData b st)) = b"
| "buf_of (Some (ClientData b l r)) = b"
| "buf_of b = \<lparr>base = 0, len = 0\<rparr>"

fun stream_of :: "block option \<Rightarrow> ptr" where
  "stream_of (Some (ReqData b st)) = st"
| "stream_of b = 0"

text \<open>libuv fills a buffer, and reads one.\<close>

definition store_bytes :: "ptr \<Rightarrow> 8 word list \<Rightarrow> 'a runtime_scheme \<Rightarrow> 'a runtime_scheme" where
  "store_bytes p bs s =
     (case Mem s p of
        Some (Chars cap old) \<Rightarrow>
          if length bs \<le> cap
          then s\<lparr>Mem := (Mem s)(p \<mapsto> Chars cap (bs @ drop (length bs) old))\<rparr> else fault BadAccess s
      | _ \<Rightarrow> fault BadAccess s)"

definition bytes_of :: "uv_buf_t \<Rightarrow> 'a runtime_scheme \<Rightarrow> 8 word list" where
  "bytes_of b s = (case Mem s (base b) of Some (Chars cap bs) \<Rightarrow> take (unat (len b)) bs | _ \<Rightarrow> [])"

definition fetch_bytes :: "uv_buf_t \<Rightarrow> 'a runtime_scheme \<Rightarrow> 'a runtime_scheme" where
  "fetch_bytes b s =
     (case Mem s (base b) of
        Some (Chars cap bs) \<Rightarrow> if unat (len b) \<le> length bs then s else fault BadAccess s
      | _ \<Rightarrow> fault BadAccess s)"

section \<open>Streams\<close>

text \<open>
  The calls, with the status \<open>st\<close> that libuv returns. A request that is accepted is in the stream's queue until its callback.
  A stream that is being closed delivers no more data; its pending requests are called back with an error first,
  then its close callback.
\<close>

definition c_uv_tcp_init :: "ptr \<Rightarrow> 'a runtime_scheme \<Rightarrow> 'a runtime_scheme" where
  "c_uv_tcp_init h s = s\<lparr>Opened := insert h (Opened s)\<rparr>"

definition c_uv_close :: "ptr \<Rightarrow> 'a runtime_scheme \<Rightarrow> 'a runtime_scheme" where
  "c_uv_close h s =
     (if h \<notin> Opened s \<or> h \<in> Closing s then fault ClosedTwice s
      else s\<lparr>Closing := insert h (Closing s), Reading := Reading s - {h}\<rparr>)"

definition c_uv_read_start :: "int \<Rightarrow> ptr \<Rightarrow> 'a runtime_scheme \<Rightarrow> 'a runtime_scheme" where
  "c_uv_read_start st h s = (if st < 0 then s else s\<lparr>Reading := insert h (Reading s)\<rparr>)"

definition c_uv_read_stop :: "ptr \<Rightarrow> 'a runtime_scheme \<Rightarrow> 'a runtime_scheme" where
  "c_uv_read_stop h s = s\<lparr>Reading := Reading s - {h}\<rparr>"

definition c_uv_write :: "int \<Rightarrow> ptr \<Rightarrow> ptr \<Rightarrow> 'a runtime_scheme \<Rightarrow> 'a runtime_scheme" where
  "c_uv_write st req h s = (if st < 0 then s else s\<lparr>Writes := (Writes s)(h := Writes s h @ [req])\<rparr>)"

definition c_uv_shutdown :: "int \<Rightarrow> ptr \<Rightarrow> ptr \<Rightarrow> 'a runtime_scheme \<Rightarrow> 'a runtime_scheme" where
  "c_uv_shutdown st req h s = (if st < 0 then s else s\<lparr>ShuttingDown := (ShuttingDown s)(h := Some req)\<rparr>)"

definition c_uv_tcp_connect :: "int \<Rightarrow> ptr \<Rightarrow> ptr \<Rightarrow> 'a runtime_scheme \<Rightarrow> 'a runtime_scheme" where
  "c_uv_tcp_connect st req h s = (if st < 0 then s else s\<lparr>Connecting := (Connecting s)(h := Some req)\<rparr>)"

text \<open>libuv takes a request out before it calls back, and a handle before its close callback.\<close>

definition write_done :: "ptr \<Rightarrow> 'a runtime_scheme \<Rightarrow> 'a runtime_scheme" where
  "write_done h s = s\<lparr>Writes := (Writes s)(h := tl (Writes s h))\<rparr>"

definition shutdown_done :: "ptr \<Rightarrow> 'a runtime_scheme \<Rightarrow> 'a runtime_scheme" where
  "shutdown_done h s = s\<lparr>ShuttingDown := (ShuttingDown s)(h := None)\<rparr>"

definition connect_done :: "ptr \<Rightarrow> 'a runtime_scheme \<Rightarrow> 'a runtime_scheme" where
  "connect_done h s = s\<lparr>Connecting := (Connecting s)(h := None)\<rparr>"

definition close_done :: "ptr \<Rightarrow> 'a runtime_scheme \<Rightarrow> 'a runtime_scheme" where
  "close_done h s = s\<lparr>Opened := Opened s - {h}, Closing := Closing s - {h}\<rparr>"

definition runtime_init :: "ptr \<Rightarrow> runtime" where
  "runtime_init p = \<lparr>Mem = (\<lambda>_. None), Fresh = p, Faults = [], Opened = {}, Closing = {},
     Reading = {}, Writes = (\<lambda>_. []), ShuttingDown = (\<lambda>_. None), Connecting = (\<lambda>_. None)\<rparr>"

named_theorems c_defs \<open>the calls of the C programs\<close>

declare fault_def [c_defs] malloc_def [c_defs] free_def [c_defs] deref_def [c_defs]
  assign_def [c_defs] c_uv_tcp_init_def [c_defs] c_uv_close_def [c_defs]
  c_uv_read_start_def [c_defs] c_uv_read_stop_def [c_defs] c_uv_write_def [c_defs]
  c_uv_shutdown_def [c_defs] c_uv_tcp_connect_def [c_defs] write_done_def [c_defs]
  shutdown_done_def [c_defs] connect_done_def [c_defs] close_done_def [c_defs]

end
