(* ===== verification/Echo_Uv_Server.thy ===== *)
theory Echo_Uv_Server
  imports C_Runtime
begin

text \<open>
  The echo server of src/examples/echo_uv.c, which is written on libuv alone: its callbacks on the memory and the
  streams of C_Runtime. Every run is a list of what libuv delivers. The server echoes what it
  receives, its memory is safe and leaves nothing behind; and it closes a connection twice when a request fails while another is
  pending.
\<close>

section \<open>State and callbacks\<close>

text \<open>\<open>ServerOpen\<close> and \<open>TokenOpen\<close>: the listening handle and \<open>STOP_TOKEN\<close>, which are no blocks of memory, have not been closed.
  \<open>Received\<close> and \<open>Sent\<close> record, for each stream, the bytes libuv has delivered and those it has written.\<close>

record echo_server = runtime +
  SERVER_READ_BUFFER :: ptr
  CLIENT_COUNT :: int
  ServerOpen :: bool
  TokenOpen :: bool
  Received :: "ptr \<Rightarrow> 8 word list"
  Sent :: "ptr \<Rightarrow> 8 word list"

definition READABLE_BUFFER_SIZE :: nat where
  "READABLE_BUFFER_SIZE = 65536"

definition on_server_close :: "ptr \<Rightarrow> echo_server \<Rightarrow> echo_server" where
  "on_server_close handle s =
     (let s = deref handle s;
          s = free (data_of (Mem s handle)) s
      in free handle s)"

definition on_server_shutdown :: "ptr \<Rightarrow> int \<Rightarrow> echo_server \<Rightarrow> echo_server" where
  "on_server_shutdown req status s =
     (let s = deref req s;
          stream = data_of (Mem s req);
          s = free req s
      in c_uv_close stream s)"

definition on_server_alloc :: "echo_server \<Rightarrow> uv_buf_t" where
  "on_server_alloc s = \<lparr>base = SERVER_READ_BUFFER s, len = of_nat READABLE_BUFFER_SIZE\<rparr>"

definition on_server_write :: "ptr \<Rightarrow> int \<Rightarrow> echo_server \<Rightarrow> echo_server" where
  "on_server_write req status s =
     (let s = deref req s;
          req_data = data_of (Mem s req);
          s = deref req_data s;
          stream = stream_of (Mem s req_data);
          s = free (base (buf_of (Mem s req_data))) s;
          s = free req_data s;
          s = free req s
      in if status < 0 then c_uv_close stream s else s)"

text \<open>\<open>st\<close>: what \<open>uv_shutdown\<close>, or \<open>uv_write\<close>, returns; \<open>eof\<close> is \<open>UV_EOF\<close>. The first branch of \<open>on_server_read\<close>, and the rest.\<close>

definition on_server_read_error :: "int \<Rightarrow> int \<Rightarrow> ptr \<Rightarrow> int \<Rightarrow> echo_server \<Rightarrow> echo_server" where
  "on_server_read_error eof st stream nread s =
     (let s = c_uv_read_stop stream s
      in if nread \<noteq> eof then c_uv_close stream s
         else let (shutdown_handle, s) = malloc (ShutdownReq stream) s;
                  s = c_uv_shutdown st shutdown_handle stream s
              in if st < 0 then c_uv_close stream (free shutdown_handle s) else s)"

definition on_server_read :: "int \<Rightarrow> int \<Rightarrow> ptr \<Rightarrow> int \<Rightarrow> echo_server \<Rightarrow> echo_server" where
  "on_server_read eof st stream nread s =
     (if nread < 0 then on_server_read_error eof st stream nread s
      else
        let buf = \<lparr>base = SERVER_READ_BUFFER s, len = of_int nread\<rparr>;
            (req_data, s) = malloc (ReqData buf stream) s;
            (p, s) = malloc (Chars READABLE_BUFFER_SIZE []) s;
            s = s\<lparr>SERVER_READ_BUFFER := p\<rparr>;
            (write_handle, s) = malloc (WriteReq req_data) s;
            s = c_uv_write st write_handle stream s
        in if st < 0
           then c_uv_close stream (free write_handle (free req_data (free (base buf) s)))
           else s)"

text \<open>\<open>st\<close> and \<open>st'\<close>: what \<open>uv_accept\<close> and \<open>uv_read_start\<close> return. \<open>++CLIENT_COUNT\<close> is the increment of a signed 32-bit \<open>int\<close>.\<close>

definition next_client_id :: "echo_server \<Rightarrow> echo_server" where
  "next_client_id s =
     (if CLIENT_COUNT s \<ge> 2 ^ 31 - 1 then fault Overflow s else s\<lparr>CLIENT_COUNT := CLIENT_COUNT s + 1\<rparr>)"

definition on_connection :: "int \<Rightarrow> int \<Rightarrow> int \<Rightarrow> echo_server \<Rightarrow> echo_server" where
  "on_connection st st' status s =
     (if status < 0 then s
      else
        let (client, s) = malloc (TcpHandle None) s;
            s = c_uv_tcp_init client s;
            (server_data, s) = malloc (ServerData None) s;
            s = assign client (TcpHandle (Some server_data)) s
        in if st < 0 then c_uv_close client s
           else
             let s = next_client_id s;
                 s = assign server_data (ServerData (Some (CLIENT_COUNT s))) s;
                 s = c_uv_read_start st' client s
             in if st' < 0 then c_uv_close client s else s)"

definition stop_callback :: "echo_server \<Rightarrow> echo_server" where
  "stop_callback s =
     (if ServerOpen s \<and> TokenOpen s then s\<lparr>ServerOpen := False, TokenOpen := False\<rparr>
      else fault ClosedTwice s)"

text \<open>
  \<open>UvEchoServer\<close> up to \<open>uv_run\<close>, with what \<open>uv_ip4_addr\<close>, \<open>uv_tcp_bind\<close> and \<open>uv_listen\<close> return, and what follows it. The flag: whether
  the loop is run.
\<close>

definition UvEchoServer_start :: "int \<Rightarrow> int \<Rightarrow> int \<Rightarrow> ptr \<Rightarrow> bool \<times> echo_server" where
  "UvEchoServer_start st_addr st_bind st_listen first =
     (let (p, r) = malloc (Chars READABLE_BUFFER_SIZE []) (runtime_init first);
          s = runtime.extend r \<lparr>SERVER_READ_BUFFER = p, CLIENT_COUNT = 0, ServerOpen = True,
                TokenOpen = True, Received = (\<lambda>_. []), Sent = (\<lambda>_. [])\<rparr>
      in if st_addr < 0 then (False, s)
         else if st_bind < 0 then (False, s)
         else if st_listen < 0 then (False, s)
         else (True, s))"

definition UvEchoServer_finish :: "echo_server \<Rightarrow> echo_server" where
  "UvEchoServer_finish s = free (SERVER_READ_BUFFER s) s"

section \<open>Runs\<close>

text \<open>
  What libuv delivers. \<open>GotData h bs st\<close>: it asks for a buffer, fills it and reports the length. \<open>Written h status\<close>: the oldest
  write of the stream is done, its bytes on their way unless the status is an error.
\<close>

datatype server_event =
    NewConnection int int int
  | GotData ptr "8 word list" int
  | GotError ptr int int
  | Written ptr int
  | ShutDown ptr int
  | HandleGone ptr
  | StopSent

definition write_buffer :: "ptr \<Rightarrow> 'a runtime_scheme \<Rightarrow> uv_buf_t" where
  "write_buffer req s = buf_of (Mem s (data_of (Mem s req)))"

definition got_data :: "int \<Rightarrow> ptr \<Rightarrow> 8 word list \<Rightarrow> int \<Rightarrow> echo_server \<Rightarrow> echo_server" where
  "got_data eof h bs st s =
     (let s = store_bytes (base (on_server_alloc s)) bs s;
          s = s\<lparr>Received := (Received s)(h := Received s h @ bs)\<rparr>
      in on_server_read eof st h (int (length bs)) s)"

definition written :: "ptr \<Rightarrow> int \<Rightarrow> echo_server \<Rightarrow> echo_server" where
  "written h status s =
     (let req = hd (Writes s h);
          s = write_done h s;
          s = (if status < 0 then s
               else let b = write_buffer req s; s = fetch_bytes b s
                    in s\<lparr>Sent := (Sent s)(h := Sent s h @ bytes_of b s)\<rparr>)
      in on_server_write req status s)"

fun server_step :: "int \<Rightarrow> server_event \<Rightarrow> echo_server \<Rightarrow> echo_server" where
  "server_step eof (NewConnection st st' status) s = on_connection st st' status s"
| "server_step eof (GotData h bs st) s = got_data eof h bs st s"
| "server_step eof (GotError h nread st) s = on_server_read eof st h nread s"
| "server_step eof (Written h status) s = written h status s"
| "server_step eof (ShutDown h status) s =
     (case ShuttingDown s h of
        None \<Rightarrow> s
      | Some req \<Rightarrow> on_server_shutdown req status (shutdown_done h s))"
| "server_step eof (HandleGone h) s = on_server_close h (close_done h s)"
| "server_step eof StopSent s = stop_callback s"

text \<open>What libuv may deliver: documented behaviour of its streams.\<close>

fun server_enabled :: "server_event \<Rightarrow> echo_server \<Rightarrow> bool" where
  "server_enabled (NewConnection st st' status) s \<longleftrightarrow> ServerOpen s"
| "server_enabled (GotData h bs st) s \<longleftrightarrow> h \<in> Reading s \<and> length bs \<le> unat (len (on_server_alloc s))"
| "server_enabled (GotError h nread st) s \<longleftrightarrow> h \<in> Reading s \<and> nread < 0"
| "server_enabled (Written h status) s \<longleftrightarrow> Writes s h \<noteq> [] \<and> (h \<in> Closing s \<longrightarrow> status < 0)"
| "server_enabled (ShutDown h status) s \<longleftrightarrow>
     ShuttingDown s h \<noteq> None \<and> Writes s h = [] \<and> (h \<in> Closing s \<longrightarrow> status < 0)"
| "server_enabled (HandleGone h) s \<longleftrightarrow> h \<in> Closing s \<and> Writes s h = [] \<and> ShuttingDown s h = None"
| "server_enabled StopSent s \<longleftrightarrow> TokenOpen s"

primrec server_run :: "int \<Rightarrow> server_event list \<Rightarrow> echo_server \<Rightarrow> echo_server option" where
  "server_run eof [] s = Some s"
| "server_run eof (e # es) s =
     (if server_enabled e s then server_run eof es (server_step eof e s) else None)"

end
