(* ===== verification/Echo_Server_Memory.thy ===== *)
theory Echo_Server_Memory
  imports Echo_Uv_Server
begin

text \<open>
  The memory of the echo server of Echo_Uv_Server: which blocks belong to which stream, what is in flight on it, and
  that each change the callbacks make touches the blocks of one stream, the read buffer and fresh blocks only
  (\<open>local_update\<close>).
\<close>

section \<open>What a stream owns\<close>

definition req_blocks :: "ptr \<Rightarrow> 'a runtime_scheme \<Rightarrow> ptr list" where
  "req_blocks r s = [r, data_of (Mem s r), base (write_buffer r s)]"

definition shutdown_blocks :: "ptr \<Rightarrow> 'a runtime_scheme \<Rightarrow> ptr list" where
  "shutdown_blocks h s = (case ShuttingDown s h of None \<Rightarrow> [] | Some r \<Rightarrow> [r])"

definition owned :: "ptr \<Rightarrow> 'a runtime_scheme \<Rightarrow> ptr list" where
  "owned h s = h # data_of (Mem s h) # concat (map (\<lambda>r. req_blocks r s) (Writes s h)) @ shutdown_blocks h s"

definition write_ok :: "ptr \<Rightarrow> ptr \<Rightarrow> 'a runtime_scheme \<Rightarrow> bool" where
  "write_ok h r s \<longleftrightarrow>
     (\<exists>rd b cap bs. Mem s r = Some (WriteReq rd) \<and> Mem s rd = Some (ReqData b h) \<and>
        Mem s (base b) = Some (Chars cap bs) \<and> unat (len b) \<le> length bs)"

lemma write_okE:
  assumes "write_ok h r s"
  obtains rd b cap bs where "Mem s r = Some (WriteReq rd)" "Mem s rd = Some (ReqData b h)"
    "Mem s (base b) = Some (Chars cap bs)" "unat (len b) \<le> length bs"
  using assms unfolding write_ok_def by blast

definition stream_ok :: "ptr \<Rightarrow> 'a runtime_scheme \<Rightarrow> bool" where
  "stream_ok h s \<longleftrightarrow>
     (\<exists>d c. Mem s h = Some (TcpHandle (Some d)) \<and> Mem s d = Some (ServerData c)) \<and>
     (\<forall>r \<in> set (Writes s h). write_ok h r s) \<and>
     (\<forall>r. ShuttingDown s h = Some r \<longrightarrow> Mem s r = Some (ShutdownReq h)) \<and> distinct (owned h s)"

definition pending :: "ptr \<Rightarrow> 'a runtime_scheme \<Rightarrow> 8 word list" where
  "pending h s = concat (map (\<lambda>r. bytes_of (write_buffer r s) s) (Writes s h))"

lemma req_blocks_agree:
  assumes "\<forall>p \<in> set (req_blocks r s). Mem s' p = Mem s p"
  shows "req_blocks r s' = req_blocks r s" "write_ok h r s \<Longrightarrow> write_ok h r s'"
    "bytes_of (write_buffer r s') s' = bytes_of (write_buffer r s) s"
proof -
  have m: "Mem s' r = Mem s r" "Mem s' (data_of (Mem s r)) = Mem s (data_of (Mem s r))"
    "Mem s' (base (write_buffer r s)) = Mem s (base (write_buffer r s))"
    using assms by (simp_all add: req_blocks_def)
  have w: "write_buffer r s' = write_buffer r s" using m by (simp add: write_buffer_def)
  show "req_blocks r s' = req_blocks r s" using m w by (simp add: req_blocks_def)
  show "bytes_of (write_buffer r s') s' = bytes_of (write_buffer r s) s" using m w by (simp add: bytes_of_def)
  assume "write_ok h r s"
  then show "write_ok h r s'"
  proof (rule write_okE)
    fix rd b cap bs
    assume "Mem s r = Some (WriteReq rd)" "Mem s rd = Some (ReqData b h)"
      "Mem s (base b) = Some (Chars cap bs)" "unat (len b) \<le> length bs"
    then show ?thesis using m by (auto simp: write_ok_def write_buffer_def)
  qed
qed

lemma stream_agree:
  assumes "Writes s' h = Writes s h" "ShuttingDown s' h = ShuttingDown s h"
    and "\<forall>p \<in> set (owned h s). Mem s' p = Mem s p"
  shows "owned h s' = owned h s" "stream_ok h s \<Longrightarrow> stream_ok h s'" "pending h s' = pending h s"
proof -
  have r: "\<forall>p \<in> set (req_blocks r s). Mem s' p = Mem s p" if "r \<in> set (Writes s h)" for r
    using assms(3) that by (auto simp: owned_def)
  note a = req_blocks_agree [OF r]
  have h: "Mem s' h = Mem s h" "Mem s' (data_of (Mem s h)) = Mem s (data_of (Mem s h))"
    "shutdown_blocks h s' = shutdown_blocks h s"
    using assms by (simp_all add: owned_def shutdown_blocks_def)
  show o: "owned h s' = owned h s" using assms(1) h a(1) by (simp add: owned_def cong: map_cong)
  show "pending h s' = pending h s" using assms(1) a(3) by (simp add: pending_def cong: map_cong)
  assume ok: "stream_ok h s"
  then have "\<forall>r. ShuttingDown s h = Some r \<longrightarrow> Mem s' r = Mem s r"
    using assms(3) by (auto simp: owned_def shutdown_blocks_def)
  then show "stream_ok h s'"
    using ok o a(2) h assms(1,2) by (auto simp: stream_ok_def)
qed

section \<open>The invariant of the memory\<close>

definition memory_inv :: "echo_server \<Rightarrow> bool" where
  "memory_inv s \<longleftrightarrow>
     (\<forall>h \<in> Opened s. stream_ok h s \<and> SERVER_READ_BUFFER s \<notin> set (owned h s)) \<and>
     (\<forall>h \<in> Opened s. \<forall>k \<in> Opened s. h \<noteq> k \<longrightarrow> set (owned h s) \<inter> set (owned k s) = {}) \<and>
     (\<exists>bs. Mem s (SERVER_READ_BUFFER s) = Some (Chars READABLE_BUFFER_SIZE bs)) \<and>
     dom (Mem s) = insert (SERVER_READ_BUFFER s) (\<Union>h \<in> Opened s. set (owned h s)) \<and>
     (\<forall>p. Mem s p \<noteq> None \<longrightarrow> p < Fresh s)"

text \<open>The blocks that a callback for the stream \<open>h\<close> may change: its own, the read buffer, and fresh ones.\<close>

definition mine :: "ptr \<Rightarrow> 'a runtime_scheme \<Rightarrow> ptr set" where
  "mine h s = (if h \<in> Opened s then set (owned h s) else {})"

definition touched :: "ptr \<Rightarrow> echo_server \<Rightarrow> ptr set" where
  "touched h s = mine h s \<union> {SERVER_READ_BUFFER s} \<union> {Fresh s..}"

lemma owned_below: "memory_inv s \<Longrightarrow> k \<in> Opened s \<Longrightarrow> p \<in> set (owned k s) \<Longrightarrow> p < Fresh s"
  unfolding memory_inv_def by blast

lemma others_untouched:
  "memory_inv s \<Longrightarrow> k \<in> Opened s \<Longrightarrow> k \<noteq> h \<Longrightarrow> p \<in> set (owned k s) \<Longrightarrow> p \<notin> touched h s"
  using owned_below [of s k p] unfolding memory_inv_def touched_def mine_def by auto

definition local_update :: "ptr \<Rightarrow> echo_server \<Rightarrow> echo_server \<Rightarrow> bool" where
  "local_update h s s' \<longleftrightarrow>
     (\<forall>p. p \<notin> touched h s \<longrightarrow> Mem s' p = Mem s p) \<and>
     (\<forall>k. k \<noteq> h \<longrightarrow> Writes s' k = Writes s k \<and> ShuttingDown s' k = ShuttingDown s k) \<and>
     Opened s' - {h} = Opened s - {h} \<and> (h \<in> Opened s' \<longrightarrow> stream_ok h s') \<and>
     mine h s' \<subseteq> touched h s \<and> SERVER_READ_BUFFER s' \<in> touched h s - mine h s' \<and>
     (\<exists>bs. Mem s' (SERVER_READ_BUFFER s') = Some (Chars READABLE_BUFFER_SIZE bs)) \<and>
     (\<forall>p \<in> touched h s. Mem s' p \<noteq> None \<longrightarrow> p = SERVER_READ_BUFFER s' \<or> p \<in> mine h s') \<and>
     (\<forall>p \<in> touched h s. Mem s' p \<noteq> None \<longrightarrow> p < Fresh s') \<and> Fresh s \<le> Fresh s'"

lemma others_agree:
  assumes "memory_inv s" "local_update h s s'" "k \<in> Opened s" "k \<noteq> h"
  shows "owned k s' = owned k s" "stream_ok k s'" "pending k s' = pending k s"
proof -
  have a: "Writes s' k = Writes s k" "ShuttingDown s' k = ShuttingDown s k"
    "\<forall>p \<in> set (owned k s). Mem s' p = Mem s p"
    using assms others_untouched [OF assms(1,3,4)] by (auto simp: local_update_def)
  have "stream_ok k s" using assms(1,3) by (simp add: memory_inv_def)
  then show "owned k s' = owned k s" "stream_ok k s'" "pending k s' = pending k s"
    using stream_agree [OF a] by blast+
qed

lemma req_allocated:
  assumes "write_ok h r s" "p \<in> set (req_blocks r s)"
  shows "Mem s p \<noteq> None"
  using assms(1)
  by (rule write_okE) (use assms(2) in \<open>auto simp: req_blocks_def write_buffer_def\<close>)

lemma stream_ok_allocated:
  assumes "stream_ok h s" "p \<in> set (owned h s)"
  shows "Mem s p \<noteq> None"
proof -
  have "p = h \<or> p = data_of (Mem s h) \<or> (\<exists>r \<in> set (Writes s h). p \<in> set (req_blocks r s)) \<or>
      ShuttingDown s h = Some p"
    using assms(2) by (auto simp: owned_def shutdown_blocks_def split: option.splits)
  then show ?thesis
    using assms(1) by (elim disjE) (auto simp: stream_ok_def dest: req_allocated)
qed

lemma memory_local_update:
  assumes "memory_inv s" "local_update h s s'"
  shows "memory_inv s'"
proof -
  note o = others_agree [OF assms]
  have opn: "k \<in> Opened s" if "k \<in> Opened s'" "k \<noteq> h" for k
    using assms(2) that by (auto simp: local_update_def)
  have apart: "set (owned k s') \<inter> touched h s = {}" if "k \<in> Opened s'" "k \<noteq> h" for k
    using o(1) [OF opn [OF that] that(2)] others_untouched [OF assms(1) opn [OF that] that(2)] by auto
  have hm: "set (owned h s') \<subseteq> touched h s \<and> SERVER_READ_BUFFER s' \<notin> set (owned h s') \<and> stream_ok h s'"
    if "h \<in> Opened s'"
    using assms(2) that by (auto simp: local_update_def mine_def)
  have rb: "SERVER_READ_BUFFER s' \<in> touched h s" using assms(2) by (simp add: local_update_def)
  have ok: "stream_ok k s' \<and> SERVER_READ_BUFFER s' \<notin> set (owned k s')" if "k \<in> Opened s'" for k
    using that o(2) opn apart hm rb by (cases "k = h") blast+
  have disj: "set (owned k s') \<inter> set (owned l s') = {}" if "k \<in> Opened s'" "l \<in> Opened s'" "k \<noteq> l" for k l
  proof (cases "k = h \<or> l = h")
    case True
    then show ?thesis using that apart hm by blast
  next
    case False
    then show ?thesis
      using that opn o(1) assms(1) by (auto simp: memory_inv_def)
  qed
  have buf: "\<exists>bs. Mem s' (SERVER_READ_BUFFER s') = Some (Chars READABLE_BUFFER_SIZE bs)"
    using assms(2) by (simp add: local_update_def)
  have frame: "p \<notin> touched h s \<Longrightarrow> Mem s' p = Mem s p" and grown: "Fresh s \<le> Fresh s'"
    and "p \<in> touched h s \<Longrightarrow> Mem s' p \<noteq> None \<Longrightarrow> p < Fresh s'" for p
    using assms(2) unfolding local_update_def by blast+
  moreover have "Mem s p \<noteq> None \<Longrightarrow> p < Fresh s" for p
    using assms(1) unfolding memory_inv_def by blast
  ultimately have below: "Mem s' p \<noteq> None \<Longrightarrow> p < Fresh s'" for p
    by (metis less_le_trans)
  have "p = SERVER_READ_BUFFER s' \<or> (\<exists>k \<in> Opened s'. p \<in> set (owned k s'))" if p: "Mem s' p \<noteq> None" for p
  proof (cases "p \<in> touched h s")
    case True
    then have "p = SERVER_READ_BUFFER s' \<or> p \<in> mine h s'"
      using assms(2) p by (auto simp: local_update_def)
    then show ?thesis by (auto simp: mine_def split: if_splits)
  next
    case False
    then have "Mem s p \<noteq> None" using frame p by simp
    then obtain k where k: "k \<in> Opened s" "p \<in> set (owned k s)"
      using assms(1) False by (auto simp: memory_inv_def touched_def)
    then have "k \<noteq> h" using False by (auto simp: touched_def mine_def)
    then have "k \<in> Opened s'" "p \<in> set (owned k s')"
      using k assms(2) o(1) [OF k(1)] by (auto simp: local_update_def)
    then show ?thesis by blast
  qed
  moreover have "Mem s' p \<noteq> None" if "k \<in> Opened s'" "p \<in> set (owned k s')" for k p
    using stream_ok_allocated ok that by blast
  ultimately have "dom (Mem s') = insert (SERVER_READ_BUFFER s') (\<Union>h \<in> Opened s'. set (owned h s'))"
    using buf by blast
  moreover have "\<forall>k \<in> Opened s'. \<forall>l \<in> Opened s'. k \<noteq> l \<longrightarrow> set (owned k s') \<inter> set (owned l s') = {}"
    using disj by simp
  moreover have "\<forall>k \<in> Opened s'. stream_ok k s' \<and> SERVER_READ_BUFFER s' \<notin> set (owned k s')"
    using ok by simp
  moreover have "\<forall>p. Mem s' p \<noteq> None \<longrightarrow> p < Fresh s'" using below by simp
  ultimately show ?thesis using buf unfolding memory_inv_def by (intro conjI)
qed

section \<open>The changes that the callbacks make to the memory\<close>

lemma requests_agree:
  assumes "\<forall>r \<in> set ws. \<forall>p \<in> set (req_blocks r s). Mem s' p = Mem s p"
  shows "concat (map (\<lambda>r. req_blocks r s') ws) = concat (map (\<lambda>r. req_blocks r s) ws)"
    "concat (map (\<lambda>r. bytes_of (write_buffer r s') s') ws) = concat (map (\<lambda>r. bytes_of (write_buffer r s) s) ws)"
    "\<forall>r \<in> set ws. write_ok h r s \<Longrightarrow> \<forall>r \<in> set ws. write_ok h r s'"
proof -
  have r: "\<forall>p \<in> set (req_blocks r s). Mem s' p = Mem s p" if "r \<in> set ws" for r
    using assms that by blast
  note a = req_blocks_agree [OF r]
  show "concat (map (\<lambda>r. req_blocks r s') ws) = concat (map (\<lambda>r. req_blocks r s) ws)"
    "concat (map (\<lambda>r. bytes_of (write_buffer r s') s') ws) = concat (map (\<lambda>r. bytes_of (write_buffer r s) s) ws)"
    using a(1,3) by (simp_all cong: map_cong)
  show "\<forall>r \<in> set ws. write_ok h r s \<Longrightarrow> \<forall>r \<in> set ws. write_ok h r s'"
    using a(2) by blast
qed

text \<open>A write is done: its three blocks are freed.\<close>

definition without_write :: "ptr \<Rightarrow> ptr \<Rightarrow> ptr list \<Rightarrow> 'a runtime_scheme \<Rightarrow> 'a runtime_scheme" where
  "without_write h r rs s =
     s\<lparr>Writes := (Writes s)(h := rs),
       Mem := (Mem s)(base (write_buffer r s) := None, data_of (Mem s r) := None, r := None)\<rparr>"

lemma without_write_stream:
  assumes "stream_ok h s" "Writes s h = r # rs"
  shows "stream_ok h (without_write h r rs s)"
    "owned h s = h # data_of (Mem s h) # req_blocks r s @ tl (tl (owned h (without_write h r rs s)))"
    "take 2 (owned h (without_write h r rs s)) = [h, data_of (Mem s h)]"
    "pending h s = bytes_of (write_buffer r s) s @ pending h (without_write h r rs s)"
proof -
  let ?s = "without_write h r rs s"
  let ?rest = "concat (map (\<lambda>r. req_blocks r s) rs) @ shutdown_blocks h s"
  have o: "owned h s = h # data_of (Mem s h) # req_blocks r s @ ?rest"
    using assms(2) by (simp add: owned_def)
  have d: "distinct (owned h s)" using assms(1) by (simp add: stream_ok_def)
  have same: "Mem ?s p = Mem s p" if "p \<notin> set (req_blocks r s)" for p
    using that by (simp add: without_write_def req_blocks_def)
  have apart: "set (req_blocks r s) \<inter> ({h, data_of (Mem s h)} \<union> set ?rest) = {}"
    using d unfolding o by auto
  have "\<forall>r' \<in> set rs. \<forall>p \<in> set (req_blocks r' s). Mem ?s p = Mem s p"
    using apart same by (intro ballI) (simp, blast)
  note a = requests_agree [OF this]
  have h: "Mem ?s h = Mem s h" "Mem ?s (data_of (Mem s h)) = Mem s (data_of (Mem s h))"
    using apart same by blast+
  have sh: "shutdown_blocks h ?s = shutdown_blocks h s" "ShuttingDown ?s h = ShuttingDown s h" "Writes ?s h = rs"
    by (simp_all add: without_write_def shutdown_blocks_def)
  have o': "owned h ?s = h # data_of (Mem s h) # ?rest"
    using h sh a(1) by (simp add: owned_def)
  then show "owned h s = h # data_of (Mem s h) # req_blocks r s @ tl (tl (owned h ?s))"
    "take 2 (owned h ?s) = [h, data_of (Mem s h)]" using o by simp_all
  show "pending h s = bytes_of (write_buffer r s) s @ pending h ?s"
    using a(2) sh assms(2) by (simp add: pending_def)
  have "ShuttingDown s h = Some q \<Longrightarrow> Mem ?s q = Mem s q" for q
    using apart same by (auto simp: shutdown_blocks_def)
  then show "stream_ok h ?s"
    using assms h sh a(3) d o o' by (auto simp: stream_ok_def)
qed

lemma stream_ok_of: "memory_inv s \<Longrightarrow> h \<in> Opened s \<Longrightarrow> stream_ok h s"
  by (simp add: memory_inv_def)

lemma fresh_unallocated: "memory_inv s \<Longrightarrow> Fresh s \<le> p \<Longrightarrow> Mem s p = None"
  unfolding memory_inv_def by (metis leD)

lemma unowned_unallocated:
  assumes "memory_inv s" "h \<in> Opened s" "p \<in> touched h s" "Mem s p \<noteq> None"
  shows "p = SERVER_READ_BUFFER s \<or> p \<in> set (owned h s)"
  using assms fresh_unallocated [OF assms(1)] by (auto simp: touched_def mine_def)

text \<open>Freeing some of a stream's blocks.\<close>

lemma local_free:
  assumes "memory_inv s" "h \<in> Opened s" "F \<subseteq> set (owned h s)"
    and "Mem s' = (\<lambda>p. if p \<in> F then None else Mem s p)"
    and "\<forall>k. k \<noteq> h \<longrightarrow> Writes s' k = Writes s k \<and> ShuttingDown s' k = ShuttingDown s k"
    and "Opened s' - {h} = Opened s - {h}" "SERVER_READ_BUFFER s' = SERVER_READ_BUFFER s" "Fresh s' = Fresh s"
    and "h \<in> Opened s' \<Longrightarrow> stream_ok h s' \<and> set (owned h s') = set (owned h s) - F"
    and "h \<notin> Opened s' \<Longrightarrow> F = set (owned h s)"
  shows "local_update h s s'"
proof -
  have rb: "SERVER_READ_BUFFER s \<notin> set (owned h s)"
    "\<exists>bs. Mem s (SERVER_READ_BUFFER s) = Some (Chars READABLE_BUFFER_SIZE bs)"
    using assms(1,2) by (auto simp: memory_inv_def)
  have m: "mine h s' = set (owned h s) - F" using assms(9,10) by (cases "h \<in> Opened s'") (auto simp: mine_def)
  have t: "set (owned h s) \<subseteq> touched h s" "SERVER_READ_BUFFER s \<in> touched h s"
    using assms(2) by (auto simp: touched_def mine_def)
  have "\<forall>p. p \<notin> touched h s \<longrightarrow> Mem s' p = Mem s p" using assms(3,4) t by auto
  moreover have "\<exists>bs. Mem s' (SERVER_READ_BUFFER s') = Some (Chars READABLE_BUFFER_SIZE bs)"
    using rb assms(3,4,7) by auto
  moreover have "\<forall>p \<in> touched h s. Mem s' p \<noteq> None \<longrightarrow> p = SERVER_READ_BUFFER s' \<or> p \<in> mine h s'"
    using unowned_unallocated [OF assms(1,2)] assms(4,7) m by auto
  moreover have "\<forall>p \<in> touched h s. Mem s' p \<noteq> None \<longrightarrow> p < Fresh s'"
    using assms(1,4,8) by (auto simp: memory_inv_def split: if_splits)
  moreover have "mine h s' \<subseteq> touched h s" "SERVER_READ_BUFFER s' \<in> touched h s - mine h s'"
    using m t rb assms(7) by auto
  ultimately show ?thesis
    unfolding local_update_def using assms(5,6,8,9) by (intro conjI) (simp_all | blast)+
qed

lemma local_without_write:
  assumes "memory_inv s" "h \<in> Opened s" "Writes s h = r # rs"
  shows "local_update h s (without_write h r rs s)"
proof (rule local_free [OF assms(1,2), where F = "set (req_blocks r s)"])
  let ?s = "without_write h r rs s"
  note ok = stream_ok_of [OF assms(1,2)]
  note w = without_write_stream [OF ok assms(3)]
  show "set (req_blocks r s) \<subseteq> set (owned h s)" using assms(3) by (auto simp: owned_def)
  show "Mem ?s = (\<lambda>p. if p \<in> set (req_blocks r s) then None else Mem s p)"
    by (auto simp: without_write_def req_blocks_def fun_eq_iff)
  have "distinct (owned h s)" using ok by (simp add: stream_ok_def)
  moreover obtain xs where "owned h ?s = h # data_of (Mem s h) # xs"
    using w(3) by (metis append_take_drop_id append_Cons append_Nil)
  ultimately show "stream_ok h ?s \<and> set (owned h ?s) = set (owned h s) - set (req_blocks r s)"
    using w(1,2) by auto
qed (use assms(2) in \<open>simp_all add: without_write_def\<close>)

text \<open>A shutdown is done: its request is freed.\<close>

definition without_shutdown :: "ptr \<Rightarrow> ptr \<Rightarrow> 'a runtime_scheme \<Rightarrow> 'a runtime_scheme" where
  "without_shutdown h r s =
     s\<lparr>ShuttingDown := (ShuttingDown s)(h := None), Mem := (Mem s)(r := None)\<rparr>"

lemma without_shutdown_stream:
  assumes "stream_ok h s" "ShuttingDown s h = Some r"
  shows "stream_ok h (without_shutdown h r s)" "owned h s = owned h (without_shutdown h r s) @ [r]"
    "pending h (without_shutdown h r s) = pending h s"
proof -
  let ?s = "without_shutdown h r s"
  let ?rest = "h # data_of (Mem s h) # concat (map (\<lambda>r. req_blocks r s) (Writes s h))"
  have o: "owned h s = ?rest @ [r]" using assms(2) by (simp add: owned_def shutdown_blocks_def)
  have d: "distinct (owned h s)" using assms(1) by (simp add: stream_ok_def)
  then have "r \<notin> set ?rest" unfolding o by auto
  then have same: "Mem ?s p = Mem s p" if "p \<in> set ?rest" for p using that by (auto simp: without_shutdown_def)
  have "\<forall>r' \<in> set (Writes s h). \<forall>p \<in> set (req_blocks r' s). Mem ?s p = Mem s p" using same by auto
  note a = requests_agree [OF this]
  have h: "Mem ?s h = Mem s h" "Mem ?s (data_of (Mem s h)) = Mem s (data_of (Mem s h))" using same by auto
  have sh: "shutdown_blocks h ?s = []" "ShuttingDown ?s h = None" "Writes ?s h = Writes s h"
    by (simp_all add: without_shutdown_def shutdown_blocks_def)
  have o': "owned h ?s = ?rest" using h sh a(1) by (simp add: owned_def)
  then show "owned h s = owned h ?s @ [r]" using o by simp
  show "pending h ?s = pending h s" using a(2) sh by (simp add: pending_def)
  show "stream_ok h ?s" using assms h sh a(3) d o o' by (auto simp: stream_ok_def)
qed

lemma local_without_shutdown:
  assumes "memory_inv s" "h \<in> Opened s" "ShuttingDown s h = Some r"
  shows "local_update h s (without_shutdown h r s)"
proof (rule local_free [OF assms(1,2), where F = "{r}"])
  let ?s = "without_shutdown h r s"
  note ok = stream_ok_of [OF assms(1,2)]
  note w = without_shutdown_stream [OF ok assms(3)]
  show "{r} \<subseteq> set (owned h s)" using w(2) by simp
  show "Mem ?s = (\<lambda>p. if p \<in> {r} then None else Mem s p)"
    by (auto simp: without_shutdown_def fun_eq_iff)
  have "distinct (owned h s)" using ok by (simp add: stream_ok_def)
  then show "stream_ok h ?s \<and> set (owned h ?s) = set (owned h s) - {r}"
    using w(1,2) by auto
qed (use assms(2) in \<open>simp_all add: without_shutdown_def\<close>)

text \<open>Accepted requests, each with its fresh blocks.\<close>

definition with_shutdown :: "ptr \<Rightarrow> 'a runtime_scheme \<Rightarrow> 'a runtime_scheme" where
  "with_shutdown h s =
     s\<lparr>Mem := (Mem s)(Fresh s \<mapsto> ShutdownReq h), Fresh := Fresh s + 1,
       ShuttingDown := (ShuttingDown s)(h := Some (Fresh s))\<rparr>"

lemma local_with_shutdown:
  assumes "memory_inv s" "h \<in> Opened s" "ShuttingDown s h = None"
  shows "local_update h s (with_shutdown h s)" "pending h (with_shutdown h s) = pending h s"
proof -
  let ?s = "with_shutdown h s"
  note ok = stream_ok_of [OF assms(1,2)]
  have fresh: "Fresh s \<notin> set (owned h s)" using owned_below [OF assms(1,2)] by auto
  have same: "Mem ?s p = Mem s p" if "p \<in> set (owned h s)" for p
    using that fresh by (auto simp: with_shutdown_def)
  have "\<forall>r' \<in> set (Writes s h). \<forall>p \<in> set (req_blocks r' s). Mem ?s p = Mem s p"
    using same by (auto simp: owned_def)
  note a = requests_agree [OF this]
  have h: "Mem ?s h = Mem s h" "Mem ?s (data_of (Mem s h)) = Mem s (data_of (Mem s h))"
    using same by (auto simp: owned_def)
  have sh: "shutdown_blocks h ?s = [Fresh s]" "shutdown_blocks h s = []" "Writes ?s h = Writes s h"
    "ShuttingDown ?s h = Some (Fresh s)" "Mem ?s (Fresh s) = Some (ShutdownReq h)"
    using assms(3) by (simp_all add: with_shutdown_def shutdown_blocks_def)
  have o: "owned h ?s = owned h s @ [Fresh s]" using h sh a(1) by (simp add: owned_def)
  show "pending h ?s = pending h s" using a(2) sh by (simp add: pending_def)
  have ok': "stream_ok h ?s" using ok fresh h sh a(3) o by (auto simp: stream_ok_def)
  have m: "mine h ?s = insert (Fresh s) (set (owned h s))" "h \<in> Opened ?s"
    using assms(2) o by (auto simp: mine_def with_shutdown_def)
  have rb: "SERVER_READ_BUFFER s \<notin> set (owned h s)" "SERVER_READ_BUFFER s < Fresh s"
    "\<exists>bs. Mem s (SERVER_READ_BUFFER s) = Some (Chars READABLE_BUFFER_SIZE bs)"
    using assms(1,2) by (auto simp: memory_inv_def)
  have t: "touched h s = set (owned h s) \<union> {SERVER_READ_BUFFER s} \<union> {Fresh s..}"
    using assms(2) by (simp add: touched_def mine_def)
  have "\<forall>p \<in> touched h s. Mem ?s p \<noteq> None \<longrightarrow> p = SERVER_READ_BUFFER ?s \<or> p \<in> mine h ?s"
    using unowned_unallocated [OF assms(1,2)] m by (auto simp: with_shutdown_def split: if_splits)
  moreover have "\<forall>p \<in> touched h s. Mem ?s p \<noteq> None \<longrightarrow> p < Fresh ?s"
    using assms(1) by (auto simp: with_shutdown_def memory_inv_def less_Suc_eq split: if_splits)
  ultimately show "local_update h s ?s"
    unfolding local_update_def using ok' m rb t by (auto simp: with_shutdown_def)
qed

text \<open>A delivery of \<open>n\<close> bytes is echoed: the read buffer, which now holds \<open>c\<close>, goes to the write, and a new one is allocated.\<close>

definition with_write :: "ptr \<Rightarrow> 8 word list \<Rightarrow> nat \<Rightarrow> echo_server \<Rightarrow> echo_server" where
  "with_write h c n s =
     s\<lparr>Mem := (Mem s)(SERVER_READ_BUFFER s \<mapsto> Chars READABLE_BUFFER_SIZE c,
         Fresh s \<mapsto> ReqData \<lparr>base = SERVER_READ_BUFFER s, len = of_nat n\<rparr> h,
         Suc (Fresh s) \<mapsto> Chars READABLE_BUFFER_SIZE [], Suc (Suc (Fresh s)) \<mapsto> WriteReq (Fresh s)),
       Fresh := Suc (Suc (Suc (Fresh s))), SERVER_READ_BUFFER := Suc (Fresh s),
       Writes := (Writes s)(h := Writes s h @ [Suc (Suc (Fresh s))])\<rparr>"

lemma local_with_write:
  assumes "memory_inv s" "h \<in> Opened s" "n \<le> length c" "n \<le> READABLE_BUFFER_SIZE"
  shows "local_update h s (with_write h c n s)" "pending h (with_write h c n s) = pending h s @ take n c"
proof -
  let ?s = "with_write h c n s" and ?r = "Suc (Suc (Fresh s))"
  note ok = stream_ok_of [OF assms(1,2)]
  have rb: "SERVER_READ_BUFFER s \<notin> set (owned h s)" "SERVER_READ_BUFFER s < Fresh s"
    using assms(1,2) by (auto simp: memory_inv_def)
  have below: "p < Fresh s" if "p \<in> set (owned h s)" for p using owned_below [OF assms(1,2) that] .
  have same: "Mem ?s p = Mem s p" if "p \<in> set (owned h s)" for p
    using below [OF that] that rb by (auto simp: with_write_def)
  have "\<forall>r' \<in> set (Writes s h). \<forall>p \<in> set (req_blocks r' s). Mem ?s p = Mem s p"
    using same by (auto simp: owned_def)
  note a = requests_agree [OF this]
  have h: "Mem ?s h = Mem s h" "Mem ?s (data_of (Mem s h)) = Mem s (data_of (Mem s h))"
    using same by (auto simp: owned_def)
  have n: "unat (of_nat n :: 64 word) = n"
    using assms(4) by (simp add: READABLE_BUFFER_SIZE_def unat_of_nat)
  have w: "write_buffer ?r ?s = \<lparr>base = SERVER_READ_BUFFER s, len = of_nat n\<rparr>"
    "req_blocks ?r ?s = [?r, Fresh s, SERVER_READ_BUFFER s]" "write_ok h ?r ?s"
    "bytes_of (write_buffer ?r ?s) ?s = take n c"
    using rb(2) n assms(3) by (simp_all add: with_write_def write_buffer_def req_blocks_def write_ok_def bytes_of_def)
  have sh: "shutdown_blocks h ?s = shutdown_blocks h s" "Writes ?s h = Writes s h @ [?r]"
    "ShuttingDown ?s h = ShuttingDown s h"
    by (simp_all add: with_write_def shutdown_blocks_def)
  have o: "owned h ?s = h # data_of (Mem s h) # concat (map (\<lambda>r. req_blocks r s) (Writes s h)) @
      [?r, Fresh s, SERVER_READ_BUFFER s] @ shutdown_blocks h s"
    using h sh a(1) w(2) by (simp add: owned_def)
  have so: "set (owned h ?s) = set (owned h s) \<union> {?r, Fresh s, SERVER_READ_BUFFER s}"
    unfolding o by (auto simp: owned_def)
  show "pending h ?s = pending h s @ take n c" using a(2) sh w(4) by (simp add: pending_def)
  have "distinct (owned h s)" using ok by (simp add: stream_ok_def)
  moreover have "Fresh s \<notin> set (owned h s)" "?r \<notin> set (owned h s)" using below by fastforce+
  ultimately have d: "distinct (owned h ?s)"
    unfolding o using rb by (auto simp: owned_def)
  have "ShuttingDown s h = Some q \<Longrightarrow> Mem ?s q = Mem s q" for q
    using same by (auto simp: owned_def shutdown_blocks_def)
  then have ok': "stream_ok h ?s" using ok d h sh a(3) w(3) by (auto simp: stream_ok_def)
  have m: "mine h ?s = set (owned h s) \<union> {?r, Fresh s, SERVER_READ_BUFFER s}"
    using assms(2) so by (simp add: mine_def with_write_def)
  have t: "touched h s = set (owned h s) \<union> {SERVER_READ_BUFFER s} \<union> {Fresh s..}"
    using assms(2) by (simp add: touched_def mine_def)
  have "\<forall>p \<in> touched h s. Mem ?s p \<noteq> None \<longrightarrow> p = SERVER_READ_BUFFER ?s \<or> p \<in> mine h ?s"
    using unowned_unallocated [OF assms(1,2)] m by (auto simp: with_write_def split: if_splits)
  moreover have "\<forall>p \<in> touched h s. Mem ?s p \<noteq> None \<longrightarrow> p < Fresh ?s"
    using assms(1) by (auto simp: with_write_def memory_inv_def less_Suc_eq split: if_splits)
  moreover have "SERVER_READ_BUFFER ?s \<in> touched h s - mine h ?s"
    using m t below rb by (fastforce simp: with_write_def)
  moreover have "mine h ?s \<subseteq> touched h s" using m t by auto
  ultimately show "local_update h s ?s"
    unfolding local_update_def using ok' t by (auto simp: with_write_def)
qed

text \<open>A delivery whose write is refused: only the read buffer has been replaced.\<close>

definition new_buffer :: "echo_server \<Rightarrow> echo_server" where
  "new_buffer s =
     s\<lparr>SERVER_READ_BUFFER := Suc (Fresh s), Fresh := Suc (Suc (Suc (Fresh s))),
       Mem := (Mem s)(SERVER_READ_BUFFER s := None, Suc (Fresh s) \<mapsto> Chars READABLE_BUFFER_SIZE [])\<rparr>"

lemma local_new_buffer:
  assumes "memory_inv s" "h \<in> Opened s"
  shows "local_update h s (new_buffer s)" "pending h (new_buffer s) = pending h s"
proof -
  let ?s = "new_buffer s"
  note ok = stream_ok_of [OF assms]
  have rb: "SERVER_READ_BUFFER s \<notin> set (owned h s)" using assms by (auto simp: memory_inv_def)
  have below: "p < Fresh s" if "p \<in> set (owned h s)" for p using owned_below [OF assms that] .
  have "\<forall>p \<in> set (owned h s). Mem ?s p = Mem s p" using below rb by (fastforce simp: new_buffer_def)
  note a = stream_agree [OF _ _ this]
  show "pending h ?s = pending h s" using a(3) by (simp add: new_buffer_def)
  have o: "owned h ?s = owned h s" "stream_ok h ?s" using a(1,2) ok by (simp_all add: new_buffer_def)
  have m: "mine h ?s = set (owned h s)" using assms(2) o by (simp add: mine_def new_buffer_def)
  have t: "touched h s = set (owned h s) \<union> {SERVER_READ_BUFFER s} \<union> {Fresh s..}"
    using assms(2) by (simp add: touched_def mine_def)
  have "\<forall>p \<in> touched h s. Mem ?s p \<noteq> None \<longrightarrow> p = SERVER_READ_BUFFER ?s \<or> p \<in> mine h ?s"
    using unowned_unallocated [OF assms] m by (auto simp: new_buffer_def split: if_splits)
  moreover have "\<forall>p \<in> touched h s. Mem ?s p \<noteq> None \<longrightarrow> p < Fresh ?s"
    using assms(1) by (auto simp: new_buffer_def memory_inv_def less_Suc_eq split: if_splits)
  moreover have "SERVER_READ_BUFFER ?s \<in> touched h s - mine h ?s"
    using m t below by (fastforce simp: new_buffer_def)
  ultimately show "local_update h s ?s"
    unfolding local_update_def using o m t by (auto simp: new_buffer_def)
qed

text \<open>A block that is freed at once.\<close>

lemma local_skip:
  assumes "memory_inv s" "h \<in> Opened s" "s' = s\<lparr>Fresh := n\<rparr>" "Fresh s \<le> n"
  shows "local_update h s s'" "pending h s' = pending h s"
proof -
  have "\<forall>p \<in> set (owned h s). Mem s' p = Mem s p" using assms(3) by simp
  note a = stream_agree [OF _ _ this]
  show "pending h s' = pending h s" using a(3) assms(3) by simp
  have o: "owned h s' = owned h s" "stream_ok h s'" using a(1,2) stream_ok_of [OF assms(1,2)] assms(3) by simp_all
  have m: "mine h s' = set (owned h s)" using assms(2,3) o by (simp add: mine_def)
  have "SERVER_READ_BUFFER s \<notin> set (owned h s)"
    "\<exists>bs. Mem s (SERVER_READ_BUFFER s) = Some (Chars READABLE_BUFFER_SIZE bs)"
    using assms(1,2) by (auto simp: memory_inv_def)
  moreover have "\<forall>p. Mem s p \<noteq> None \<longrightarrow> p < n" using assms(1,4) unfolding memory_inv_def by (metis less_le_trans)
  ultimately show "local_update h s s'"
    unfolding local_update_def using o m assms(2,3,4) unowned_unallocated [OF assms(1,2)]
    by (auto simp: touched_def mine_def)
qed

text \<open>A new connection, and one whose close callback has run.\<close>

definition with_stream :: "int option \<Rightarrow> 'a runtime_scheme \<Rightarrow> 'a runtime_scheme" where
  "with_stream c s =
     s\<lparr>Mem := (Mem s)(Fresh s \<mapsto> TcpHandle (Some (Suc (Fresh s))), Suc (Fresh s) \<mapsto> ServerData c),
       Fresh := Suc (Suc (Fresh s)), Opened := insert (Fresh s) (Opened s)\<rparr>"

lemma local_with_stream:
  assumes "memory_inv s" "Fresh s \<notin> Opened s" "Writes s (Fresh s) = []" "ShuttingDown s (Fresh s) = None"
  shows "local_update (Fresh s) s (with_stream c s)" "pending (Fresh s) (with_stream c s) = []"
proof -
  let ?s = "with_stream c s"
  have o: "owned (Fresh s) ?s = [Fresh s, Suc (Fresh s)]" "stream_ok (Fresh s) ?s"
    using assms(3,4) by (auto simp: with_stream_def owned_def shutdown_blocks_def stream_ok_def)
  show "pending (Fresh s) ?s = []" using assms(3) by (simp add: pending_def with_stream_def)
  have m: "mine (Fresh s) ?s = {Fresh s, Suc (Fresh s)}" using o by (simp add: mine_def with_stream_def)
  have t: "touched (Fresh s) s = {SERVER_READ_BUFFER s} \<union> {Fresh s..}"
    using assms(2) by (simp add: touched_def mine_def)
  have rb: "SERVER_READ_BUFFER s < Fresh s" "\<exists>bs. Mem s (SERVER_READ_BUFFER s) = Some (Chars READABLE_BUFFER_SIZE bs)"
    using assms(1) by (auto simp: memory_inv_def)
  have "\<forall>p \<in> touched (Fresh s) s. Mem ?s p \<noteq> None \<longrightarrow> p = SERVER_READ_BUFFER ?s \<or> p \<in> mine (Fresh s) ?s"
    using fresh_unallocated [OF assms(1)] m t by (auto simp: with_stream_def split: if_splits)
  moreover have "\<forall>p \<in> touched (Fresh s) s. Mem ?s p \<noteq> None \<longrightarrow> p < Fresh ?s"
    using assms(1) by (auto simp: with_stream_def memory_inv_def less_Suc_eq split: if_splits)
  ultimately show "local_update (Fresh s) s ?s"
    unfolding local_update_def using o m t rb by (auto simp: with_stream_def)
qed

definition without_stream :: "ptr \<Rightarrow> 'a runtime_scheme \<Rightarrow> 'a runtime_scheme" where
  "without_stream h s =
     s\<lparr>Mem := (Mem s)(data_of (Mem s h) := None, h := None), Opened := Opened s - {h},
       Closing := Closing s - {h}\<rparr>"

lemma local_without_stream:
  assumes "memory_inv s" "h \<in> Opened s" "Writes s h = []" "ShuttingDown s h = None"
  shows "local_update h s (without_stream h s)"
proof (rule local_free [OF assms(1,2), where F = "set (owned h s)"])
  show "Mem (without_stream h s) = (\<lambda>p. if p \<in> set (owned h s) then None else Mem s p)"
    using assms(3,4) by (auto simp: without_stream_def owned_def shutdown_blocks_def fun_eq_iff)
qed (simp_all add: without_stream_def)

end
