(* ===== verification/Echo_Server_Safety.thy ===== *)
theory Echo_Server_Safety
  imports Echo_Server_Memory "HOL-Library.Sublist"
begin

text \<open>
  What holds in every run of the echo server of Echo_Uv_Server: the callbacks as the changes of
  Echo_Server_Memory, the invariant of the runs, and the properties that follow.
\<close>

section \<open>The invariant\<close>

definition stream_inv :: "ptr \<Rightarrow> echo_server \<Rightarrow> bool" where
  "stream_inv h s \<longleftrightarrow>
     (h \<in> Closing s \<longrightarrow> h \<in> Opened s) \<and>
     (h \<in> Reading s \<longrightarrow> h \<in> Opened s \<and> h \<notin> Closing s \<and> ShuttingDown s h = None) \<and>
     (h \<notin> Opened s \<longrightarrow> Writes s h = [] \<and> ShuttingDown s h = None) \<and>
     prefix (Sent s h) (Received s h) \<and>
     (h \<in> Opened s \<and> h \<notin> Closing s \<longrightarrow> Sent s h @ pending h s = Received s h) \<and>
     (Fresh s \<le> h \<longrightarrow> Received s h = [] \<and> Sent s h = [])"

definition server_inv :: "echo_server \<Rightarrow> bool" where
  "server_inv s \<longleftrightarrow> memory_inv s \<and> (\<forall>h. stream_inv h s) \<and> set (Faults s) \<subseteq> {ClosedTwice, Overflow}"

definition same_memory :: "echo_server \<Rightarrow> echo_server \<Rightarrow> bool" where
  "same_memory s s' \<longleftrightarrow> Mem s' = Mem s \<and> Fresh s' = Fresh s \<and> Opened s' = Opened s \<and>
     Writes s' = Writes s \<and> ShuttingDown s' = ShuttingDown s \<and> SERVER_READ_BUFFER s' = SERVER_READ_BUFFER s"

lemma same_memory_views:
  assumes "same_memory s s'"
  shows "memory_inv s' = memory_inv s" "pending h s' = pending h s" "stream_ok h s' = stream_ok h s"
    "owned h s' = owned h s"
proof -
  have w: "write_buffer r s' = write_buffer r s" "bytes_of b s' = bytes_of b s"
    "req_blocks r s' = req_blocks r s" "write_ok h r s' = write_ok h r s" "shutdown_blocks h s' = shutdown_blocks h s"
    for r b h using assms
    by (simp_all add: same_memory_def write_buffer_def bytes_of_def req_blocks_def write_ok_def shutdown_blocks_def)
  have o: "owned h s' = owned h s" for h using assms w by (simp add: same_memory_def owned_def)
  have ok: "stream_ok h s' = stream_ok h s" for h using assms w o by (simp add: same_memory_def stream_ok_def)
  show "memory_inv s' = memory_inv s" using assms o ok by (simp add: same_memory_def memory_inv_def)
  show "pending h s' = pending h s" using assms w by (simp add: same_memory_def pending_def)
  show "stream_ok h s' = stream_ok h s" "owned h s' = owned h s" using o ok by simp_all
qed

lemma inv_transfer:
  assumes "server_inv s" "local_update h s s1" "same_memory s1 s'"
    and "\<And>k. k \<noteq> h \<Longrightarrow> (k \<in> Closing s' \<longleftrightarrow> k \<in> Closing s) \<and> (k \<in> Reading s' \<longleftrightarrow> k \<in> Reading s) \<and>
      Received s' k = Received s k \<and> Sent s' k = Sent s k"
    and "stream_inv h s'" "set (Faults s') \<subseteq> {ClosedTwice, Overflow}"
  shows "server_inv s'"
proof -
  have m: "memory_inv s" using assms(1) by (simp add: server_inv_def)
  have "stream_inv k s'" if "k \<noteq> h" for k
  proof -
    have i: "stream_inv k s" using assms(1) by (simp add: server_inv_def)
    have q: "Writes s' k = Writes s k" "ShuttingDown s' k = ShuttingDown s k" "k \<in> Opened s' \<longleftrightarrow> k \<in> Opened s"
      "Fresh s \<le> Fresh s'"
      using assms(2,3) that by (auto simp: local_update_def same_memory_def)
    have p: "k \<in> Opened s \<Longrightarrow> pending k s' = pending k s"
      using others_agree(3) [OF m assms(2)] that same_memory_views(2) [OF assms(3)] by simp
    show ?thesis
      using i q assms(4) [OF that] p by (auto simp: stream_inv_def)
  qed
  moreover have "memory_inv s'"
    using memory_local_update [OF m assms(2)] same_memory_views(1) [OF assms(3)] by simp
  moreover have "stream_inv k s'" for k using calculation(1) assms(5) by (cases "k = h") simp_all
  ultimately show ?thesis using assms(6) by (simp add: server_inv_def)
qed

text \<open>Closing a stream.\<close>

lemma close_memory: "same_memory s (c_uv_close h s)"
  by (simp add: c_defs same_memory_def)

lemma close_stream:
  "k \<noteq> h \<Longrightarrow> (k \<in> Closing (c_uv_close h s) \<longleftrightarrow> k \<in> Closing s) \<and> (k \<in> Reading (c_uv_close h s) \<longleftrightarrow> k \<in> Reading s)"
  "Received (c_uv_close h s) = Received s" "Sent (c_uv_close h s) = Sent s"
  "set (Faults (c_uv_close h s)) \<subseteq> insert ClosedTwice (set (Faults s))"
  "h \<in> Opened s \<Longrightarrow> h \<in> Closing (c_uv_close h s)"
  "h \<in> Opened s \<Longrightarrow> h \<notin> Closing s \<or> h \<notin> Reading s \<Longrightarrow> h \<notin> Reading (c_uv_close h s)"
  by (auto simp: c_defs)

lemma inv_close:
  assumes "server_inv s" "local_update h s s1" "h \<in> Opened s1"
    and "\<And>k. k \<noteq> h \<Longrightarrow> (k \<in> Closing s1 \<longleftrightarrow> k \<in> Closing s) \<and> (k \<in> Reading s1 \<longleftrightarrow> k \<in> Reading s) \<and>
      Received s1 k = Received s k \<and> Sent s1 k = Sent s k"
    and "prefix (Sent s1 h) (Received s1 h)" "set (Faults s1) \<subseteq> {ClosedTwice, Overflow}"
    and "h \<in> Closing s1 \<longrightarrow> h \<notin> Reading s1" "h < Fresh s1"
  shows "server_inv (c_uv_close h s1)"
proof (rule inv_transfer [OF assms(1,2) close_memory])
  show "stream_inv h (c_uv_close h s1)"
    using assms(3,5,7,8) close_stream(5,6) [OF assms(3)] close_memory [of s1 h]
    by (auto simp: stream_inv_def close_stream(2,3) same_memory_def)
  show "set (Faults (c_uv_close h s1)) \<subseteq> {ClosedTwice, Overflow}"
    using close_stream(4) [of h s1] assms(6) by blast
qed (simp add: close_stream assms(4))

section \<open>The callbacks\<close>

lemma distinct_request:
  assumes "stream_ok h s" "Writes s h = r # rs"
  obtains rd b cap bs where "Mem s r = Some (WriteReq rd)" "Mem s rd = Some (ReqData b h)"
    "Mem s (base b) = Some (Chars cap bs)" "unat (len b) \<le> length bs" "distinct [r, rd, base b]"
proof -
  have "write_ok h r s" using assms by (simp add: stream_ok_def)
  moreover have "distinct (req_blocks r s)" using assms by (simp add: stream_ok_def owned_def)
  ultimately show thesis using that by (auto simp: write_ok_def req_blocks_def write_buffer_def)
qed

lemma on_server_write_eq:
  assumes "Mem s r = Some (WriteReq rd)" "Mem s rd = Some (ReqData b h)" "Mem s (base b) = Some x"
    "distinct [r, rd, base b]"
  shows "on_server_write r status s =
    (let s = s\<lparr>Mem := (Mem s)(base b := None, rd := None, r := None)\<rparr>
     in if status < 0 then c_uv_close h s else s)"
  using assms by (simp add: on_server_write_def deref_def free_def Let_def)

lemma written_eq:
  assumes "stream_ok h s" "Writes s h = r # rs"
  shows "written h status s =
    (let s = (without_write h r rs s)\<lparr>Sent := if status < 0 then Sent s
                else (Sent s)(h := Sent s h @ bytes_of (write_buffer r s) s)\<rparr>
     in if status < 0 then c_uv_close h s else s)"
proof -
  obtain rd b cap bs where r: "Mem s r = Some (WriteReq rd)" "Mem s rd = Some (ReqData b h)"
    "Mem s (base b) = Some (Chars cap bs)" "unat (len b) \<le> length bs" "distinct [r, rd, base b]"
    using distinct_request [OF assms] .
  have b: "write_buffer r s = b" "write_buffer r (write_done h s) = b" "bytes_of b (write_done h s) = bytes_of b s"
    "fetch_bytes b (write_done h s) = write_done h s" "hd (Writes s h) = r"
    using r assms(2) by (simp_all add: write_buffer_def write_done_def bytes_of_def fetch_bytes_def)
  let ?t = "if status < 0 then write_done h s
    else (write_done h s)\<lparr>Sent := (Sent s)(h := Sent s h @ bytes_of b s)\<rparr>"
  have "written h status s = on_server_write r status ?t"
    using b by (simp add: written_def Let_def write_done_def)
  also have "\<dots> = (let t = ?t\<lparr>Mem := (Mem s)(base b := None, rd := None, r := None)\<rparr>
      in if status < 0 then c_uv_close h t else t)"
    using r by (subst on_server_write_eq [where rd = rd and b = b and h = h]) (simp_all add: write_done_def)
  finally show ?thesis using b(1) r(1) assms(2) by (simp add: without_write_def write_done_def Let_def)
qed

lemma inv_written:
  assumes "server_inv s" "server_enabled (Written h status) s"
  shows "server_inv (written h status s)"
proof -
  obtain r rs where w: "Writes s h = r # rs" using assms(2) by (auto simp: neq_Nil_conv)
  have i: "memory_inv s" "stream_inv h s" "set (Faults s) \<subseteq> {ClosedTwice, Overflow}"
    using assms(1) by (simp_all add: server_inv_def)
  have h: "h \<in> Opened s" using i(2) w by (auto simp: stream_inv_def)
  note ok = stream_ok_of [OF i(1) h]
  let ?t = "(without_write h r rs s)\<lparr>Sent := if status < 0 then Sent s
                else (Sent s)(h := Sent s h @ bytes_of (write_buffer r s) s)\<rparr>"
  have "h \<in> set (owned h s)" by (simp add: owned_def)
  then have "h < Fresh s" using owned_below [OF i(1) h] by blast
  note f = this
  have m: "same_memory (without_write h r rs s) ?t" by (simp add: same_memory_def)
  note u = local_without_write [OF i(1) h w]
  show ?thesis
  proof (cases "status < 0")
    case True
    have "server_inv (c_uv_close h (without_write h r rs s))"
      by (rule inv_close [OF assms(1) u]) (use h i f in \<open>auto simp: without_write_def stream_inv_def\<close>)
    then show ?thesis using True by (simp add: written_eq [OF ok w] without_write_def)
  next
    case False
    then have o: "h \<notin> Closing s" using assms(2) by auto
    define t where "t = ?t"
    have "Opened t = Opened s" "Closing t = Closing s" "Reading t = Reading s" "Received t = Received s"
      "ShuttingDown t = ShuttingDown s" "Fresh t = Fresh s"
      "Sent t h = Sent s h @ bytes_of (write_buffer r s) s" "Writes t h = rs"
      using False by (simp_all add: t_def without_write_def)
    moreover have p: "Sent t h @ pending h t = Received s h"
      using without_write_stream(4) [OF ok w] same_memory_views(2) [OF m, of h] calculation(7) i(2) h o
      unfolding t_def by (simp add: stream_inv_def)
    moreover have "prefix (Sent t h) (Received s h)" using p by (metis prefixI)
    ultimately have "stream_inv h ?t"
      using i(2) o h f unfolding t_def [symmetric] by (auto simp: stream_inv_def)
    then have "server_inv ?t"
      by (intro inv_transfer [OF assms(1) u m]) (use i in \<open>auto simp: without_write_def\<close>)
    then show ?thesis using False by (simp add: written_eq [OF ok w])
  qed
qed

lemma inv_shut_down:
  assumes "server_inv s" "server_enabled (ShutDown h status) s"
  shows "server_inv (server_step eof (ShutDown h status) s)"
proof -
  obtain r where r: "ShuttingDown s h = Some r" using assms(2) by auto
  have i: "memory_inv s" "stream_inv h s" "set (Faults s) \<subseteq> {ClosedTwice, Overflow}"
    using assms(1) by (simp_all add: server_inv_def)
  have h: "h \<in> Opened s" using i(2) r by (auto simp: stream_inv_def)
  have "Mem s r = Some (ShutdownReq h)" using stream_ok_of [OF i(1) h] r by (simp add: stream_ok_def)
  then have e: "server_step eof (ShutDown h status) s = c_uv_close h (without_shutdown h r s)"
    using r by (simp add: on_server_shutdown_def without_shutdown_def shutdown_done_def deref_def free_def Let_def)
  have "h < Fresh s" using owned_below [OF i(1) h] by (simp add: owned_def)
  then show ?thesis
    unfolding e
    by (intro inv_close [OF assms(1) local_without_shutdown [OF i(1) h r]])
      (use h i in \<open>auto simp: without_shutdown_def stream_inv_def\<close>)
qed

lemma inv_handle_gone:
  assumes "server_inv s" "server_enabled (HandleGone h) s"
  shows "server_inv (server_step eof (HandleGone h) s)"
proof -
  have i: "memory_inv s" "stream_inv h s" "set (Faults s) \<subseteq> {ClosedTwice, Overflow}"
    using assms(1) by (simp_all add: server_inv_def)
  have h: "h \<in> Opened s" using i(2) assms(2) by (auto simp: stream_inv_def)
  obtain d c where d: "Mem s h = Some (TcpHandle (Some d))" "Mem s d = Some (ServerData c)" "d \<noteq> h"
    using stream_ok_of [OF i(1) h] by (auto simp: stream_ok_def owned_def)
  then have e: "server_step eof (HandleGone h) s = without_stream h s"
    by (simp add: on_server_close_def without_stream_def close_done_def deref_def free_def Let_def)
  have "h < Fresh s" using owned_below [OF i(1) h] by (simp add: owned_def)
  then have "stream_inv h (without_stream h s)"
    using i(2) assms(2) by (auto simp: stream_inv_def without_stream_def)
  then show ?thesis
    unfolding e
    by (intro inv_transfer [OF assms(1) local_without_stream [OF i(1) h]])
      (use h i assms(2) in \<open>auto simp: without_stream_def same_memory_def\<close>)
qed

lemma got_data_eq:
  assumes "memory_inv s" "length bs \<le> READABLE_BUFFER_SIZE"
    "Mem s (SERVER_READ_BUFFER s) = Some (Chars READABLE_BUFFER_SIZE old)"
  shows "got_data eof h bs st s =
    (let s = s\<lparr>Received := (Received s)(h := Received s h @ bs)\<rparr>
     in if st < 0 then c_uv_close h (new_buffer s)
        else with_write h (bs @ drop (length bs) old) (length bs) s)"
proof -
  have rb: "SERVER_READ_BUFFER s < Fresh s" using assms(1) by (auto simp: memory_inv_def)
  have n: "Mem s (Fresh s) = None" "Mem s (Suc (Fresh s)) = None" "Mem s (Suc (Suc (Fresh s))) = None"
    using fresh_unallocated [OF assms(1)] by simp_all
  let ?m = "(Mem s)(SERVER_READ_BUFFER s \<mapsto> Chars READABLE_BUFFER_SIZE (bs @ drop (length bs) old),
      Fresh s \<mapsto> ReqData \<lparr>base = SERVER_READ_BUFFER s, len = of_nat (length bs)\<rparr> h,
      Suc (Fresh s) \<mapsto> Chars READABLE_BUFFER_SIZE [], Suc (Suc (Fresh s)) \<mapsto> WriteReq (Fresh s))"
  have m: "?m(SERVER_READ_BUFFER s := None, Fresh s := None, Suc (Suc (Fresh s)) := None) =
      (Mem s)(SERVER_READ_BUFFER s := None, Suc (Fresh s) \<mapsto> Chars READABLE_BUFFER_SIZE [])"
    using n rb by (auto simp: fun_eq_iff)
  note defs = got_data_def on_server_alloc_def store_bytes_def on_server_read_def malloc_def
    c_uv_write_def free_def with_write_def new_buffer_def Let_def
  show ?thesis
  proof (cases "st < 0")
    case True
    then show ?thesis using assms(2,3) rb by (simp add: defs m [simplified])
  next
    case False
    then show ?thesis using assms(2,3) rb by (simp add: defs)
  qed
qed

lemma inv_got_data:
  assumes "server_inv s" "server_enabled (GotData h bs st) s"
  shows "server_inv (got_data eof h bs st s)"
proof -
  have i: "memory_inv s" "stream_inv h s" "set (Faults s) \<subseteq> {ClosedTwice, Overflow}"
    using assms(1) by (simp_all add: server_inv_def)
  have h: "h \<in> Opened s" "h \<notin> Closing s" using i(2) assms(2) by (auto simp: stream_inv_def)
  have l: "length bs \<le> READABLE_BUFFER_SIZE"
    using assms(2) by (simp add: on_server_alloc_def READABLE_BUFFER_SIZE_def)
  obtain old where old: "Mem s (SERVER_READ_BUFFER s) = Some (Chars READABLE_BUFFER_SIZE old)"
    using i(1) by (auto simp: memory_inv_def)
  let ?s = "s\<lparr>Received := (Received s)(h := Received s h @ bs)\<rparr>" and ?c = "bs @ drop (length bs) old"
  have f: "h < Fresh s" using owned_below [OF i(1) h(1)] by (simp add: owned_def)
  have e: "Sent s h @ pending h s = Received s h" using i(2) h by (simp add: stream_inv_def)
  show ?thesis
  proof (cases "st < 0")
    case True
    have "server_inv (c_uv_close h ((new_buffer s)\<lparr>Received := (Received s)(h := Received s h @ bs)\<rparr>))"
    proof (rule inv_transfer [OF assms(1) local_new_buffer(1) [OF i(1) h(1)]])
      let ?t = "(new_buffer s)\<lparr>Received := (Received s)(h := Received s h @ bs)\<rparr>"
      show "same_memory (new_buffer s) (c_uv_close h ?t)" by (simp add: same_memory_def c_defs)
      show "stream_inv h (c_uv_close h ?t)"
        using h i(2) f by (auto simp: stream_inv_def new_buffer_def c_defs)
      show "set (Faults (c_uv_close h ?t)) \<subseteq> {ClosedTwice, Overflow}"
        using i(3) by (auto simp: new_buffer_def c_defs)
    qed (auto simp: new_buffer_def c_defs)
    moreover have "(new_buffer s)\<lparr>Received := (Received s)(h := Received s h @ bs)\<rparr> = new_buffer ?s"
      by (simp add: new_buffer_def)
    ultimately show ?thesis using True by (simp add: got_data_eq [OF i(1) l old])
  next
    case False
    define t where "t = with_write h ?c (length bs) ?s"
    have same: "same_memory (with_write h ?c (length bs) s) t"
      by (simp add: t_def with_write_def same_memory_def)
    have fields: "Opened t = Opened s" "Closing t = Closing s" "Reading t = Reading s"
      "ShuttingDown t = ShuttingDown s" "Fresh t = Suc (Suc (Suc (Fresh s)))" "Faults t = Faults s"
      "Sent t = Sent s" "Received t = (Received s)(h := Received s h @ bs)"
      by (simp_all add: t_def with_write_def)
    have "pending h t = pending h s @ bs"
      using local_with_write(2) [OF i(1) h(1), of "length bs" ?c] l same_memory_views(2) [OF same] by simp
    then have "stream_inv h t"
      using i(2) h f e fields by (auto simp: stream_inv_def prefix_def)
    then have "server_inv t"
      by (intro inv_transfer [OF assms(1) local_with_write(1) [OF i(1) h(1)] same])
        (use i(3) fields l in auto)
    then show ?thesis using False by (simp add: got_data_eq [OF i(1) l old] t_def)
  qed
qed

lemma inv_got_error:
  assumes "server_inv s" "server_enabled (GotError h nread st) s"
  shows "server_inv (server_step eof (GotError h nread st) s)"
proof -
  have i: "memory_inv s" "stream_inv h s" "set (Faults s) \<subseteq> {ClosedTwice, Overflow}"
    using assms(1) by (simp_all add: server_inv_def)
  have h: "h \<in> Opened s" "h \<notin> Closing s" "ShuttingDown s h = None"
    using i(2) assms(2) by (auto simp: stream_inv_def)
  have f: "h < Fresh s" using owned_below [OF i(1) h(1)] by (simp add: owned_def)
  have n: "Mem s (Fresh s) = None" using fresh_unallocated [OF i(1)] by simp
  have stop: "stream_inv h s" "h \<in> Opened s" using i h by simp_all
  show ?thesis
  proof (cases "nread \<noteq> eof \<or> st < 0")
    case True
    then obtain n where "Fresh s \<le> n" and e: "server_step eof (GotError h nread st) s =
        c_uv_close h (s\<lparr>Reading := Reading s - {h}, Fresh := n\<rparr>)"
    proof (cases "nread = eof")
      case False
      then show ?thesis
        using that [of "Fresh s"] assms(2) by (simp add: on_server_read_def on_server_read_error_def c_uv_read_stop_def)
    next
      case eof: True
      then have "server_step eof (GotError h nread st) s =
          c_uv_close h (s\<lparr>Reading := Reading s - {h}, Fresh := Suc (Fresh s), Mem := (Mem s)(Fresh s := None)\<rparr>)"
        using True assms(2)
        by (simp add: on_server_read_def on_server_read_error_def c_uv_read_stop_def malloc_def free_def
            c_uv_shutdown_def)
      moreover have "(Mem s)(Fresh s := None) = Mem s" using n by (simp add: fun_upd_idem)
      ultimately show ?thesis using that [of "Suc (Fresh s)"] by simp
    qed
    let ?t = "s\<lparr>Reading := Reading s - {h}, Fresh := n\<rparr>"
    have "server_inv (c_uv_close h ?t)"
    proof (rule inv_transfer [OF assms(1) local_skip(1) [OF i(1) h(1) refl \<open>Fresh s \<le> n\<close>]])
      show "stream_inv h (c_uv_close h ?t)"
        using h i(2) f \<open>Fresh s \<le> n\<close> by (auto simp: stream_inv_def c_defs)
      show "set (Faults (c_uv_close h ?t)) \<subseteq> {ClosedTwice, Overflow}" using i(3) by (auto simp: c_defs)
    qed (auto simp: c_defs same_memory_def)
    then show ?thesis using e by simp
  next
    case False
    let ?t = "(with_shutdown h s)\<lparr>Reading := Reading s - {h}\<rparr>"
    have e: "server_step eof (GotError h nread st) s = ?t"
      using False assms(2)
      by (simp add: on_server_read_def on_server_read_error_def c_uv_read_stop_def malloc_def
          c_uv_shutdown_def with_shutdown_def)
    have same: "same_memory (with_shutdown h s) ?t" by (simp add: same_memory_def)
    note w = local_with_shutdown [OF i(1) h(1,3)]
    have "pending h ?t = pending h s" using w(2) same_memory_views(2) [OF same] by simp
    then have "stream_inv h ?t" using i(2) h f by (auto simp: stream_inv_def with_shutdown_def)
    then have "server_inv ?t"
      by (intro inv_transfer [OF assms(1) w(1) same]) (use i(3) in \<open>auto simp: with_shutdown_def\<close>)
    then show ?thesis using e by simp
  qed
qed

lemma on_connection_eq:
  assumes "0 \<le> status"
  shows "on_connection st st' status s =
    (if st < 0 then c_uv_close (Fresh s) (with_stream None s)
     else let r = next_client_id s;
              t = with_stream (Some (CLIENT_COUNT r)) r
          in if st' < 0 then c_uv_close (Fresh s) t else t\<lparr>Reading := insert (Fresh s) (Reading t)\<rparr>)"
proof -
  have fst_malloc: "fst (malloc b r) = Fresh r" for b and r :: echo_server by (simp add: malloc_def)
  have fresh: "Fresh (c_uv_tcp_init h (snd (malloc b r))) = Suc (Fresh r)" for h b and r :: echo_server
    by (simp add: malloc_def c_uv_tcp_init_def)
  have a: "assign (Fresh s) (TcpHandle (Some (Suc (Fresh s))))
      (snd (malloc (ServerData None) (c_uv_tcp_init (Fresh s) (snd (malloc (TcpHandle None) s))))) =
      with_stream None s"
    by (simp add: malloc_def c_uv_tcp_init_def assign_def with_stream_def fun_upd_twist)
  have b: "assign (Suc (Fresh s)) (ServerData (Some c)) (next_client_id (with_stream None s)) =
      with_stream (Some c) (next_client_id s)"
    "CLIENT_COUNT (next_client_id (with_stream None s)) = CLIENT_COUNT (next_client_id s)" for c
    by (simp_all add: assign_def with_stream_def next_client_id_def fault_def)
  show ?thesis
    using assms by (simp add: on_connection_def case_prod_beta fst_malloc fresh a b c_uv_read_start_def Let_def)
qed

lemma inv_new_connection:
  assumes "server_inv s"
  shows "server_inv (on_connection st st' status s)"
proof (cases "status < 0")
  case True
  then show ?thesis using assms by (simp add: on_connection_def)
next
  case False
  let ?h = "Fresh s"
  have i: "memory_inv s" "stream_inv ?h s" "set (Faults s) \<subseteq> {ClosedTwice, Overflow}"
    using assms by (simp_all add: server_inv_def)
  have "?h \<notin> Opened s" using owned_below [OF i(1)] by (force simp: owned_def)
  then have n: "?h \<notin> Opened s" "Writes s ?h = []" "ShuttingDown s ?h = None" "Received s ?h = []" "Sent s ?h = []"
    "?h \<notin> Closing s" "?h \<notin> Reading s"
    using i(2) by (auto simp: stream_inv_def)
  define c where "c = (if st < 0 then None else Some (CLIENT_COUNT (next_client_id s)))"
  note u = local_with_stream [OF i(1) n(1-3), of c]
  define r where "r = (if st < 0 then s else next_client_id s)"
  define t where "t = with_stream c r"
  have tc: "on_connection st st' status s =
      (if st < 0 \<or> st' < 0 then c_uv_close ?h t else t\<lparr>Reading := insert ?h (Reading t)\<rparr>)"
    using False unfolding t_def r_def c_def by (simp add: on_connection_eq Let_def)
  have f: "Mem t = Mem (with_stream c s)" "Fresh t = Suc (Suc ?h)" "Opened t = insert ?h (Opened s)"
    "Writes t = Writes s" "ShuttingDown t = ShuttingDown s" "SERVER_READ_BUFFER t = SERVER_READ_BUFFER s"
    "Closing t = Closing s" "Reading t = Reading s" "Received t = Received s" "Sent t = Sent s"
    "set (Faults t) \<subseteq> {ClosedTwice, Overflow}"
    using i(3) by (auto simp: t_def r_def with_stream_def next_client_id_def fault_def)
  have same: "same_memory (with_stream c s) t"
    using f by (simp add: same_memory_def with_stream_def)
  have p: "pending ?h t = []" using u(2) same_memory_views(2) [OF same] by simp
  show ?thesis
  proof (cases "st < 0 \<or> st' < 0")
    case True
    have "server_inv (c_uv_close ?h t)"
    proof (rule inv_transfer [OF assms u(1)])
      show "same_memory (with_stream c s) (c_uv_close ?h t)"
        using same by (simp add: same_memory_def c_defs)
      show "stream_inv ?h (c_uv_close ?h t)" using f n by (simp add: stream_inv_def c_defs)
      show "set (Faults (c_uv_close ?h t)) \<subseteq> {ClosedTwice, Overflow}" using f by (auto simp: c_defs)
    qed (use f in \<open>auto simp: c_defs\<close>)
    then show ?thesis using tc True by simp
  next
    case False
    let ?t = "t\<lparr>Reading := insert ?h (Reading t)\<rparr>"
    have same': "same_memory t ?t" by (simp add: same_memory_def)
    have "server_inv ?t"
    proof (rule inv_transfer [OF assms u(1)])
      show "same_memory (with_stream c s) ?t" using same by (simp add: same_memory_def)
      show "stream_inv ?h ?t"
        using f n p same_memory_views(2) [OF same'] by (simp add: stream_inv_def)
    qed (use f in auto)
    then show ?thesis using tc False by simp
  qed
qed

lemma inv_stop:
  assumes "server_inv s" "TokenOpen s = ServerOpen s"
  shows "server_inv (stop_callback s)"
proof -
  have m: "same_memory s (stop_callback s)" by (simp add: stop_callback_def same_memory_def fault_def)
  have "stream_inv h (stop_callback s)" for h
    using assms(1) same_memory_views(2) [OF m]
    by (simp add: server_inv_def stream_inv_def stop_callback_def fault_def)
  then show ?thesis
    using assms(1) same_memory_views(1) [OF m] by (auto simp: server_inv_def stop_callback_def fault_def)
qed

text \<open>The token and the listening handle are closed together.\<close>

definition flags :: "echo_server \<Rightarrow> bool \<times> bool" where
  "flags s = (ServerOpen s, TokenOpen s)"

lemma flags_kept:
  "flags (fault f s) = flags s" "flags (snd (malloc b s)) = flags s" "flags (free p s) = flags s"
  "flags (deref p s) = flags s" "flags (assign p b s) = flags s" "flags (c_uv_tcp_init p s) = flags s"
  "flags (c_uv_close p s) = flags s" "flags (c_uv_read_start st p s) = flags s"
  "flags (c_uv_read_stop p s) = flags s" "flags (c_uv_write st q p s) = flags s"
  "flags (c_uv_shutdown st q p s) = flags s" "flags (write_done p s) = flags s"
  "flags (shutdown_done p s) = flags s" "flags (close_done p s) = flags s"
  "flags (fetch_bytes bf s) = flags s" "flags (next_client_id s) = flags s"
  "flags (s\<lparr>SERVER_READ_BUFFER := p\<rparr>) = flags s" "flags (s\<lparr>Received := x\<rparr>) = flags s"
  "flags (s\<lparr>Sent := x\<rparr>) = flags s"
  by (simp_all add: c_defs flags_def fetch_bytes_def next_client_id_def split: option.split block.split)

lemma flags_store: "flags (store_bytes p bs s) = flags s"
  by (cases "Mem s p"; cases "the (Mem s p)") (simp_all add: store_bytes_def flags_kept, simp add: flags_def)

lemma open_together:
  assumes "TokenOpen s = ServerOpen s"
  shows "TokenOpen (server_step eof e s) = ServerOpen (server_step eof e s)"
proof -
  have "flags (server_step eof e s) = flags s \<or> e = StopSent"
    by (cases e) (simp_all add: on_connection_def got_data_def on_server_read_def on_server_read_error_def
        written_def on_server_write_def on_server_shutdown_def on_server_close_def
        case_prod_beta Let_def flags_kept flags_store split: option.split)
  then show ?thesis using assms by (auto simp: flags_def stop_callback_def fault_def)
qed

section \<open>Runs\<close>

lemma inv_step:
  assumes "server_inv s" "TokenOpen s = ServerOpen s" "server_enabled e s"
  shows "server_inv (server_step eof e s)"
proof (cases e)
  case (GotError h nread st)
  then show ?thesis using inv_got_error assms by blast
next
  case (ShutDown h status)
  then show ?thesis using inv_shut_down assms by blast
next
  case (HandleGone h)
  then show ?thesis using inv_handle_gone assms by blast
qed (use assms inv_new_connection inv_got_data inv_written inv_stop in \<open>simp_all del: server_enabled.simps\<close>)

lemma inv_run:
  "server_run eof es s = Some s' \<Longrightarrow> server_inv s \<Longrightarrow> TokenOpen s = ServerOpen s \<Longrightarrow>
   server_inv s' \<and> TokenOpen s' = ServerOpen s'"
proof (induction es arbitrary: s)
  case (Cons e es)
  then have "server_enabled e s" "server_run eof es (server_step eof e s) = Some s'"
    by (auto split: if_splits)
  then show ?case
    using Cons.IH inv_step [OF Cons.prems(2,3)] open_together [OF Cons.prems(3)] by blast
qed simp

lemma server_run_append:
  "server_run eof (xs @ ys) s = Option.bind (server_run eof xs s) (server_run eof ys)"
  by (induction xs arbitrary: s) simp_all

lemma inv_start:
  assumes "UvEchoServer_start a b l first = (run, s)"
  shows "server_inv s \<and> TokenOpen s = ServerOpen s"
proof -
  have s: "Mem s = [first \<mapsto> Chars READABLE_BUFFER_SIZE []]" "Fresh s = Suc first" "Faults s = []"
    "Opened s = {}" "Closing s = {}" "Reading s = {}" "Writes s = (\<lambda>_. [])"
    "ShuttingDown s = (\<lambda>_. None)" "SERVER_READ_BUFFER s = first" "Received s = (\<lambda>_. [])"
    "Sent s = (\<lambda>_. [])" "TokenOpen s = ServerOpen s"
    using assms by (auto simp: UvEchoServer_start_def malloc_def runtime_init_def runtime.defs Let_def split: if_splits)
  then show ?thesis by (simp add: server_inv_def memory_inv_def stream_inv_def)
qed

lemma reached:
  assumes "UvEchoServer_start a b l first = (True, s0)" "server_run eof es s0 = Some s"
  shows "server_inv s"
  using inv_run [OF assms(2)] inv_start [OF assms(1)] by blast

lemma close_fault:
  "ClosedTwice \<in> set (Faults (c_uv_close h s)) \<longleftrightarrow>
     ClosedTwice \<in> set (Faults s) \<or> h \<notin> Opened s \<or> h \<in> Closing s"
  by (auto simp: c_defs)

text \<open>Which step closes a handle that is closed already.\<close>

lemma closed_twice_request:
  assumes "server_inv s" "server_enabled e s" "e = Written h status \<or> e = ShutDown h status"
  shows "ClosedTwice \<in> set (Faults (server_step eof e s)) \<longleftrightarrow>
    ClosedTwice \<in> set (Faults s) \<or> (status < 0 \<or> e = ShutDown h status) \<and> h \<in> Closing s"
  using assms(3)
proof
  have i: "memory_inv s" "stream_inv h s" using assms(1) by (auto simp: server_inv_def)
  assume e: "e = Written h status"
  then obtain r rs where w: "Writes s h = r # rs" using assms(2) by (auto simp: neq_Nil_conv)
  then have h: "h \<in> Opened s" using i(2) by (auto simp: stream_inv_def)
  then show ?thesis
    using e written_eq [OF stream_ok_of [OF i(1) h] w]
    by (auto simp: close_fault without_write_def Let_def)
next
  have i: "memory_inv s" "stream_inv h s" using assms(1) by (auto simp: server_inv_def)
  assume e: "e = ShutDown h status"
  then obtain r where r: "ShuttingDown s h = Some r" using assms(2) by auto
  then have h: "h \<in> Opened s" using i(2) by (auto simp: stream_inv_def)
  have "Mem s r = Some (ShutdownReq h)" using stream_ok_of [OF i(1) h] r by (simp add: stream_ok_def)
  then show ?thesis
    using e r h by (simp add: on_server_shutdown_def shutdown_done_def deref_def free_def close_fault Let_def)
qed

lemma closed_twice_gone:
  assumes "server_inv s" "server_enabled (HandleGone h) s"
  shows "Faults (server_step eof (HandleGone h) s) = Faults s"
proof -
  have i: "memory_inv s" "stream_inv h s" using assms(1) by (auto simp: server_inv_def)
  then have h: "h \<in> Opened s" using assms(2) by (auto simp: stream_inv_def)
  obtain d c where "Mem s h = Some (TcpHandle (Some d))" "Mem s d = Some (ServerData c)" "d \<noteq> h"
    using stream_ok_of [OF i(1) h] by (auto simp: stream_ok_def owned_def)
  then show ?thesis by (simp add: on_server_close_def close_done_def deref_def free_def Let_def)
qed

lemma closed_twice_read:
  assumes "server_inv s" "server_enabled e s" "e = GotData h bs st \<or> e = GotError h nread st"
  shows "ClosedTwice \<in> set (Faults (server_step eof e s)) \<longleftrightarrow> ClosedTwice \<in> set (Faults s)"
proof -
  have i: "memory_inv s" "stream_inv h s" using assms(1) by (auto simp: server_inv_def)
  have h: "h \<in> Opened s" "h \<notin> Closing s" using i(2) assms(2,3) by (auto simp: stream_inv_def)
  obtain old where old: "Mem s (SERVER_READ_BUFFER s) = Some (Chars READABLE_BUFFER_SIZE old)"
    using i(1) by (auto simp: memory_inv_def)
  show ?thesis
    using assms(3)
  proof
    assume e: "e = GotData h bs st"
    then have "length bs \<le> READABLE_BUFFER_SIZE"
      using assms(2) by (simp add: on_server_alloc_def READABLE_BUFFER_SIZE_def)
    then show ?thesis
      using e h by (simp add: got_data_eq [OF i(1) _ old] close_fault new_buffer_def with_write_def Let_def)
  next
    assume "e = GotError h nread st"
    then show ?thesis
      using h assms(2) fresh_unallocated [OF i(1), of "Fresh s"]
      by (simp add: on_server_read_def on_server_read_error_def malloc_def free_def c_uv_read_stop_def
          c_uv_shutdown_def close_fault Let_def)
  qed
qed

lemma closed_twice_connection:
  assumes "server_inv s"
  shows "ClosedTwice \<in> set (Faults (on_connection st st' status s)) \<longleftrightarrow> ClosedTwice \<in> set (Faults s)"
proof -
  have "memory_inv s" "stream_inv (Fresh s) s" using assms by (auto simp: server_inv_def)
  then have "Fresh s \<notin> Closing s" using owned_below by (force simp: stream_inv_def owned_def)
  then show ?thesis
    by (cases "status < 0")
      (simp add: on_connection_def, auto simp: on_connection_eq close_fault with_stream_def
        next_client_id_def fault_def Let_def)
qed

section \<open>Properties\<close>

text \<open>
  C31: the server echoes. In every run, on every connection, the bytes it has sent are a prefix of those it has received, in order and unchanged;
  while the connection is not being closed, what is missing is exactly the content of the writes under way - no buffer in flight is ever
  overwritten by later data, although all connections read into the same buffer.
\<close>

theorem server_echoes_what_it_receives:
  assumes "UvEchoServer_start a b l first = (True, s0)" "server_run eof es s0 = Some s"
  shows "prefix (Sent s h) (Received s h) \<and>
    (h \<in> Opened s - Closing s \<longrightarrow> Sent s h @ pending h s = Received s h \<and>
       (Writes s h = [] \<longrightarrow> Sent s h = Received s h))"
proof -
  have "stream_inv h s" using reached [OF assms] by (simp add: server_inv_def)
  moreover have "Writes s h = [] \<Longrightarrow> pending h s = []" by (simp add: pending_def)
  ultimately show ?thesis by (auto simp: stream_inv_def)
qed

definition echo_events :: "server_event list" where
  "echo_events = [NewConnection 0 0 0, GotData 101 [1, 2] 0]"

definition echo_start :: echo_server where
  "echo_start = snd (UvEchoServer_start 0 0 0 100)"

lemma echo_started: "UvEchoServer_start 0 0 0 100 = (True, echo_start)"
  by (simp add: echo_start_def UvEchoServer_start_def malloc_def Let_def)

lemmas server_eval = echo_events_def echo_start_def UvEchoServer_start_def runtime_init_def runtime.defs
  got_data_def on_server_read_def on_server_alloc_def store_bytes_def malloc_def c_uv_write_def written_def write_done_def
  write_buffer_def fetch_bytes_def bytes_of_def on_server_write_def deref_def free_def on_connection_def
  c_uv_tcp_init_def assign_def next_client_id_def c_uv_read_start_def c_uv_close_def c_uv_read_stop_def
  on_server_read_error_def on_server_close_def close_done_def READABLE_BUFFER_SIZE_def Let_def

lemma echo_reached:
  obtains s where "server_run (-4095) echo_events echo_start = Some s" "Received s 101 = [1, 2]"
    "Opened s = {101}" "Closing s = {}" "Reading s = {101}" "Writes s 101 = [105]"
    "ShuttingDown s 101 = None" "Faults s = []" "stream_ok 101 s"
proof -
  have "case server_run (-4095) echo_events echo_start of None \<Rightarrow> False
      | Some s \<Rightarrow> Received s 101 = [1, 2] \<and> Opened s = {101} \<and> Closing s = {} \<and> Reading s = {101} \<and>
          Writes s 101 = [105] \<and> ShuttingDown s 101 = None \<and> Faults s = []"
    by (simp add: server_eval)
  then obtain s where s: "server_run (-4095) echo_events echo_start = Some s" "Received s 101 = [1, 2]"
    "Opened s = {101}" "Closing s = {}" "Reading s = {101}" "Writes s 101 = [105]"
    "ShuttingDown s 101 = None" "Faults s = []" by (auto split: option.splits)
  moreover have "stream_ok 101 s"
    using reached [OF echo_started s(1)] s(3) by (simp add: server_inv_def memory_inv_def)
  ultimately show thesis using that by blast
qed

theorem server_echoes_what_it_receives_witness:
  "\<exists>s. server_run (-4095) (echo_events @ [Written 101 0]) echo_start = Some s \<and>
     Received s 101 = [1, 2] \<and> Sent s 101 = [1, 2]"
proof -
  obtain s where s: "server_run (-4095) echo_events echo_start = Some s" "Received s 101 = [1, 2]"
    "Opened s = {101}" "Closing s = {}" "Writes s 101 = [105]" "stream_ok 101 s" by (rule echo_reached)
  let ?t = "written 101 0 s"
  have t: "Received ?t 101 = [1, 2]" "101 \<in> Opened ?t - Closing ?t" "Writes ?t 101 = []"
    unfolding written_eq [OF s(6,5)] using s by (simp_all add: without_write_def Let_def)
  have "server_run (-4095) (echo_events @ [Written 101 0]) echo_start = Some ?t"
    using s by (simp add: server_run_append)
  moreover from this have "Sent ?t 101 = Received ?t 101"
    using server_echoes_what_it_receives [OF echo_started, of "-4095" _ ?t 101] t(2,3) by blast
  ultimately show ?thesis using t(1) by auto
qed

text \<open>
  C32: the memory of the server is safe in every run: no block is used or freed that is not allocated, nothing is read that
  has not been written; and nothing leaks: when no connection is left, the read buffer is the only block, and \<open>UvEchoServer\<close> frees it.
\<close>

theorem server_memory_is_safe:
  assumes "UvEchoServer_start a b l first = (True, s0)" "server_run eof es s0 = Some s"
  shows "set (Faults s) \<subseteq> {ClosedTwice, Overflow} \<and>
    (Opened s = {} \<longrightarrow> dom (Mem s) = {SERVER_READ_BUFFER s} \<and>
       Mem (UvEchoServer_finish s) = Map.empty \<and> Faults (UvEchoServer_finish s) = Faults s)"
  using reached [OF assms]
  by (auto simp: server_inv_def memory_inv_def UvEchoServer_finish_def free_def fun_eq_iff)

theorem server_memory_is_safe_witness:
  "\<exists>s. server_run (-4095) (echo_events @ [Written 101 (-32), HandleGone 101]) echo_start = Some s \<and>
     dom (Mem s) = {SERVER_READ_BUFFER s} \<and> Mem (UvEchoServer_finish s) = Map.empty"
proof -
  obtain s where s: "server_run (-4095) echo_events echo_start = Some s" "Opened s = {101}" "Closing s = {}"
    "Writes s 101 = [105]" "ShuttingDown s 101 = None" "stream_ok 101 s" by (rule echo_reached)
  let ?t = "written 101 (-32) s" and ?u = "server_step (-4095) (HandleGone 101) (written 101 (-32) s)"
  have t: "Opened ?t = {101}" "101 \<in> Closing ?t" "Writes ?t 101 = []" "ShuttingDown ?t 101 = None"
    unfolding written_eq [OF s(6,4)] using s by (simp_all add: without_write_def c_uv_close_def Let_def)
  have "server_run (-4095) (echo_events @ [Written 101 (-32), HandleGone 101]) echo_start = Some ?u"
    using s t by (simp add: server_run_append)
  moreover have "Opened ?u = {}"
    using t by (simp add: on_server_close_def close_done_def deref_def free_def fault_def Let_def)
  ultimately show ?thesis
    using server_memory_is_safe [OF echo_started, of "-4095" _ ?u] by blast
qed

text \<open>
  C33: the exact circumstances in which the server closes a handle twice, which libuv answers by aborting the program: when
  a request of a connection is called back after the connection has been closed. libuv calls back every pending request of a
  stream that is closed, so this happens whenever a connection fails - a read error, a failed write, a refused request - while a
  write or the shutdown is under way.
\<close>

theorem failing_connection_is_closed_twice:
  assumes "UvEchoServer_start a b l first = (True, s0)" "server_run eof es s0 = Some s" "server_enabled e s"
  shows "ClosedTwice \<in> set (Faults (server_step eof e s)) \<longleftrightarrow>
    ClosedTwice \<in> set (Faults s) \<or> (\<exists>h st. (e = Written h st \<or> e = ShutDown h st) \<and> h \<in> Closing s)"
proof -
  have i: "server_inv s" "TokenOpen s = ServerOpen s"
    using inv_run [OF assms(2)] inv_start [OF assms(1)] by auto
  show ?thesis
  proof (cases e)
    case (Written h status)
    then show ?thesis using closed_twice_request [OF i(1) assms(3)] assms(3) by auto
  next
    case (ShutDown h status)
    then show ?thesis using closed_twice_request [OF i(1) assms(3)] by auto
  next
    case (HandleGone h)
    then show ?thesis using closed_twice_gone [OF i(1)] assms(3) by simp
  next
    case (GotData h bs st)
    then show ?thesis using closed_twice_read [OF i(1) assms(3)] by auto
  next
    case (GotError h nread st)
    then show ?thesis using closed_twice_read [OF i(1) assms(3)] by auto
  next
    case (NewConnection st st' status)
    then show ?thesis using closed_twice_connection [OF i(1)] by simp
  next
    case StopSent
    then show ?thesis using assms(3) i(2) by (simp add: stop_callback_def)
  qed
qed

theorem failing_connection_is_closed_twice_witness:
  "\<exists>s. server_run (-4095) (echo_events @ [GotError 101 (-104) 0]) echo_start = Some s \<and> Faults s = [] \<and>
     ClosedTwice \<in> set (Faults (server_step (-4095) (Written 101 (-125)) s))"
proof -
  obtain s where s: "server_run (-4095) echo_events echo_start = Some s" "Opened s = {101}" "Closing s = {}"
    "Reading s = {101}" "Writes s 101 = [105]" "Faults s = []" by (rule echo_reached)
  let ?t = "server_step (-4095) (GotError 101 (-104) 0) s"
  have t: "Faults ?t = []" "101 \<in> Closing ?t" "server_enabled (Written 101 (-125)) ?t"
    using s by (simp_all add: on_server_read_def on_server_read_error_def c_uv_read_stop_def c_uv_close_def)
  have "server_run (-4095) (echo_events @ [GotError 101 (-104) 0]) echo_start = Some ?t"
    using s by (simp add: server_run_append)
  then show ?thesis
    using failing_connection_is_closed_twice [OF echo_started _ t(3)] t by blast
qed

text \<open>\<open>UvEchoServer\<close> does not free its buffer when it gives up before the loop runs.\<close>

lemma giving_up_leaks:
  "a < 0 \<or> b < 0 \<or> l < 0 \<Longrightarrow>
   fst (UvEchoServer_start a b l first) = False \<and> dom (Mem (snd (UvEchoServer_start a b l first))) = {first}"
  by (auto simp: UvEchoServer_start_def malloc_def runtime_init_def runtime.defs Let_def)

end
