(* ===== verification/Echo_Uv_Client.thy ===== *)
theory Echo_Uv_Client
  imports C_Runtime
begin

text \<open>
  The echo client of src/examples/echo_uv.c on the memory and the streams of C_Runtime: connections that count references, one for the
  writing and one for the reading half, and start their successors. In every run it uses no handle or block
  wrongly, closes each connection once, and starts as many connections as it was asked to at most; what
  a failed \<open>uv_tcp_connect\<close> leaves behind is never released.
\<close>

section \<open>State and callbacks\<close>

text \<open>\<open>DataBuffer\<close>: the buffer that every connection sends. \<open>Started\<close> counts the calls of \<open>new_connection\<close>.\<close>

record echo_client = runtime +
  connection_limit :: int
  processed_connections :: int
  fd_limit_exceeded :: int
  total_bytes_received :: int
  DataBuffer :: uv_buf_t
  Started :: nat

fun left_of :: "block option \<Rightarrow> int" where
  "left_of (Some (ClientData b l r)) = l"
| "left_of b = 0"

fun rc_of :: "block option \<Rightarrow> int" where
  "rc_of (Some (ClientData b l r)) = r"
| "rc_of b = 0"

text \<open>\<open>st\<close> is what \<open>uv_tcp_connect\<close> returns, which is the result. \<open>bytes_left\<close> is the length cast to \<open>ssize_t\<close>.\<close>

definition new_connection :: "int \<Rightarrow> uv_buf_t \<Rightarrow> echo_client \<Rightarrow> int \<times> echo_client" where
  "new_connection st buf s =
     (let (client_data, s) = malloc (ClientData buf (sint (len buf)) 2) s;
          (client, s) = malloc (TcpHandle None) s;
          s = c_uv_tcp_init client s;
          (conn_req, s) = malloc (ConnectReq client) s;
          s = assign client (TcpHandle (Some client_data)) s;
          s = c_uv_tcp_connect st conn_req client s
      in (st, s\<lparr>Started := Started s + 1\<rparr>))"

text \<open>\<open>--connection_limit > 0\<close> and what follows it, in \<open>on_client_read\<close> and in \<open>on_client_close\<close>; \<open>emfile\<close> is \<open>UV_EMFILE\<close>.\<close>

definition start_next :: "int \<Rightarrow> int \<Rightarrow> uv_buf_t \<Rightarrow> echo_client \<Rightarrow> echo_client" where
  "start_next emfile st buf s =
     (let s = s\<lparr>connection_limit := connection_limit s - 1\<rparr>
      in if connection_limit s > 0
         then let (status, s) = new_connection st buf s
              in if status < 0 \<and> status = emfile
                 then s\<lparr>fd_limit_exceeded := fd_limit_exceeded s + 1\<rparr> else s
         else s)"

definition on_client_close :: "int \<Rightarrow> int \<Rightarrow> ptr \<Rightarrow> echo_client \<Rightarrow> echo_client" where
  "on_client_close emfile st handle s =
     (let s = deref handle s;
          client_data = data_of (Mem s handle);
          s = s\<lparr>processed_connections := processed_connections s + 1\<rparr>;
          s = (if fd_limit_exceeded s > 0
               then let s = deref client_data s
                    in start_next emfile st (buf_of (Mem s client_data)) s
               else s);
          s = free client_data s
      in free handle s)"

text \<open>\<open>if (--client_data->rc == 0) uv_close(stream, ...)\<close>.\<close>

definition drop_ref :: "ptr \<Rightarrow> ptr \<Rightarrow> echo_client \<Rightarrow> echo_client" where
  "drop_ref stream client_data s =
     (let s = deref client_data s;
          b = Mem s client_data;
          s = assign client_data (ClientData (buf_of b) (left_of b) (rc_of b - 1)) s
      in if rc_of b - 1 = 0 then c_uv_close stream s else s)"

definition on_client_read_some :: "int \<Rightarrow> int \<Rightarrow> ptr \<Rightarrow> int \<Rightarrow> echo_client \<Rightarrow> echo_client" where
  "on_client_read_some emfile st stream nread s =
     (let client_data = data_of (Mem s stream);
          s = deref client_data s;
          b = Mem s client_data;
          first_read = (left_of b = sint (len (buf_of b)));
          s = (if fd_limit_exceeded s = 0 \<and> first_read then start_next emfile st (buf_of b) s else s);
          s = s\<lparr>total_bytes_received := total_bytes_received s + nread\<rparr>;
          s = assign client_data (ClientData (buf_of b) (left_of b - nread) (rc_of b)) s
      in if left_of b - nread \<le> 0 then drop_ref stream client_data (c_uv_read_stop stream s) else s)"

definition on_client_read :: "int \<Rightarrow> int \<Rightarrow> ptr \<Rightarrow> int \<Rightarrow> echo_client \<Rightarrow> echo_client" where
  "on_client_read emfile st stream nread s =
     (let s = deref stream s
      in if nread < 0 then drop_ref stream (data_of (Mem s stream)) (c_uv_read_stop stream s)
         else on_client_read_some emfile st stream nread s)"

definition on_client_write :: "ptr \<Rightarrow> int \<Rightarrow> echo_client \<Rightarrow> echo_client" where
  "on_client_write req status s =
     (let s = deref req s;
          stream = data_of (Mem s req);
          s = free req s;
          s = deref stream s
      in drop_ref stream (data_of (Mem s stream)) s)"

text \<open>\<open>st\<close> and \<open>st'\<close>: what \<open>uv_read_start\<close> and \<open>uv_write\<close> return.\<close>

definition on_connect :: "int \<Rightarrow> int \<Rightarrow> ptr \<Rightarrow> int \<Rightarrow> echo_client \<Rightarrow> echo_client" where
  "on_connect st st' req status s =
     (let s = deref req s;
          stream = data_of (Mem s req);
          s = free req s
      in if status < 0 then c_uv_close stream s
         else
           let s = deref stream s;
               s = c_uv_read_start st stream s
           in if st < 0 then c_uv_close stream s
              else
                let (write_handle, s) = malloc (WriteReq stream) s;
                    s = deref (data_of (Mem s stream)) s;
                    s = c_uv_write st' write_handle stream s
                in if st' < 0 then c_uv_close stream (free write_handle (c_uv_read_stop stream s)) else s)"

text \<open>\<open>UvEchoClient\<close> up to \<open>uv_run\<close>: one connection for each status of \<open>sts\<close>, which are \<open>init_conn\<close> many. The results of these calls are not looked at.\<close>

definition client_init :: "int \<Rightarrow> nat \<Rightarrow> uv_buf_t \<Rightarrow> ptr \<Rightarrow> echo_client" where
  "client_init connections init_conn buf first =
     runtime.extend (runtime_init first) \<lparr>connection_limit = connections - int init_conn + 1,
       processed_connections = 0, fd_limit_exceeded = 0, total_bytes_received = 0, DataBuffer = buf,
       Started = 0\<rparr>"

definition UvEchoClient_start :: "int \<Rightarrow> int list \<Rightarrow> uv_buf_t \<Rightarrow> ptr \<Rightarrow> echo_client" where
  "UvEchoClient_start connections sts buf first =
     fold (\<lambda>st s. snd (new_connection st buf s)) sts (client_init connections (length sts) buf first)"

section \<open>Runs\<close>

datatype client_event =
    Connected ptr int int int
  | ClientGot ptr int int
  | ClientWritten ptr int
  | ClientGone ptr int

fun client_step :: "int \<Rightarrow> client_event \<Rightarrow> echo_client \<Rightarrow> echo_client" where
  "client_step emfile (Connected h status st st') s =
     (case Connecting s h of None \<Rightarrow> s | Some req \<Rightarrow> on_connect st st' req status (connect_done h s))"
| "client_step emfile (ClientGot h nread st) s = on_client_read emfile st h nread s"
| "client_step emfile (ClientWritten h status) s = on_client_write (hd (Writes s h)) status (write_done h s)"
| "client_step emfile (ClientGone h st) s = on_client_close emfile st h (close_done h s)"

fun client_enabled :: "client_event \<Rightarrow> echo_client \<Rightarrow> bool" where
  "client_enabled (Connected h status st st') s \<longleftrightarrow> Connecting s h \<noteq> None"
| "client_enabled (ClientGot h nread st) s \<longleftrightarrow> h \<in> Reading s"
| "client_enabled (ClientWritten h status) s \<longleftrightarrow> Writes s h \<noteq> []"
| "client_enabled (ClientGone h st) s \<longleftrightarrow> h \<in> Closing s \<and> Writes s h = [] \<and> Connecting s h = None"

primrec run_echo_client :: "int \<Rightarrow> client_event list \<Rightarrow> echo_client \<Rightarrow> echo_client option" where
  "run_echo_client emfile [] s = Some s"
| "run_echo_client emfile (e # es) s =
     (if client_enabled e s then run_echo_client emfile es (client_step emfile e s) else None)"

end
