(* ===== verification/Echo_Client_Invariant.thy ===== *)
theory Echo_Client_Invariant
  imports Echo_Uv_Client
begin

text \<open>
  What holds in every run of the echo client of Echo_Uv_Client: the reference count of a connection is the number of
  its halves that are still under way, and each request and each connection data belongs to one connection. A change of
  one connection keeps it (\<open>client_local\<close>), and so does a new connection.
\<close>

section \<open>The invariant\<close>

text \<open>\<open>halves\<close>: what the reference count stands for once the connection is established.\<close>

definition halves :: "ptr \<Rightarrow> echo_client \<Rightarrow> int" where
  "halves h s = of_bool (h \<in> Reading s) + of_bool (Writes s h \<noteq> [])"

definition idle :: "ptr \<Rightarrow> echo_client \<Rightarrow> bool" where
  "idle h s \<longleftrightarrow> h \<notin> Reading s \<and> Writes s h = [] \<and> Connecting s h = None"

text \<open>The phases of a connection: connecting, established, being closed, and one whose \<open>uv_tcp_connect\<close> has failed.\<close>

definition connection_ok :: "ptr \<Rightarrow> int \<Rightarrow> echo_client \<Rightarrow> bool" where
  "connection_ok h rc s \<longleftrightarrow>
     (Writes s h = [] \<or> (\<exists>r. Writes s h = [r] \<and> Mem s r = Some (WriteReq h))) \<and>
     (h \<in> Closing s \<longrightarrow> idle h s) \<and>
     (case Connecting s h of
        Some r \<Rightarrow> Mem s r = Some (ConnectReq h) \<and> rc = 2 \<and> h \<notin> Reading s \<and> Writes s h = []
      | None \<Rightarrow> h \<in> Closing s \<or> idle h s \<or> rc = halves h s)"

definition handle_ok :: "ptr \<Rightarrow> echo_client \<Rightarrow> bool" where
  "handle_ok h s \<longleftrightarrow>
     (\<exists>d l rc. Mem s h = Some (TcpHandle (Some d)) \<and> Mem s d = Some (ClientData (DataBuffer s) l rc) \<and>
        connection_ok h rc s)"

text \<open>Whose a block is; a request that is in no queue has been left behind by a failed \<open>uv_tcp_connect\<close>.\<close>

fun block_ok :: "ptr \<Rightarrow> block \<Rightarrow> echo_client \<Rightarrow> bool" where
  "block_ok p (TcpHandle d) s \<longleftrightarrow> p \<in> Opened s"
| "block_ok p (ClientData b l r) s \<longleftrightarrow> (\<exists>h \<in> Opened s. data_of (Mem s h) = p)"
| "block_ok p (WriteReq h) s \<longleftrightarrow> h \<in> Opened s \<and> Writes s h = [p]"
| "block_ok p (ConnectReq h) s \<longleftrightarrow>
     h \<in> Opened s \<and> (Connecting s h = Some p \<or> idle h s \<and> h \<notin> Closing s)"
| "block_ok p b s \<longleftrightarrow> False"

definition echo_client_inv :: "echo_client \<Rightarrow> bool" where
  "echo_client_inv s \<longleftrightarrow>
     (\<forall>h \<in> Opened s. handle_ok h s) \<and>
     (\<forall>h. h \<notin> Opened s \<longrightarrow> idle h s \<and> h \<notin> Closing s) \<and>
     (\<forall>h \<in> Opened s. \<forall>k \<in> Opened s. data_of (Mem s h) = data_of (Mem s k) \<longrightarrow> h = k) \<and>
     (\<forall>p b. Mem s p = Some b \<longrightarrow> p < Fresh s \<and> block_ok p b s) \<and> Faults s = []"

lemma client_invD:
  assumes "echo_client_inv s" "h \<in> Opened s"
  obtains d l rc where "Mem s h = Some (TcpHandle (Some d))"
    "Mem s d = Some (ClientData (DataBuffer s) l rc)" "connection_ok h rc s" "d \<noteq> h"
    "h < Fresh s" "d < Fresh s"
proof -
  obtain d l rc where m: "Mem s h = Some (TcpHandle (Some d))"
    "Mem s d = Some (ClientData (DataBuffer s) l rc)" "connection_ok h rc s"
    using assms by (auto simp: echo_client_inv_def handle_ok_def)
  moreover have "d \<noteq> h" using m by auto
  moreover have "h < Fresh s" "d < Fresh s" using m assms(1) by (auto simp: echo_client_inv_def)
  ultimately show thesis using that by blast
qed

lemma client_fresh: "echo_client_inv s \<Longrightarrow> Fresh s \<le> p \<Longrightarrow> Mem s p = None"
  unfolding echo_client_inv_def by (metis leD option.exhaust)

lemma block_ok_of: "echo_client_inv s \<Longrightarrow> Mem s p = Some b \<Longrightarrow> p < Fresh s \<and> block_ok p b s"
  by (simp add: echo_client_inv_def)

lemma not_opened: "echo_client_inv s \<Longrightarrow> h \<notin> Opened s \<Longrightarrow> idle h s \<and> h \<notin> Closing s"
  by (simp add: echo_client_inv_def)

lemma data_inj:
  "echo_client_inv s \<Longrightarrow> h \<in> Opened s \<Longrightarrow> k \<in> Opened s \<Longrightarrow> data_of (Mem s h) = data_of (Mem s k) \<Longrightarrow> h = k"
  by (simp add: echo_client_inv_def)

section \<open>Changes of one connection\<close>

text \<open>What the streams of two states agree on, for one handle.\<close>

definition agree :: "ptr \<Rightarrow> echo_client \<Rightarrow> echo_client \<Rightarrow> bool" where
  "agree k s t \<longleftrightarrow> (k \<in> Reading t \<longleftrightarrow> k \<in> Reading s) \<and> (k \<in> Closing t \<longleftrightarrow> k \<in> Closing s) \<and>
     Writes t k = Writes s k \<and> Connecting t k = Connecting s k"

lemma agree_idle: "agree k s t \<Longrightarrow> idle k t \<longleftrightarrow> idle k s"
  by (simp add: agree_def idle_def)

lemma agree_connection:
  assumes "agree k s t" "connection_ok k rc s"
    and "\<And>p b. Mem s p = Some b \<Longrightarrow> b = WriteReq k \<or> b = ConnectReq k \<Longrightarrow> Mem t p = Some b"
  shows "connection_ok k rc t"
proof -
  have "halves k t = halves k s" using assms(1) by (simp add: agree_def halves_def)
  then show ?thesis
    using assms agree_idle [OF assms(1)]
    by (auto simp: connection_ok_def agree_def split: option.splits)
qed

lemma block_ok_keep:
  assumes "block_ok p b s" "Opened s \<subseteq> Opened t"
    and data: "\<And>k. k \<in> Opened s \<Longrightarrow> data_of (Mem t k) = data_of (Mem s k)"
    and req: "\<And>k. k \<in> Opened s \<Longrightarrow> b = WriteReq k \<or> b = ConnectReq k \<Longrightarrow> agree k s t"
  shows "block_ok p b t"
proof (cases b)
  case (WriteReq k)
  then show ?thesis using assms(1,2) req [of k] by (auto simp: agree_def)
next
  case (ConnectReq k)
  then have "agree k s t" using assms(1) req by simp
  then show ?thesis using ConnectReq assms(1,2) agree_idle [of k s t] by (auto simp: agree_def)
next
  case (ClientData x l r)
  then obtain k where "k \<in> Opened s" "data_of (Mem s k) = p" using assms(1) by auto
  then have "k \<in> Opened t" "data_of (Mem t k) = p" using assms(2) data by auto
  then show ?thesis using ClientData by auto
qed (use assms(1,2) in auto)

text \<open>
  The lemma for the callbacks: they change the data and the requests of one connection \<open>h\<close>, everything else is as it was.
\<close>

lemma client_local:
  assumes inv: "echo_client_inv s" and h: "h \<in> Opened s" "Mem s h = Some (TcpHandle (Some d))"
    and same: "Opened t = Opened s" "DataBuffer t = DataBuffer s" "Fresh s \<le> Fresh t" "Faults t = []"
    and others: "\<And>k. k \<noteq> h \<Longrightarrow> agree k s t"
    and mem: "\<And>p b. Mem s p = Some b \<Longrightarrow> p \<noteq> d \<Longrightarrow> b \<noteq> WriteReq h \<Longrightarrow> b \<noteq> ConnectReq h \<Longrightarrow> Mem t p = Some b"
    and d: "Mem t d = Some (ClientData (DataBuffer s) l rc)" "connection_ok h rc t"
    and new: "\<And>p b. Mem t p = Some b \<Longrightarrow> p \<noteq> d \<Longrightarrow> \<not> (Mem s p = Some b \<and> b \<noteq> WriteReq h \<and> b \<noteq> ConnectReq h) \<Longrightarrow>
      p < Fresh t \<and> block_ok p b t"
  shows "echo_client_inv t"
proof -
  obtain l0 rc0 where md: "Mem s d = Some (ClientData (DataBuffer s) l0 rc0)" "d < Fresh s"
    using inv h by (auto elim: client_invD)
  have handles: "Mem t k = Mem s k" if "k \<in> Opened s" for k
    using client_invD [OF inv that] mem [of k] md(1) by fastforce
  have dk: "d \<noteq> data_of (Mem s k)" if "k \<in> Opened s" "k \<noteq> h" for k
    using data_inj [OF inv that(1) h(1)] that(2) h(2) by auto
  have "handle_ok k t" if k: "k \<in> Opened s" for k
  proof (cases "k = h")
    case True
    then show ?thesis using handles [OF k] h(2) d same(2) by (simp add: handle_ok_def)
  next
    case False
    obtain e l1 rc1 where e: "Mem s k = Some (TcpHandle (Some e))"
      "Mem s e = Some (ClientData (DataBuffer s) l1 rc1)" "connection_ok k rc1 s" by (rule client_invD [OF inv k])
    have reqs: "Mem t p = Some b" if "Mem s p = Some b" "b = WriteReq k \<or> b = ConnectReq k" for p b
    proof -
      have "p \<noteq> d" using that md(1) by auto
      then show ?thesis using mem [OF that(1)] that(2) False by auto
    qed
    have "Mem t e = Mem s e" using e mem [OF e(2)] dk [OF k False] by simp
    moreover have "connection_ok k rc1 t"
      using others [OF False] e(3) by (rule agree_connection) (rule reqs)
    ultimately show ?thesis using handles [OF k] e same(2) by (simp add: handle_ok_def)
  qed
  moreover have "idle k t \<and> k \<notin> Closing t" if "k \<notin> Opened s" for k
    using not_opened [OF inv that] others [of k] agree_idle [of k s t] that h(1) by (auto simp: agree_def)
  moreover have "p < Fresh t \<and> block_ok p b t" if p: "Mem t p = Some b" for p b
  proof -
    consider "p = d" | "p \<noteq> d" "Mem s p = Some b" "b \<noteq> WriteReq h" "b \<noteq> ConnectReq h" |
      "p < Fresh t" "block_ok p b t" using new [OF p] by blast
    then show ?thesis
    proof cases
      case 1
      then show ?thesis using p d(1) md(2) same(1,3) h handles [OF h(1)] by (auto intro!: bexI [of _ h])
    next
      case 2
      have o: "p < Fresh s" "block_ok p b s" using block_ok_of [OF inv 2(2)] by auto
      have "block_ok p b t"
        using o(2)
      proof (rule block_ok_keep)
        show "agree k s t" if "b = WriteReq k \<or> b = ConnectReq k" for k using that 2 others by blast
      qed (simp_all add: same(1) handles)
      then show ?thesis using o(1) same(3) by simp
    qed simp
  qed
  ultimately show ?thesis
    using same(1,4) handles inv by (auto simp: echo_client_inv_def)
qed

section \<open>New connections\<close>

definition with_connection :: "int \<Rightarrow> uv_buf_t \<Rightarrow> echo_client \<Rightarrow> echo_client" where
  "with_connection st buf s =
     s\<lparr>Mem := (Mem s)(Fresh s \<mapsto> ClientData buf (sint (len buf)) 2,
         Suc (Fresh s) \<mapsto> TcpHandle (Some (Fresh s)), Suc (Suc (Fresh s)) \<mapsto> ConnectReq (Suc (Fresh s))),
       Fresh := Suc (Suc (Suc (Fresh s))), Opened := insert (Suc (Fresh s)) (Opened s),
       Connecting := (if st < 0 then Connecting s else (Connecting s)(Suc (Fresh s) := Some (Suc (Suc (Fresh s))))),
       Started := Suc (Started s)\<rparr>"

lemma new_connection_eq: "new_connection st buf s = (st, with_connection st buf s)"
proof -
  have "m(x \<mapsto> a, Suc x \<mapsto> TcpHandle None, Suc (Suc x) \<mapsto> b, Suc x \<mapsto> c) =
      m(x \<mapsto> a, Suc x \<mapsto> c, Suc (Suc x) \<mapsto> b)" for m :: "ptr \<Rightarrow> block option" and x a b c
    by (simp add: fun_eq_iff)
  then show ?thesis
    by (simp add: new_connection_def with_connection_def malloc_def c_uv_tcp_init_def assign_def
        c_uv_tcp_connect_def Let_def)
qed

lemma with_connection_frame:
  "p < Fresh s \<Longrightarrow> Mem (with_connection st buf s) p = Mem s p"
  "h \<noteq> Suc (Fresh s) \<Longrightarrow> Connecting (with_connection st buf s) h = Connecting s h"
  "h \<noteq> Suc (Fresh s) \<Longrightarrow> h \<in> Opened (with_connection st buf s) \<longleftrightarrow> h \<in> Opened s"
  "Writes (with_connection st buf s) = Writes s" "Reading (with_connection st buf s) = Reading s"
  "Closing (with_connection st buf s) = Closing s" "DataBuffer (with_connection st buf s) = DataBuffer s"
  "Faults (with_connection st buf s) = Faults s"
  by (simp_all add: with_connection_def)

lemma with_connection_agree: "k \<noteq> Suc (Fresh s) \<Longrightarrow> agree k s (with_connection st buf s)"
  by (simp add: agree_def with_connection_frame)

lemma inv_with_connection:
  assumes inv: "echo_client_inv s" and buf: "buf = DataBuffer s"
  shows "echo_client_inv (with_connection st buf s)" (is "echo_client_inv ?t")
proof -
  let ?h = "Suc (Fresh s)"
  have below: "p < Fresh s" if "Mem s p \<noteq> None" for p using that block_ok_of [OF inv] by auto
  have fresh: "?h \<notin> Opened s" using below client_invD [OF inv] by (metis not_less_eq less_imp_le_nat not_le)
  have old: "k < Fresh s" "data_of (Mem s k) < Fresh s" if "k \<in> Opened s" for k
    using client_invD [OF inv that] by fastforce+
  have "handle_ok k ?t" if k: "k \<in> Opened ?t" for k
  proof (cases "k = ?h")
    case True
    have "idle ?h s" "?h \<notin> Closing s" using not_opened [OF inv fresh] by auto
    then show ?thesis
      using True buf by (auto simp: handle_ok_def connection_ok_def idle_def with_connection_def)
  next
    case False
    then have "k \<in> Opened s" using k by (simp add: with_connection_frame)
    then obtain e l1 rc1 where e: "Mem s k = Some (TcpHandle (Some e))"
      "Mem s e = Some (ClientData (DataBuffer s) l1 rc1)" "connection_ok k rc1 s" using client_invD [OF inv] by metis
    have m: "Mem ?t p = Some b" if "Mem s p = Some b" for p b using that below by (simp add: with_connection_frame)
    have "connection_ok k rc1 ?t"
      using with_connection_agree [OF False] e(3) by (rule agree_connection) (rule m)
    then show ?thesis using e m by (simp add: handle_ok_def with_connection_frame)
  qed
  moreover have "idle k ?t \<and> k \<notin> Closing ?t" if "k \<notin> Opened ?t" for k
    using not_opened [OF inv, of k] agree_idle [OF with_connection_agree, of k s st buf] that
    by (auto simp: with_connection_def)
  moreover have "p < Fresh ?t \<and> block_ok p b ?t" if p: "Mem ?t p = Some b" for p b
  proof (cases "p < Fresh s")
    case True
    then have o: "block_ok p b s" using p block_ok_of [OF inv] by (simp add: with_connection_frame)
    have "block_ok p b ?t"
      using o
    proof (rule block_ok_keep)
      show "agree k s ?t" if "k \<in> Opened s" for k using fresh that by (intro with_connection_agree) auto
      show "data_of (Mem ?t k) = data_of (Mem s k)" if "k \<in> Opened s" for k
        using old(1) [OF that] by (simp add: with_connection_frame)
    qed (auto simp: with_connection_def)
    then show ?thesis using True by (simp add: with_connection_def)
  next
    case False
    then have "Mem s p = None" by (rule client_fresh [OF inv, OF leI])
    then consider "p = Fresh s" | "p = ?h" | "p = Suc ?h"
      using p by (auto simp: with_connection_def split: if_splits)
    then show ?thesis
      using p not_opened [OF inv fresh] by cases (auto simp: with_connection_def idle_def)
  qed
  moreover have "data_of (Mem ?t h) = data_of (Mem ?t k) \<longrightarrow> h = k" if "h \<in> Opened ?t" "k \<in> Opened ?t" for h k
  proof -
    have "data_of (Mem ?t k) = (if k = ?h then Fresh s else data_of (Mem s k))" "k = ?h \<or> k \<in> Opened s \<and> data_of (Mem s k) \<noteq> Fresh s"
      if "k \<in> Opened ?t" for k
      using that old [of k] by (auto simp: with_connection_def)
    then show ?thesis using that data_inj [OF inv, of h k] by metis
  qed
  ultimately show ?thesis
    using inv by (auto simp: echo_client_inv_def with_connection_frame)
qed

definition next_started :: "int \<Rightarrow> int \<Rightarrow> uv_buf_t \<Rightarrow> echo_client \<Rightarrow> echo_client" where
  "next_started emfile st buf s =
     (let s = s\<lparr>connection_limit := connection_limit s - 1\<rparr>
      in if connection_limit s > 0
         then let s = with_connection st buf s
              in if st < 0 \<and> st = emfile then s\<lparr>fd_limit_exceeded := fd_limit_exceeded s + 1\<rparr> else s
         else s)"

lemma start_next_eq: "start_next emfile st buf s = next_started emfile st buf s"
  by (simp add: start_next_def next_started_def new_connection_eq Let_def)

text \<open>The counters of the statistics do not matter to the invariant.\<close>

lemma same_client:
  assumes "echo_client_inv s" "runtime.truncate t = runtime.truncate s" "DataBuffer t = DataBuffer s"
  shows "echo_client_inv t"
proof -
  have e: "Mem t = Mem s" "Fresh t = Fresh s" "Faults t = Faults s" "Opened t = Opened s" "Closing t = Closing s"
    "Reading t = Reading s" "Writes t = Writes s" "Connecting t = Connecting s"
    using assms(2) by (simp_all add: runtime.truncate_def)
  have i: "idle h t = idle h s" "halves h t = halves h s" for h using e by (simp_all add: idle_def halves_def)
  have "block_ok p b t = block_ok p b s" for p b using e i by (cases b) simp_all
  moreover have "handle_ok h t = handle_ok h s" for h
    using e i assms(3) by (simp add: handle_ok_def connection_ok_def cong: option.case_cong)
  ultimately show ?thesis using assms(1) e i by (simp add: echo_client_inv_def)
qed

lemma inv_start_next:
  assumes "echo_client_inv s" "buf = DataBuffer s"
  shows "echo_client_inv (start_next emfile st buf s)"
proof -
  let ?s = "s\<lparr>connection_limit := connection_limit s - 1\<rparr>"
  have i: "echo_client_inv ?s" using assms(1) by (rule same_client) (simp_all add: runtime.truncate_def)
  then have c: "echo_client_inv (with_connection st buf ?s)" by (rule inv_with_connection) (simp add: assms(2))
  then have "echo_client_inv (with_connection st buf ?s\<lparr>fd_limit_exceeded := fd_limit_exceeded (with_connection st buf ?s) + 1\<rparr>)"
    by (rule same_client) (simp_all add: runtime.truncate_def)
  then show ?thesis unfolding start_next_eq next_started_def Let_def using i c by (simp only: if_splits simp_thms)
qed

end
