(* ===== verification/Echo_Client_Steps.thy ===== *)
theory Echo_Client_Steps
  imports Echo_Client_Invariant
begin

text \<open>
  Each callback of the echo client keeps the invariant of Echo_Client_Invariant: the release of a half of a connection, the read and the
  write callback, the connect callback on each of its four ways out, and the close callback with its successor.
\<close>

section \<open>Releasing a half of a connection\<close>

lemma drop_ref_eq:
  assumes "Mem u d = Some (ClientData b l rc)" "h \<in> Opened u" "h \<notin> Closing u"
  shows "drop_ref h d u =
    (let u = u\<lparr>Mem := (Mem u)(d \<mapsto> ClientData b l (rc - 1))\<rparr>
     in if rc = 1 then u\<lparr>Closing := insert h (Closing u), Reading := Reading u - {h}\<rparr> else u)"
  using assms by (simp add: drop_ref_def deref_def assign_def c_uv_close_def Let_def)

lemma halves_0: "halves h s = 0 \<longleftrightarrow> h \<notin> Reading s \<and> Writes s h = []"
  by (auto simp: halves_def of_bool_def)

text \<open>\<open>u\<close>: one half of the connection is over, its count is still to be decremented.\<close>

lemma inv_drop_ref:
  assumes inv: "echo_client_inv s" and h: "h \<in> Opened s" "h \<notin> Closing s" "Connecting s h = None"
    and d: "Mem s h = Some (TcpHandle (Some d))" "Mem u d = Some (ClientData (DataBuffer s) l rc)"
    and same: "Opened u = Opened s" "DataBuffer u = DataBuffer s" "Fresh u = Fresh s" "Faults u = []"
      "Connecting u = Connecting s" "Closing u = Closing s"
    and others: "\<And>k. k \<noteq> h \<Longrightarrow> (k \<in> Reading u \<longleftrightarrow> k \<in> Reading s) \<and> Writes u k = Writes s k"
    and mem: "\<And>p b. Mem s p = Some b \<Longrightarrow> b \<noteq> WriteReq h \<Longrightarrow> Mem u p = Some b"
      "\<And>p b. Mem u p = Some b \<Longrightarrow> Mem s p = Some b \<and> (b = WriteReq h \<longrightarrow> Writes u h = Writes s h)"
    and writes: "Writes u h = [] \<or> (\<exists>r. Writes u h = [r] \<and> Mem u r = Some (WriteReq h))"
    and rc: "halves h u = rc - 1" "\<not> idle h s"
  shows "echo_client_inv (drop_ref h d u)" (is "echo_client_inv ?t")
proof (rule client_local [OF inv h(1) d(1)])
  have "h \<in> Opened u" "h \<notin> Closing u" using h same by simp_all
  note t = drop_ref_eq [OF d(2) this]
  show "Opened ?t = Opened s" "DataBuffer ?t = DataBuffer s" "Fresh s \<le> Fresh ?t" "Faults ?t = []"
    unfolding t using same by (simp_all add: Let_def)
  show "agree k s ?t" if "k \<noteq> h" for k
    unfolding t using same others [OF that] that by (simp add: agree_def Let_def)
  show "Mem ?t d = Some (ClientData (DataBuffer s) l (rc - 1))" unfolding t by (simp add: Let_def)
  show "Mem ?t p = Some b" if "Mem s p = Some b" "p \<noteq> d" "b \<noteq> WriteReq h" "b \<noteq> ConnectReq h" for p b
    unfolding t using that mem(1) by (simp add: Let_def)
  have i: "idle h u \<longleftrightarrow> rc = 1" using rc(1) h(3) same(5) halves_0 [of h u] by (auto simp: idle_def)
  have "Writes u h = [] \<or> (\<exists>r. r \<noteq> d \<and> Writes u h = [r] \<and> Mem u r = Some (WriteReq h))"
    using writes d(2) by auto
  then show "connection_ok h (rc - 1) ?t"
    unfolding t using h same i rc(1) d(2)
    by (auto simp: connection_ok_def idle_def halves_def Let_def)
  show "p < Fresh ?t \<and> block_ok p b ?t"
    if "Mem ?t p = Some b" "p \<noteq> d" "\<not> (Mem s p = Some b \<and> b \<noteq> WriteReq h \<and> b \<noteq> ConnectReq h)" for p b
  proof -
    have m: "Mem u p = Some b" using that(1,2) unfolding t by (simp add: Let_def split: if_splits)
    then have b: "Mem s p = Some b" "b = WriteReq h \<or> b = ConnectReq h" using mem(2) that(3) by auto
    have o: "p < Fresh s" "block_ok p b s" using block_ok_of [OF inv b(1)] by auto
    then have "b = WriteReq h" using b(2) h(2,3) rc(2) by auto
    then show ?thesis
      unfolding t using o mem(2) [OF m] h(1) same by (simp add: Let_def)
  qed
qed

text \<open>A stream that reads, or that writes, is one whose connection is established.\<close>

lemma established:
  assumes "echo_client_inv s" "h \<in> Reading s \<or> Writes s h \<noteq> []"
  obtains d l where "h \<in> Opened s" "h \<notin> Closing s" "Connecting s h = None" "Mem s h = Some (TcpHandle (Some d))"
    "Mem s d = Some (ClientData (DataBuffer s) l (halves h s))" "\<not> idle h s"
    "Writes s h = [] \<or> (\<exists>r. Writes s h = [r] \<and> Mem s r = Some (WriteReq h))"
proof -
  have i: "\<not> idle h s" using assms(2) by (auto simp: idle_def)
  then have h: "h \<in> Opened s" using not_opened [OF assms(1)] by blast
  obtain d l rc where "Mem s h = Some (TcpHandle (Some d))" "Mem s d = Some (ClientData (DataBuffer s) l rc)"
    and c: "connection_ok h rc s" by (rule client_invD [OF assms(1) h])
  moreover have "h \<notin> Closing s" "Connecting s h = None" using c i assms(2)
    by (auto simp: connection_ok_def split: option.splits)
  moreover from this have "rc = halves h s" using c i by (simp add: connection_ok_def)
  ultimately show thesis using that h i c by (auto simp: connection_ok_def)
qed

lemma inv_reading_over:
  assumes inv: "echo_client_inv s" and h: "h \<in> Reading s"
  shows "echo_client_inv (drop_ref h (data_of (Mem s h)) (c_uv_read_stop h s))"
proof -
  obtain d l where d: "h \<in> Opened s" "h \<notin> Closing s" "Connecting s h = None" "Mem s h = Some (TcpHandle (Some d))"
    "Mem s d = Some (ClientData (DataBuffer s) l (halves h s))" "\<not> idle h s"
    "Writes s h = [] \<or> (\<exists>r. Writes s h = [r] \<and> Mem s r = Some (WriteReq h))"
    using established [OF inv, of h] h by blast
  have "halves h (c_uv_read_stop h s) = halves h s - 1" using h by (simp add: halves_def c_uv_read_stop_def)
  then have "echo_client_inv (drop_ref h d (c_uv_read_stop h s))"
    using inv d by (intro inv_drop_ref [OF inv d(1,2,3,4)]) (auto simp: c_uv_read_stop_def echo_client_inv_def)
  then show ?thesis using d(4) by simp
qed

lemma inv_client_write:
  assumes inv: "echo_client_inv s" and w: "Writes s h \<noteq> []"
  shows "echo_client_inv (on_client_write (hd (Writes s h)) status (write_done h s))"
proof -
  obtain d l where d: "h \<in> Opened s" "h \<notin> Closing s" "Connecting s h = None" "Mem s h = Some (TcpHandle (Some d))"
    "Mem s d = Some (ClientData (DataBuffer s) l (halves h s))" "\<not> idle h s"
    "Writes s h = [] \<or> (\<exists>r. Writes s h = [r] \<and> Mem s r = Some (WriteReq h))"
    using established [OF inv, of h] w by blast
  then obtain r where r: "Writes s h = [r]" "Mem s r = Some (WriteReq h)" using w by auto
  let ?u = "s\<lparr>Writes := (Writes s)(h := []), Mem := (Mem s)(r := None)\<rparr>"
  have only: "p = r" if "Mem s p = Some (WriteReq h)" for p
    using block_ok_of [OF inv that] r(1) by simp
  have "d \<noteq> r" "h \<noteq> r" using d(4,5) r(2) by auto
  have "echo_client_inv (drop_ref h d ?u)"
  proof (rule inv_drop_ref [OF inv d(1,2,3,4)])
    show "Mem ?u d = Some (ClientData (DataBuffer s) l (halves h s))" using d(5) \<open>d \<noteq> r\<close> by simp
    show "Mem ?u p = Some b" if "Mem s p = Some b" "b \<noteq> WriteReq h" for p b using that r(2) by auto
    show "Mem s p = Some b \<and> (b = WriteReq h \<longrightarrow> Writes ?u h = Writes s h)" if "Mem ?u p = Some b" for p b
      using that only by (auto split: if_splits)
    show "halves h ?u = halves h s - 1" using r by (simp add: halves_def)
    show "Faults ?u = []" using inv by (simp add: echo_client_inv_def)
  qed (use d(6) in simp_all)
  moreover have "on_client_write (hd (Writes s h)) status (write_done h s) = drop_ref h d ?u"
    using r d(4) \<open>h \<noteq> r\<close> by (simp add: on_client_write_def write_done_def deref_def free_def Let_def)
  ultimately show ?thesis by simp
qed

lemma connection_of:
  assumes "echo_client_inv s" "h \<in> Opened s" "Mem s h = Some (TcpHandle (Some d))" "Mem s d = Some (ClientData b l rc)"
  shows "connection_ok h rc s" "b = DataBuffer s"
  using client_invD [OF assms(1,2)] assms(3,4) by (metis block.inject option.inject)+

text \<open>What \<open>on_client_read\<close> does between \<open>start_next\<close> and the release.\<close>

lemma inv_received:
  assumes m: "echo_client_inv m" "h \<in> Opened m" "Mem m h = Some (TcpHandle (Some d))"
    "Mem m d = Some (ClientData b l rc)"
  shows "echo_client_inv (m\<lparr>Mem := (Mem m)(d \<mapsto> ClientData b l' rc)\<rparr>)" (is "echo_client_inv ?u")
proof (rule client_local [OF m(1,2,3)])
  note c = connection_of [OF m]
  show "Faults ?u = []" using m by (simp add: echo_client_inv_def)
  show "agree k m ?u" for k by (simp add: agree_def)
  show "Mem ?u d = Some (ClientData (DataBuffer m) l' rc)" using c(2) by simp
  have "Writes m h = [] \<or> (\<exists>r. r \<noteq> d \<and> Writes m h = [r] \<and> Mem m r = Some (WriteReq h))"
    using c(1) m(4) by (auto simp: connection_ok_def)
  then show "connection_ok h rc ?u"
    using c(1) m(4) by (auto simp: connection_ok_def idle_def halves_def split: option.splits)
  show "p < Fresh ?u \<and> block_ok p x ?u" if "Mem ?u p = Some x" "p \<noteq> d"
    "\<not> (Mem m p = Some x \<and> x \<noteq> WriteReq h \<and> x \<noteq> ConnectReq h)" for p x
    using that block_ok_of [OF m(1), of p x] by (auto simp: idle_def)
qed simp_all

lemma inv_client_read:
  assumes inv: "echo_client_inv s" and h: "h \<in> Reading s"
  shows "echo_client_inv (on_client_read emfile st h nread s)"
proof -
  obtain d l where d: "h \<in> Opened s" "Mem s h = Some (TcpHandle (Some d))"
    "Mem s d = Some (ClientData (DataBuffer s) l (halves h s))" "Connecting s h = None"
    using established [OF inv, of h] h by blast
  define n where "n = (if fd_limit_exceeded s = 0 \<and> l = sint (len (DataBuffer s))
    then start_next emfile st (DataBuffer s) s else s)"
  define m where "m = n\<lparr>total_bytes_received := total_bytes_received n + nread\<rparr>"
  define u where "u = m\<lparr>Mem := (Mem m)(d \<mapsto> ClientData (DataBuffer s) (l - nread) (halves h s))\<rparr>"
  have n: "echo_client_inv n" using inv inv_start_next [OF inv] by (simp add: n_def)
  have below: "h < Fresh s" "d < Fresh s" using block_ok_of [OF inv] d(2,3) by auto
  then have same: "Mem n h = Some (TcpHandle (Some d))" "Mem n d = Mem s d" "h \<in> Reading n" "h \<in> Opened n"
    using d h by (simp_all add: n_def start_next_eq next_started_def with_connection_frame Let_def)
  have m: "echo_client_inv m" using n by (rule same_client) (simp_all add: m_def runtime.truncate_def)
  then have u: "echo_client_inv u" unfolding u_def using same d(3) by (intro inv_received) (simp_all add: m_def)
  have "d \<noteq> h" using d(2,3) by auto
  then have "echo_client_inv (drop_ref h d (c_uv_read_stop h u))"
    using inv_reading_over [OF u, of h] same by (simp add: u_def m_def)
  moreover have "on_client_read emfile st h nread s =
      (if nread < 0 then drop_ref h (data_of (Mem s h)) (c_uv_read_stop h s)
       else if l - nread \<le> 0 then drop_ref h d (c_uv_read_stop h u) else u)"
  proof (cases "fd_limit_exceeded s = 0 \<and> l = sint (len (DataBuffer s))")
    case True
    then have "n = start_next emfile st (DataBuffer s) s" by (simp add: n_def)
    then show ?thesis
      using True d same(2) by (simp add: on_client_read_def on_client_read_some_def deref_def assign_def m_def u_def Let_def)
  next
    case False
    then have "n = s" by (simp only: n_def if_False)
    then show ?thesis
      using False d by (auto simp: on_client_read_def on_client_read_some_def deref_def assign_def m_def u_def Let_def)
  qed
  ultimately show ?thesis using u inv_reading_over [OF inv h] by simp
qed

section \<open>Connecting and closing\<close>

lemma connecting:
  assumes "echo_client_inv s" "Connecting s h = Some r"
  obtains d l where "h \<in> Opened s" "h \<notin> Closing s" "h \<notin> Reading s" "Writes s h = []"
    "Mem s r = Some (ConnectReq h)" "Mem s h = Some (TcpHandle (Some d))" "Mem s d = Some (ClientData (DataBuffer s) l 2)"
proof -
  have i: "\<not> idle h s" using assms(2) by (simp add: idle_def)
  then have h: "h \<in> Opened s" using not_opened [OF assms(1)] by blast
  obtain d l rc where "Mem s h = Some (TcpHandle (Some d))" "Mem s d = Some (ClientData (DataBuffer s) l rc)"
    "connection_ok h rc s" by (rule client_invD [OF assms(1) h])
  then show thesis using that h i assms(2) by (auto simp: connection_ok_def)
qed

text \<open>\<open>u\<close>: the connect request is gone; either the handle is being closed, or both halves are under way.\<close>

lemma inv_connect_over:
  assumes inv: "echo_client_inv s" and c: "Connecting s h = Some r"
    and same: "Opened t = Opened s" "DataBuffer t = DataBuffer s" "Fresh t \<ge> Fresh s" "Faults t = []"
      "Connecting t = (Connecting s)(h := None)"
    and others: "\<And>k. k \<noteq> h \<Longrightarrow> (k \<in> Reading t \<longleftrightarrow> k \<in> Reading s) \<and> (k \<in> Closing t \<longleftrightarrow> k \<in> Closing s) \<and> Writes t k = Writes s k"
    and mem: "Mem t = (Mem s)(r := None) \<and> h \<in> Closing t \<and> h \<notin> Reading t \<and> Writes t h = [] \<or>
      Mem t = (Mem s)(r := None, Fresh s \<mapsto> WriteReq h) \<and> Fresh s < Fresh t \<and> h \<notin> Closing t \<and> h \<in> Reading t \<and>
        Writes t h = [Fresh s]"
  shows "echo_client_inv t"
proof -
  obtain d l where d: "h \<in> Opened s" "h \<notin> Closing s" "h \<notin> Reading s" "Writes s h = []" "Mem s r = Some (ConnectReq h)"
    "Mem s h = Some (TcpHandle (Some d))" "Mem s d = Some (ClientData (DataBuffer s) l 2)"
    by (rule connecting [OF inv c])
  have only: "p = r" if "Mem s p = Some (ConnectReq h)" for p
    using block_ok_of [OF inv that] c by (simp add: idle_def)
  have none: "Mem s p \<noteq> Some (WriteReq h)" for p
    using block_ok_of [OF inv, of p "WriteReq h"] d(4) by auto
  have fresh: "Mem s (Fresh s) = None" using client_fresh [OF inv] by simp
  show ?thesis
  proof (rule client_local [OF inv d(1,6) same(1-4)])
    show "agree k s t" if "k \<noteq> h" for k using others [OF that] same(5) that by (simp add: agree_def)
    show "Mem t p = Some b" if "Mem s p = Some b" "b \<noteq> ConnectReq h" for p b
      using mem that d(5) fresh by auto
    have "d \<noteq> r" "d \<noteq> Fresh s" using d(5,7) fresh by auto
    then show "Mem t d = Some (ClientData (DataBuffer s) l 2)" using mem d(7) by auto
    show "connection_ok h 2 t"
      using mem same(5) by (auto simp: connection_ok_def idle_def halves_def)
    show "p < Fresh t \<and> block_ok p b t"
      if "Mem t p = Some b" "\<not> (Mem s p = Some b \<and> b \<noteq> WriteReq h \<and> b \<noteq> ConnectReq h)" for p b
    proof -
      have "p = Fresh s" "b = WriteReq h" "Mem t \<noteq> (Mem s)(r := None)"
        using that mem only none [of p] by (auto split: if_splits)
      then show ?thesis using mem d(1) same(1) by auto
    qed
  qed
qed

lemma inv_on_connect:
  assumes inv: "echo_client_inv s" and c: "Connecting s h = Some r"
  shows "echo_client_inv (on_connect st st' r status (connect_done h s))"
proof -
  obtain d l where d: "h \<in> Opened s" "h \<notin> Closing s" "h \<notin> Reading s" "Writes s h = []" "Mem s r = Some (ConnectReq h)"
    "Mem s h = Some (TcpHandle (Some d))" "Mem s d = Some (ClientData (DataBuffer s) l 2)"
    by (rule connecting [OF inv c])
  have fresh: "Mem s (Fresh s) = None" using client_fresh [OF inv] by simp
  have ne: "h \<noteq> r" "d \<noteq> r" "h \<noteq> Fresh s" "d \<noteq> Fresh s" "r \<noteq> Fresh s" using d fresh by auto
  have f: "Faults s = []" using inv by (simp add: echo_client_inv_def)
  note e = on_connect_def connect_done_def deref_def free_def c_uv_close_def c_uv_read_start_def malloc_def
    c_uv_write_def c_uv_read_stop_def Let_def
  have m: "(Mem s)(r := None, Fresh s := None) = (Mem s)(r := None)" using fresh ne(5) by (simp add: fun_eq_iff)
  let ?c = "\<lambda>n. s\<lparr>Connecting := (Connecting s)(h := None), Mem := (Mem s)(r := None), Fresh := n,
    Closing := insert h (Closing s), Reading := Reading s - {h}\<rparr>"
  let ?w = "s\<lparr>Connecting := (Connecting s)(h := None), Reading := insert h (Reading s),
    Mem := (Mem s)(r := None, Fresh s \<mapsto> WriteReq h), Fresh := Suc (Fresh s), Writes := (Writes s)(h := [Fresh s])\<rparr>"
  have "on_connect st st' r status (connect_done h s) =
      (if status < 0 \<or> st < 0 then ?c (Fresh s) else if st' < 0 then ?c (Suc (Fresh s)) else ?w)"
    using d ne m by (simp add: e)
  moreover have "echo_client_inv (?c (Fresh s))"
    by (rule inv_connect_over [OF inv c]) (use d(4) f in simp_all)
  moreover have "echo_client_inv (?c (Suc (Fresh s)))"
    by (rule inv_connect_over [OF inv c]) (use d(4) f in simp_all)
  moreover have "echo_client_inv ?w"
    by (rule inv_connect_over [OF inv c]) (use d(2) f in simp_all)
  ultimately show ?thesis by simp
qed

definition without_connection :: "ptr \<Rightarrow> echo_client \<Rightarrow> echo_client" where
  "without_connection h s =
     s\<lparr>Opened := Opened s - {h}, Closing := Closing s - {h}, Mem := (Mem s)(data_of (Mem s h) := None, h := None)\<rparr>"

lemma closing_data:
  assumes "echo_client_inv s" "h \<in> Closing s"
  obtains d l rc where "h \<in> Opened s" "Mem s h = Some (TcpHandle (Some d))" "Mem s d = Some (ClientData (DataBuffer s) l rc)"
    "idle h s" "d \<noteq> h" "h < Fresh s" "d < Fresh s"
proof -
  have h: "h \<in> Opened s" using not_opened [OF assms(1)] assms(2) by blast
  show thesis
    by (rule client_invD [OF assms(1) h]) (use that h assms(2) in \<open>auto simp: connection_ok_def\<close>)
qed

lemma inv_without_connection:
  assumes inv: "echo_client_inv s" and h: "h \<in> Closing s"
  shows "echo_client_inv (without_connection h s)" (is "echo_client_inv ?t")
proof -
  obtain d l rc where d: "h \<in> Opened s" "Mem s h = Some (TcpHandle (Some d))" "Mem s d = Some (ClientData (DataBuffer s) l rc)"
    "idle h s" "d \<noteq> h" "h < Fresh s" "d < Fresh s" by (rule closing_data [OF inv h])
  have t: "Mem ?t = (Mem s)(d := None, h := None)" using d(2) by (simp add: without_connection_def)
  have ag: "agree k s ?t" if "k \<noteq> h" for k using that by (simp add: agree_def without_connection_def)
  have m: "Mem ?t p = Some b" if "Mem s p = Some b" "p \<noteq> h" "p \<noteq> d" for p b using that t by simp
  have old: "Mem ?t k = Mem s k" "data_of (Mem s k) \<noteq> d" if "k \<in> Opened s" "k \<noteq> h" for k
    using client_invD [OF inv that(1)] data_inj [OF inv that(1) d(1)] t that(2) d(2,3) by fastforce+
  have "handle_ok k ?t" if k: "k \<in> Opened ?t" for k
  proof -
    have k: "k \<in> Opened s" "k \<noteq> h" using that by (auto simp: without_connection_def)
    obtain e l1 rc1 where e: "Mem s k = Some (TcpHandle (Some e))"
      "Mem s e = Some (ClientData (DataBuffer s) l1 rc1)" "connection_ok k rc1 s" by (rule client_invD [OF inv k(1)])
    have "e \<noteq> d" "e \<noteq> h" using old(2) [OF k] e d(2) by auto
    moreover have "connection_ok k rc1 ?t"
      using ag [OF k(2)] e(3) by (rule agree_connection) (rule m, use d(2,3) in auto)
    ultimately show ?thesis using e m old(1) [OF k] by (simp add: handle_ok_def without_connection_def)
  qed
  moreover have "idle k ?t \<and> k \<notin> Closing ?t" if "k \<notin> Opened ?t" for k
    using not_opened [OF inv, of k] that d(4) by (auto simp: without_connection_def idle_def)
  moreover have "p < Fresh ?t \<and> block_ok p b ?t" if p: "Mem ?t p = Some b" for p b
  proof -
    have p: "Mem s p = Some b" "p \<noteq> h" "p \<noteq> d" using p t by (auto split: if_splits)
    have o: "p < Fresh s" "block_ok p b s" using block_ok_of [OF inv p(1)] by auto
    show ?thesis
    proof (cases b)
      case (ClientData x y z)
      then obtain k where k: "k \<in> Opened s" "data_of (Mem s k) = p" using o(2) by auto
      moreover have "k \<noteq> h" using k p(3) d(2) by auto
      moreover from this have "k \<in> Opened ?t" "data_of (Mem ?t k) = p"
        using k old(1) [OF k(1)] by (simp_all add: without_connection_def)
      moreover have "p < Fresh ?t" using o(1) by (simp add: without_connection_def)
      ultimately show ?thesis using ClientData by auto
    qed (use o p h d(4) in \<open>auto simp: without_connection_def idle_def\<close>)
  qed
  ultimately show ?thesis
    using inv old(1) by (auto simp: echo_client_inv_def without_connection_def)
qed

text \<open>
  \<open>on_client_close\<close> starts a successor before it frees what the connection had; the new blocks are others, so the order does
  not matter.
\<close>

lemma on_client_close_eq:
  assumes inv: "echo_client_inv s" and h: "h \<in> Closing s"
  shows "on_client_close emfile st h (close_done h s) =
    (let s = s\<lparr>processed_connections := processed_connections s + 1\<rparr>
     in without_connection h (if fd_limit_exceeded s > 0 then start_next emfile st (DataBuffer s) s else s))"
proof -
  obtain d l rc where d: "Mem s h = Some (TcpHandle (Some d))" "Mem s d = Some (ClientData (DataBuffer s) l rc)"
    "d \<noteq> h" "h < Fresh s" "d < Fresh s" by (rule closing_data [OF inv h])
  define u where "u = s\<lparr>processed_connections := processed_connections s + 1\<rparr>"
  have u: "Mem u h = Some (TcpHandle (Some d))" "Mem u d = Some (ClientData (DataBuffer s) l rc)" "h < Fresh u"
    "d < Fresh u" "DataBuffer u = DataBuffer s" "fd_limit_exceeded u = fd_limit_exceeded s" using d by (simp_all add: u_def)
  have free: "free h (free d (close_done h v)) = without_connection h v"
    if "Mem v h = Some (TcpHandle (Some d))" "Mem v d = Some z" for v :: echo_client and z
    using that d(3) by (simp add: free_def close_done_def without_connection_def)
  have c: "close_done h s\<lparr>processed_connections := processed_connections (close_done h s) + 1\<rparr> = close_done h u"
    by (simp add: close_done_def u_def)
  have ne: "h \<noteq> Suc (Fresh u)" using u(3) by simp
  have start: "start_next emfile st (DataBuffer s) (close_done h u) = close_done h (start_next emfile st (DataBuffer s) u)"
    using ne by (simp add: start_next_eq next_started_def with_connection_def close_done_def insert_Diff_if Let_def)
  let ?n = "start_next emfile st (DataBuffer s) u"
  have n: "Mem ?n h = Mem u h" "Mem ?n d = Mem u d"
    using u(3,4) by (simp_all add: start_next_eq next_started_def with_connection_frame Let_def)
  have m: "Mem (close_done h v) = Mem v" "fd_limit_exceeded (close_done h v) = fd_limit_exceeded v" for v :: echo_client
    by (simp_all add: close_done_def)
  have "on_client_close emfile st h (close_done h s) =
      (if fd_limit_exceeded u > 0 then free h (free d (close_done h ?n)) else free h (free d (close_done h u)))"
    using u(1,2,6) d(1,2) c start by (simp add: on_client_close_def deref_def m Let_def)
  then show ?thesis
    using free [of u] free [of ?n] u n by (simp add: Let_def u_def [symmetric])
qed

lemma inv_client_close:
  assumes inv: "echo_client_inv s" and h: "h \<in> Closing s"
  shows "echo_client_inv (on_client_close emfile st h (close_done h s))"
proof -
  let ?u = "s\<lparr>processed_connections := processed_connections s + 1\<rparr>"
  let ?n = "if fd_limit_exceeded ?u > 0 then start_next emfile st (DataBuffer ?u) ?u else ?u"
  have u: "echo_client_inv ?u" using inv by (rule same_client) (simp_all add: runtime.truncate_def)
  then have "echo_client_inv ?n" using inv_start_next [OF u] by simp
  moreover have "h \<in> Closing ?n"
    using h by (simp add: start_next_eq next_started_def with_connection_frame Let_def)
  ultimately have "echo_client_inv (without_connection h ?n)" by (rule inv_without_connection)
  then show ?thesis unfolding on_client_close_eq [OF inv h] Let_def by simp
qed

lemma inv_client_step:
  assumes "echo_client_inv s" "client_enabled e s"
  shows "echo_client_inv (client_step emfile e s)"
proof (cases e)
  case (Connected h status st st')
  then show ?thesis using assms inv_on_connect [OF assms(1)] by auto
next
  case (ClientGot h nread st)
  then show ?thesis using assms inv_client_read [OF assms(1)] by simp
next
  case (ClientWritten h status)
  then show ?thesis using assms inv_client_write [OF assms(1)] by simp
next
  case (ClientGone h st)
  then show ?thesis using assms inv_client_close [OF assms(1)] by simp
qed

end
