(* ===== verification/Echo_Client_Safety.thy ===== *)
theory Echo_Client_Safety
  imports Echo_Client_Steps
begin

text \<open>
  The properties of all runs of the echo client: no memory is misused and every connection is closed once,
  the reference counts are right, as many connections are started as were asked for, and a connection that libuv refuses to start
  is never released.
\<close>

section \<open>Counting the connections\<close>

definition tally :: "echo_client \<Rightarrow> ptr set \<times> nat \<times> int \<times> int" where
  "tally s = (Opened s, Started s, connection_limit s, processed_connections s)"

lemma tally_calls [simp]:
  "tally (deref p s) = tally s" "tally (assign p b s) = tally s" "tally (free p s) = tally s"
  "tally (c_uv_close h s) = tally s" "tally (c_uv_read_start st h s) = tally s"
  "tally (c_uv_read_stop h s) = tally s" "tally (c_uv_write st r h s) = tally s"
  "tally (write_done h s) = tally s" "tally (connect_done h s) = tally s"
  "tally (s\<lparr>total_bytes_received := n\<rparr>) = tally s" "tally (s\<lparr>Mem := m, Fresh := f\<rparr>) = tally s"
  by (simp_all add: c_defs tally_def)

lemma tally_drop_ref [simp]: "tally (drop_ref h d s) = tally s"
  by (simp add: drop_ref_def Let_def)

definition counted :: "int \<Rightarrow> echo_client \<Rightarrow> bool" where
  "counted n s \<longleftrightarrow> finite (Opened s) \<and> int (Started s) = processed_connections s + int (card (Opened s)) \<and>
     int (Started s) + max 0 (connection_limit s - 1) = n"

lemma counted_cong: "tally s = tally t \<Longrightarrow> counted n s \<longleftrightarrow> counted n t"
  by (simp add: tally_def counted_def)

lemma fresh_not_opened: "echo_client_inv s \<Longrightarrow> Suc (Fresh s) \<notin> Opened s"
  by (metis client_invD not_less_eq less_SucI less_asym)

lemma counted_start_next:
  assumes "counted n s" "echo_client_inv s"
  shows "counted n (start_next emfile st buf s)"
  using assms fresh_not_opened [OF assms(2)]
  by (auto simp: start_next_eq next_started_def with_connection_def counted_def Let_def)

lemma counted_step:
  assumes c: "counted n s" and inv: "echo_client_inv s" and e: "client_enabled e s"
  shows "counted n (client_step emfile e s)"
proof (cases e)
  case (Connected h status st st')
  have "tally (on_connect st st' r status u) = tally u" for r u
    by (simp add: on_connect_def malloc_def Let_def)
  then have "counted n (on_connect st st' r status (connect_done h s))" for r
    by (intro iffD2 [OF counted_cong c]) simp
  then show ?thesis using Connected c by (simp split: option.splits)
next
  case (ClientGot h nread st)
  then have "h \<in> Reading s" using e by simp
  then obtain d l where d: "Mem s h = Some (TcpHandle (Some d))" "Mem s d = Some (ClientData (DataBuffer s) l (halves h s))"
    using established [OF inv, of h] by blast
  have "tally (on_client_read emfile st h nread s) = tally s \<or>
      tally (on_client_read emfile st h nread s) = tally (start_next emfile st (DataBuffer s) s)"
    using d by (simp add: on_client_read_def on_client_read_some_def deref_def Let_def)
  then show ?thesis
    using ClientGot c counted_start_next [OF c inv] counted_cong by (metis client_step.simps(2))
next
  case (ClientWritten h status)
  have "tally (on_client_write r status u) = tally u" for r u by (simp add: on_client_write_def Let_def)
  then have "counted n (on_client_write r status (write_done h s))" for r
    by (intro iffD2 [OF counted_cong c]) simp
  then show ?thesis using ClientWritten by simp
next
  case (ClientGone h st)
  let ?u = "s\<lparr>processed_connections := processed_connections s + 1\<rparr>"
  let ?n = "if fd_limit_exceeded ?u > 0 then start_next emfile st (DataBuffer s) ?u else ?u"
  have h: "h \<in> Closing s" using ClientGone e by simp
  then have o: "h \<in> Opened s" using closing_data [OF inv h] by blast
  have f: "Suc (Fresh s) \<notin> Opened s" "h \<noteq> Suc (Fresh s)" using fresh_not_opened [OF inv] o by auto
  have "0 < card (Opened s)" using c o by (auto simp: counted_def card_gt_0_iff)
  then have "int (card (Opened s) - Suc 0) = int (card (Opened s)) - 1" by linarith
  then have "counted n (without_connection h ?n)"
    using c o f by (auto simp: counted_def without_connection_def start_next_eq next_started_def
        with_connection_def card_Diff_singleton insert_Diff_if card_insert_if Let_def)
  then show ?thesis using ClientGone on_client_close_eq [OF inv h] by (simp add: Let_def split del: if_split cong: if_cong)
qed

section \<open>Connections at rest\<close>

text \<open>A handle that is open and of which nothing is under way stays so: no callback is ever called for it.\<close>

definition at_rest :: "ptr \<Rightarrow> echo_client \<Rightarrow> bool" where
  "at_rest h s \<longleftrightarrow> h \<in> Opened s \<and> h \<notin> Closing s \<and> idle h s"

lemma at_rest_calls [simp]:
  "at_rest h (deref p s) = at_rest h s" "at_rest h (assign p b s) = at_rest h s" "at_rest h (free p s) = at_rest h s"
  "at_rest h (s\<lparr>total_bytes_received := n\<rparr>) = at_rest h s" "at_rest h (s\<lparr>processed_connections := k\<rparr>) = at_rest h s"
  "at_rest h (s\<lparr>Mem := m, Fresh := f\<rparr>) = at_rest h s"
  by (simp_all add: c_defs at_rest_def idle_def)

lemma at_rest_stream [simp]:
  assumes "h \<noteq> k"
  shows "at_rest h (c_uv_close k s) = at_rest h s" "at_rest h (c_uv_read_stop k s) = at_rest h s"
    "at_rest h (c_uv_read_start st k s) = at_rest h s" "at_rest h (c_uv_write st r k s) = at_rest h s"
    "at_rest h (write_done k s) = at_rest h s" "at_rest h (connect_done k s) = at_rest h s"
    "at_rest h (close_done k s) = at_rest h s"
  using assms by (simp_all add: c_defs at_rest_def idle_def)

lemma at_rest_drop_ref [simp]: "h \<noteq> k \<Longrightarrow> at_rest h (drop_ref k d s) = at_rest h s"
  by (simp add: drop_ref_def Let_def)

lemma at_rest_start_next: "at_rest h s \<Longrightarrow> h < Fresh s \<Longrightarrow> at_rest h (start_next emfile st buf s)"
  by (simp add: at_rest_def start_next_eq next_started_def with_connection_def idle_def Let_def)

lemma at_rest_step:
  assumes r: "at_rest h s" and inv: "echo_client_inv s" and e: "client_enabled e s"
  shows "at_rest h (client_step emfile e s)"
proof -
  have below: "h < Fresh s" using r client_invD [OF inv, of h] by (auto simp: at_rest_def)
  show ?thesis
  proof (cases e)
    case (Connected k status st st')
    then obtain q where q: "Connecting s k = Some q" using e by auto
    then have k: "h \<noteq> k" using r by (auto simp: at_rest_def idle_def)
    obtain d l where "k \<noteq> q" "Mem s q = Some (ConnectReq k)" using connecting [OF inv q] by fastforce
    moreover have m: "Mem (connect_done k s) = Mem s" by (simp add: connect_done_def)
    ultimately have "at_rest h (on_connect st st' q status (connect_done k s))"
      using r k by (simp add: on_connect_def deref_def [of q] m malloc_def Let_def)
    then show ?thesis using Connected q by simp
  next
    case (ClientGot k nread st)
    then have k: "h \<noteq> k" "k \<in> Reading s" using e r by (auto simp: at_rest_def idle_def)
    obtain d l where d: "Mem s k = Some (TcpHandle (Some d))" "Mem s d = Some (ClientData (DataBuffer s) l (halves k s))"
      using established [OF inv, of k] k(2) by blast
    have "at_rest h (on_client_read emfile st k nread s)"
      using d k(1) r at_rest_start_next [OF r below]
      by (simp add: on_client_read_def on_client_read_some_def deref_def Let_def)
    then show ?thesis using ClientGot by simp
  next
    case (ClientWritten k status)
    then have k: "h \<noteq> k" "Writes s k \<noteq> []" using e r by (auto simp: at_rest_def idle_def)
    obtain q where q: "Writes s k = [q]" "Mem s q = Some (WriteReq k)" using established [OF inv, of k] k(2) by blast
    moreover have m: "Mem (write_done k s) = Mem s" by (simp add: write_done_def)
    ultimately have "at_rest h (on_client_write q status (write_done k s))"
      using r k(1) m by (simp add: on_client_write_def deref_def [of q] Let_def)
    then show ?thesis using ClientWritten q by simp
  next
    case (ClientGone k st)
    then have k: "h \<noteq> k" "k \<in> Closing s" using e r by (auto simp: at_rest_def)
    then have "at_rest h (without_connection k s')" if "at_rest h s'" for s'
      using that by (simp add: at_rest_def without_connection_def idle_def)
    then show ?thesis
      using ClientGone on_client_close_eq [OF inv k(2)] r below at_rest_start_next
      by (simp add: Let_def)
  qed
qed

section \<open>Runs\<close>

lemma start_next_fold:
  assumes "echo_client_inv s" "finite (Opened s)" "DataBuffer s = buf" "Opened s = {}" "processed_connections s = 0" "Started s = 0"
  shows "let t = fold (\<lambda>st s. snd (new_connection st buf s)) sts s
    in echo_client_inv t \<and> DataBuffer t = buf \<and> Fresh t = Fresh s + 3 * length sts \<and>
       finite (Opened t) \<and> card (Opened t) = length sts \<and> Started t = length sts \<and> processed_connections t = 0 \<and>
       connection_limit t = connection_limit s \<and>
       (\<forall>i < length sts. sts ! i < 0 \<longrightarrow> at_rest (Fresh s + 3 * i + 1) t)"
proof (induction sts rule: rev_induct)
  case Nil
  then show ?case using assms by simp
next
  case (snoc st sts)
  let ?t = "fold (\<lambda>st s. snd (new_connection st buf s)) sts s"
  have i: "echo_client_inv ?t" "DataBuffer ?t = buf" "Fresh ?t = Fresh s + 3 * length sts" "finite (Opened ?t)"
    "\<forall>i < length sts. sts ! i < 0 \<longrightarrow> at_rest (Fresh s + 3 * i + 1) ?t"
    using snoc by (simp_all add: Let_def)
  have o: "Suc (Fresh ?t) \<notin> Opened ?t" by (rule fresh_not_opened [OF i(1)])
  have "idle (Suc (Fresh ?t)) ?t \<and> Suc (Fresh ?t) \<notin> Closing ?t" by (rule not_opened [OF i(1) o])
  then have "at_rest (Suc (Fresh ?t)) (with_connection st buf ?t)" if "st < 0"
    using that by (simp add: at_rest_def with_connection_def idle_def)
  moreover have "at_rest (Fresh s + 3 * j + 1) (with_connection st buf ?t)" if "j < length sts" "sts ! j < 0" for j
    using i(3,5) that by (simp add: at_rest_def with_connection_def idle_def)
  ultimately have "at_rest (Fresh s + 3 * j + 1) (with_connection st buf ?t)"
    if "j < Suc (length sts)" "(sts @ [st]) ! j < 0" for j
    using that i(3) by (cases "j < length sts") (auto simp: nth_append less_Suc_eq)
  moreover have "echo_client_inv (with_connection st buf ?t)" using inv_with_connection [OF i(1)] i(2) by simp
  moreover have "Fresh (with_connection st buf t) = Fresh t + 3" "Opened (with_connection st buf t) = insert (Suc (Fresh t)) (Opened t)"
    "Started (with_connection st buf t) = Suc (Started t)" "connection_limit (with_connection st buf t) = connection_limit t"
    "processed_connections (with_connection st buf t) = processed_connections t" for t
    by (simp_all add: with_connection_def)
  ultimately show ?case
    using snoc o i(4) by (simp add: new_connection_eq with_connection_frame Let_def)
qed

lemma client_started:
  assumes "s = UvEchoClient_start connections sts buf first"
  shows "echo_client_inv s" "counted (max (int (length sts)) connections) s"
    "i < length sts \<Longrightarrow> sts ! i < 0 \<Longrightarrow> at_rest (first + 3 * i + 1) s"
proof -
  let ?c = "client_init connections (length sts) buf first"
  have c: "Opened ?c = {}" "DataBuffer ?c = buf" "processed_connections ?c = 0" "Started ?c = 0" "Fresh ?c = first"
    "connection_limit ?c = connections - int (length sts) + 1"
    by (simp_all add: client_init_def runtime_init_def runtime.defs)
  have "echo_client_inv ?c"
    by (simp add: client_init_def runtime_init_def runtime.defs echo_client_inv_def idle_def)
  from start_next_fold [OF this _ c(2,1,3,4), of sts]
  show "echo_client_inv s" "counted (max (int (length sts)) connections) s"
    "i < length sts \<Longrightarrow> sts ! i < 0 \<Longrightarrow> at_rest (first + 3 * i + 1) s"
    using c by (simp_all add: assms UvEchoClient_start_def counted_def Let_def)
qed

lemma client_run_keeps:
  assumes "run_echo_client emfile es s = Some t" "echo_client_inv s" "counted n s"
  shows "echo_client_inv t \<and> counted n t \<and> (\<forall>h. at_rest h s \<longrightarrow> at_rest h t)"
  using assms
proof (induction es arbitrary: s)
  case (Cons e es)
  then have e: "client_enabled e s" "run_echo_client emfile es (client_step emfile e s) = Some t" by (simp_all split: if_splits)
  then show ?case
    using Cons.IH [OF e(2)] inv_client_step [OF Cons.prems(2) e(1)] counted_step [OF Cons.prems(3,2) e(1)]
      at_rest_step [OF _ Cons.prems(2) e(1)] by blast
qed simp

lemma client_reached:
  assumes "run_echo_client emfile es (UvEchoClient_start connections sts buf first) = Some s"
  shows "echo_client_inv s" "counted (max (int (length sts)) connections) s"
    "i < length sts \<Longrightarrow> sts ! i < 0 \<Longrightarrow> at_rest (first + 3 * i + 1) s"
  using client_run_keeps [OF assms client_started(1,2) [OF refl]] client_started(3) [OF refl] by blast+

section \<open>Properties\<close>

text \<open>
  C34: the memory of the client is safe in every run: no block is used or freed that is not allocated, and no handle is closed twice.
  Nothing leaks when every connection has been closed, and then each that was started has been counted.
\<close>

theorem client_memory_is_safe:
  assumes "run_echo_client emfile es (UvEchoClient_start connections sts buf first) = Some s"
  shows "Faults s = [] \<and> (Opened s = {} \<longrightarrow> Mem s = Map.empty \<and> processed_connections s = int (Started s))"
proof -
  have i: "echo_client_inv s" by (rule client_reached [OF assms])
  have "Mem s p = None" if "Opened s = {}" for p
    using block_ok_of [OF i, of p] that by (cases "Mem s p") (auto elim: block_ok.elims)
  then show ?thesis using i client_reached(2) [OF assms] by (auto simp: echo_client_inv_def counted_def)
qed

definition one_connection :: echo_client where
  "one_connection = UvEchoClient_start 1 [0] \<lparr>base = 50, len = 4\<rparr> 100"

definition one_run :: "client_event list" where
  "one_run = [Connected 101 0 0 0, ClientGot 101 4 0, ClientWritten 101 0, ClientGone 101 0]"

lemmas client_eval = one_connection_def one_run_def UvEchoClient_start_def client_init_def runtime_init_def
  runtime.defs new_connection_def on_connect_def on_client_read_def on_client_read_some_def on_client_write_def
  on_client_close_def drop_ref_def start_next_def c_defs Let_def

theorem client_memory_is_safe_witness:
  "\<exists>s. run_echo_client (-24) one_run one_connection = Some s \<and> Opened s = {} \<and> Mem s = Map.empty \<and>
     processed_connections s = 1 \<and> total_bytes_received s = 4"
proof -
  have "case run_echo_client (-24) one_run one_connection of None \<Rightarrow> False
      | Some s \<Rightarrow> Opened s = {} \<and> Started s = 1 \<and> total_bytes_received s = 4"
    by (simp add: client_eval)
  then obtain s where s: "run_echo_client (-24) one_run one_connection = Some s" "Opened s = {}" "Started s = 1"
    "total_bytes_received s = 4" by (auto split: option.splits)
  then show ?thesis
    using client_memory_is_safe [OF s(1) [unfolded one_connection_def]] by simp
qed

text \<open>
  the reference count of a connection that is established is the number of its halves that are under way, the reading
  and the writing, so it is never zero without the handle being closed; and no callback is pending on a handle that is being closed.
\<close>

theorem client_counts_its_halves:
  assumes "run_echo_client emfile es (UvEchoClient_start connections sts buf first) = Some s"
    and "h \<in> Reading s \<or> Writes s h \<noteq> []"
  shows "rc_of (Mem s (data_of (Mem s h))) = of_bool (h \<in> Reading s) + of_bool (Writes s h \<noteq> []) \<and>
    h \<in> Opened s - Closing s \<and> length (Writes s h) \<le> 1"
proof (rule established [OF client_reached(1) [OF assms(1)] assms(2)])
  fix d l
  assume "h \<in> Opened s" "h \<notin> Closing s" "Mem s h = Some (TcpHandle (Some d))"
    "Mem s d = Some (ClientData (DataBuffer s) l (halves h s))"
    "Writes s h = [] \<or> (\<exists>r. Writes s h = [r] \<and> Mem s r = Some (WriteReq h))"
  then show ?thesis by (auto simp: halves_def)
qed

theorem client_counts_its_halves_witness:
  "\<exists>s. run_echo_client (-24) [Connected 101 0 0 0] one_connection = Some s \<and> rc_of (Mem s (data_of (Mem s 101))) = 2"
proof -
  have "case run_echo_client (-24) [Connected 101 0 0 0] one_connection of None \<Rightarrow> False
      | Some s \<Rightarrow> Reading s = {101} \<and> Writes s 101 = [103]"
    by (simp add: client_eval)
  then obtain s where s: "run_echo_client (-24) [Connected 101 0 0 0] one_connection = Some s" "Reading s = {101}"
    "Writes s 101 = [103]" by (auto split: option.splits)
  then show ?thesis
    using client_counts_its_halves [OF s(1) [unfolded one_connection_def], of 101] by simp
qed

text \<open>
  C35: the number of connections. Those started and those still to be started are always as many as asked for, which is the larger of the two
  arguments \<open>connections\<close> and \<open>init_conn\<close>; so no more are ever started, whatever the reads and the errors.
\<close>

theorem client_starts_as_many_as_asked:
  assumes "run_echo_client emfile es (UvEchoClient_start connections sts buf first) = Some s"
  shows "int (Started s) + max 0 (connection_limit s - 1) = max (int (length sts)) connections \<and>
    int (Started s) \<le> max (int (length sts)) connections \<and>
    int (Started s) = processed_connections s + int (card (Opened s))"
  using client_reached(2) [OF assms] unfolding counted_def by (auto simp: max_def split: if_splits)

theorem client_starts_as_many_as_asked_witness:
  "\<exists>s. run_echo_client (-24) [Connected 101 0 0 0, ClientGot 101 4 0]
      (UvEchoClient_start 3 [0] \<lparr>base = 50, len = 4\<rparr> 100) = Some s \<and>
     Started s = 2 \<and> connection_limit s = 2 \<and> int (Started s) \<le> 3"
proof -
  have "case run_echo_client (-24) [Connected 101 0 0 0, ClientGot 101 4 0]
      (UvEchoClient_start 3 [0] \<lparr>base = 50, len = 4\<rparr> 100) of None \<Rightarrow> False
      | Some s \<Rightarrow> Started s = 2 \<and> connection_limit s = 2"
    by (simp add: client_eval)
  then obtain s where s: "run_echo_client (-24) [Connected 101 0 0 0, ClientGot 101 4 0]
      (UvEchoClient_start 3 [0] \<lparr>base = 50, len = 4\<rparr> 100) = Some s" "Started s = 2" "connection_limit s = 2"
    by (auto split: option.splits)
  then show ?thesis
    using client_starts_as_many_as_asked [OF s(1)] by simp
qed

text \<open>
  what a connection costs that libuv refuses to start. No callback will ever be called for it, and \<open>UvEchoClient\<close> does
  not look at the result: in every run its handle stays open and its memory allocated.
\<close>

theorem refused_connection_is_never_released:
  assumes "run_echo_client emfile es (UvEchoClient_start connections sts buf first) = Some s"
    and "i < length sts" "sts ! i < 0"
  shows "first + 3 * i + 1 \<in> Opened s - Closing s \<and> Mem s (first + 3 * i + 1) \<noteq> None \<and>
    Mem s (data_of (Mem s (first + 3 * i + 1))) \<noteq> None \<and> processed_connections s < int (Started s)"
proof -
  let ?h = "first + 3 * i + 1"
  have r: "at_rest ?h s" using client_reached(3) [OF assms] .
  then have o: "?h \<in> Opened s" by (simp add: at_rest_def)
  have "Opened s \<noteq> {}" "finite (Opened s)" using o client_reached(2) [OF assms(1)] by (auto simp: counted_def)
  then have "processed_connections s < int (Started s)"
    using client_reached(2) [OF assms(1)] by (auto simp: counted_def card_gt_0_iff)
  moreover obtain d l rc where "Mem s ?h = Some (TcpHandle (Some d))" "Mem s d = Some (ClientData (DataBuffer s) l rc)"
    by (rule client_invD [OF client_reached(1) [OF assms(1)] o])
  ultimately show ?thesis using r by (simp add: at_rest_def)
qed

theorem refused_connection_is_never_released_witness:
  "\<exists>s. run_echo_client (-24) [Connected 104 0 0 0] (UvEchoClient_start 2 [-24, 0] \<lparr>base = 50, len = 4\<rparr> 100) = Some s \<and>
     101 \<in> Opened s - Closing s \<and> Mem s 101 \<noteq> None"
proof -
  have "run_echo_client (-24) [Connected 104 0 0 0] (UvEchoClient_start 2 [-24, 0] \<lparr>base = 50, len = 4\<rparr> 100) \<noteq> None"
    by (simp add: client_eval)
  then obtain s where s: "run_echo_client (-24) [Connected 104 0 0 0]
      (UvEchoClient_start 2 [-24, 0] \<lparr>base = 50, len = 4\<rparr> 100) = Some s" by blast
  then show ?thesis
    using refused_connection_is_never_released [OF s, of 0] by simp
qed

end
