(* ===== verification/Echo_Udp.thy ===== *)
theory Echo_Udp
  imports Receive_Ops
begin

text \<open>
  The datagram echo server of src/examples/echo_uvexec_udp.cpp on the contracts of \<open>receive_from\<close> (Receive_Ops) and of \<open>send_to\<close>
  (Request_Ops): which operations its scope holds, for whom the socket receives, and what is answered. Every datagram is
  answered while sending succeeds; when it fails the server receives a second time on a socket that is receiving already, and its error
  handler recurses without end.
\<close>

section \<open>The server\<close>

text \<open>
  The stages of an operation of \<open>accept_datagram\<close>. \<open>Receiver\<close>: the operation in the data field of the socket while it is
  receiving. \<open>Payload\<close> and \<open>Peer\<close>: the vector and the address inside the operation. \<open>Answered\<close>: what \<open>uv_udp_send\<close> was called with.
\<close>

datatype accept_stage = Receives | Replies

record UdpServer =
  Stages :: "ptr \<Rightarrow> accept_stage option"
  NextOp :: ptr
  Attempts :: nat
  Receiver :: "ptr option"
  Payload :: "ptr \<Rightarrow> 8 word list"
  Peer :: "ptr \<Rightarrow> sockaddr"
  ScopeStopped :: bool
  Answered :: "(8 word list \<times> sockaddr) list"

definition UDP_BUFFER_SIZE :: nat where
  "UDP_BUFFER_SIZE = 65507"








section \<open>Runs\<close>








section \<open>Spawning the next operation\<close>








section \<open>The invariant of runs\<close>

definition udp_inv :: "sockaddr \<Rightarrow> UdpServer \<Rightarrow> bool" where
  "udp_inv ep s \<longleftrightarrow>
     (\<forall>p \<ge> NextOp s. Stages s p = None) \<and>
     (\<forall>p. Stages s p = Some Receives \<longleftrightarrow> Receiver s = Some p) \<and>
     (\<not> ScopeStopped s \<longrightarrow> Receiver s \<noteq> None) \<and>
     (\<forall>p. Receiver s = Some p \<longrightarrow> length (Payload s p) = UDP_BUFFER_SIZE \<and> Peer s p = ep)"



lemma udp_inv_replies:
  assumes "udp_inv ep s" "Receiver s \<noteq> Some op" "op < NextOp s"
  shows "udp_inv ep (s\<lparr>Answered := a, Stages := (Stages s)(op \<mapsto> Replies)\<rparr>)"
  using assms by (auto simp: udp_inv_def)

















section \<open>Properties\<close>












end
