(* ===== verification/Echo_Connection.thy ===== *)
theory Echo_Connection
  imports C_Runtime Read_Ops
begin

text \<open>
  The connections of the C++ echo servers, \<open>EchoConnection\<close> of src/examples/echo_uvexec.cpp and \<open>TcpConnection\<close> of
  src/examples/echo_with_async_value.cpp, as clients of the library: their condition runs in the read callback of \<open>read_until\<close> as it is
  modelled in Read_Ops. It hands the vector that has been filled to a send and gives the reader a new one.
\<close>

section \<open>The connection\<close>

text \<open>
  The memory is that of C_Runtime; a vector is its storage. \<open>Scope\<close> holds the sends that have been spawned, in the order of their
  writes, by the vector each owns. A connection is processed, then joins its scope, then is destroyed. \<open>BytesOut\<close> records what libuv has written.
\<close>

datatype conn_stage = Processing | Joining | Destroyed

record EchoConnection = runtime +
  Data :: ptr
  Span :: uv_buf_t
  Scope :: "ptr list"
  Spawned :: nat
  ProcessedBytes :: nat
  ConnStage :: conn_stage
  BytesOut :: "8 word list"

definition CONNECTION_BUFFER_SIZE :: nat where
  "CONNECTION_BUFFER_SIZE = 65536"

text \<open>\<open>std::vector<std::byte>(READABLE_BUFFER_SIZE)\<close>, \<open>resize\<close>, and the size and bytes of a vector.\<close>

definition new_vector :: "'a runtime_scheme \<Rightarrow> ptr \<times> 'a runtime_scheme" where
  "new_vector s = malloc (Chars CONNECTION_BUFFER_SIZE (replicate CONNECTION_BUFFER_SIZE 0)) s"

definition vector_bytes :: "ptr \<Rightarrow> 'a runtime_scheme \<Rightarrow> 8 word list" where
  "vector_bytes p s = (case Mem s p of Some (Chars cap bs) \<Rightarrow> bs | _ \<Rightarrow> [])"

definition resize :: "ptr \<Rightarrow> nat \<Rightarrow> 'a runtime_scheme \<Rightarrow> 'a runtime_scheme" where
  "resize p n s =
     (if n \<le> length (vector_bytes p s) then assign p (Chars CONNECTION_BUFFER_SIZE (take n (vector_bytes p s))) s
      else fault BadAccess s)"

definition span_of :: "ptr \<Rightarrow> uv_buf_t" where
  "span_of p = \<lparr>base = p, len = of_nat CONNECTION_BUFFER_SIZE\<rparr>"

definition EchoConnection_new :: "ptr \<Rightarrow> EchoConnection" where
  "EchoConnection_new first =
     (let (p, r) = new_vector (runtime_init first)
      in runtime.extend r \<lparr>Data = p, Span = span_of p, Scope = [], Spawned = 0, ProcessedBytes = 0,
           ConnStage = Processing, BytesOut = []\<rparr>)"

text \<open>
  The send that is spawned: \<open>sts k\<close> is what \<open>uv_write\<close> returns for the \<open>k\<close>-th. An error is handled by \<open>upon_error\<close>, which prints it; the operation is over and its
  vector freed.
\<close>

definition spawn_send :: "(nat \<Rightarrow> int) \<Rightarrow> ptr \<Rightarrow> EchoConnection \<Rightarrow> EchoConnection" where
  "spawn_send sts tmpBuf s =
     (let st = sts (Spawned s); s = s\<lparr>Spawned := Spawned s + 1\<rparr>
      in if st < 0 then free tmpBuf s else s\<lparr>Scope := Scope s @ [tmpBuf]\<rparr>)"

text \<open>The condition of \<open>EchoConnection\<close>; \<open>this\<close> may be gone.\<close>

definition take_data :: "(nat \<Rightarrow> int) \<Rightarrow> nat \<Rightarrow> EchoConnection \<Rightarrow> EchoConnection" where
  "take_data sts n s =
     (let s = (if ConnStage s = Destroyed then fault UseAfterFree s else s);
          tmpBuf = Data s;
          (p, s) = new_vector s;
          s = s\<lparr>Data := p\<rparr>;
          s = resize tmpBuf n s;
          s = s\<lparr>Span := span_of (Data s)\<rparr>
      in spawn_send sts tmpBuf s)"

definition EchoConnection_condition :: "(nat \<Rightarrow> int) \<Rightarrow> EchoConnection \<Rightarrow> size_t \<Rightarrow> bool \<times> EchoConnection" where
  "EchoConnection_condition sts s n = (False, take_data sts (unat n) s)"

definition TcpConnection_condition :: "(nat \<Rightarrow> int) \<Rightarrow> EchoConnection \<Rightarrow> size_t \<Rightarrow> bool \<times> EchoConnection" where
  "TcpConnection_condition sts s n = (if n = 0 then (False, s) else (False, take_data sts (unat n) s))"

text \<open>The end of a send: \<open>then\<close> counts its bytes, \<open>upon_error\<close> prints; both use the connection. The operation is destroyed with its vector.\<close>

definition send_done :: "int \<Rightarrow> EchoConnection \<Rightarrow> EchoConnection" where
  "send_done status s =
     (let s = (if ConnStage s = Destroyed then fault UseAfterFree s else s);
          tmpBuf = hd (Scope s);
          s = s\<lparr>Scope := tl (Scope s)\<rparr>;
          s = (if status < 0 then s
               else s\<lparr>ProcessedBytes := ProcessedBytes s + length (vector_bytes tmpBuf s),
                      BytesOut := BytesOut s @ vector_bytes tmpBuf s\<rparr>)
      in free tmpBuf s)"

text \<open>\<open>delete connection\<close>: the scope must be empty, its destructor asserts that; the vector goes with the connection.\<close>

definition delete_connection :: "EchoConnection \<Rightarrow> EchoConnection" where
  "delete_connection s =
     (let s = (if Scope s \<noteq> [] then fault BadFree s else s);
          s = free (Data s) s
      in s\<lparr>ConnStage := Destroyed\<rparr>)"

text \<open>
  When \<open>process_connection\<close> is over. Its errors become values. A value goes on to \<open>on_empty\<close>, a stop goes past it to \<open>finally\<close>, which deletes the
  connection. \<open>TcpConnection\<close> is dropped by \<open>async_value\<close> instead: \<open>drop\<close> asks the scope to stop and waits until it is empty in either case.
\<close>

definition EchoConnection_processed :: "completion \<Rightarrow> EchoConnection \<Rightarrow> EchoConnection" where
  "EchoConnection_processed c s = (if c = SetStopped then delete_connection s else s\<lparr>ConnStage := Joining\<rparr>)"

definition TcpConnection_processed :: "completion \<Rightarrow> EchoConnection \<Rightarrow> EchoConnection" where
  "TcpConnection_processed c s = s\<lparr>ConnStage := Joining\<rparr>"

section \<open>Runs\<close>

text \<open>
  An operation of \<open>read_until\<close> with the condition of a connection. Before it calls back libuv fills the buffer it has been given (\<open>AllocateBuf\<close>, which is \<open>Span\<close>);
  after each handler of the library a completion is passed on.
\<close>

type_synonym conn_op = "EchoConnection TReadUntilOpState"

datatype conn_event =
    ReadBegins uvenv
  | BytesRead uvenv "8 word list"
  | ReadFails uvenv int
  | StopAsked
  | StopApplied uvenv
  | SendCompleted int
  | ScopeEmpty

definition on_connection_op :: "(EchoConnection \<Rightarrow> EchoConnection) \<Rightarrow> conn_op \<Rightarrow> conn_op" where
  "on_connection_op f op = op\<lparr>CondState := f (CondState op)\<rparr>"

definition pass_on :: "(completion \<Rightarrow> EchoConnection \<Rightarrow> EchoConnection) \<Rightarrow> conn_op \<Rightarrow> conn_op" where
  "pass_on processed op =
     (case completions (trace op) of
        [] \<Rightarrow> op
      | c # cs \<Rightarrow> if ConnStage (CondState op) = Processing then on_connection_op (processed c) op else op)"

definition fill_span :: "8 word list \<Rightarrow> EchoConnection \<Rightarrow> EchoConnection" where
  "fill_span bs s = store_bytes (base (Span s)) bs s"

fun conn_step ::
    "platform \<Rightarrow> (completion \<Rightarrow> EchoConnection \<Rightarrow> EchoConnection) \<Rightarrow> conn_event \<Rightarrow> conn_op \<Rightarrow> conn_op" where
  "conn_step P processed (ReadBegins env) op = pass_on processed (TReadUntilOpState_step P (SBegin env 0) op)"
| "conn_step P processed (BytesRead env bs) op =
     pass_on processed (TReadUntilOpState_step P (SData env (int (length bs)))
       (on_connection_op (fill_span bs) op))"
| "conn_step P processed (ReadFails env nrd) op = pass_on processed (TReadUntilOpState_step P (SData env nrd) op)"
| "conn_step P processed StopAsked op = pass_on processed (TReadUntilOpState_step P SRequestStop op)"
| "conn_step P processed (StopApplied env) op = pass_on processed (TReadUntilOpState_step P (SRunStop env) op)"
| "conn_step P processed (SendCompleted status) op = on_connection_op (send_done status) op"
| "conn_step P processed ScopeEmpty op = on_connection_op delete_connection op"

text \<open>What libuv reads until a stop is asked for; \<open>tok\<close>: it has been.\<close>

fun read_before_stop :: "bool \<Rightarrow> conn_event list \<Rightarrow> 8 word list" where
  "read_before_stop tok [] = []"
| "read_before_stop tok (BytesRead env bs # es) = (if tok then [] else bs) @ read_before_stop tok es"
| "read_before_stop tok (StopAsked # es) = read_before_stop True es"
| "read_before_stop tok (e # es) = read_before_stop tok es"

fun conn_enabled :: "conn_event \<Rightarrow> conn_op \<Rightarrow> bool" where
  "conn_enabled (ReadBegins env) op \<longleftrightarrow> running (ChildOp op) (trace op)"
| "conn_enabled (BytesRead env bs) op \<longleftrightarrow>
     active (Socket op) (trace op) \<and> bs \<noteq> [] \<and> length bs \<le> unat (len (Span (CondState op)))"
| "conn_enabled (ReadFails env nrd) op \<longleftrightarrow> active (Socket op) (trace op) \<and> nrd \<le> 0"
| "conn_enabled StopAsked op \<longleftrightarrow> \<not> Token (StopOp op)"
| "conn_enabled (StopApplied env) op \<longleftrightarrow> queued (SelfOp (StopOp op)) (trace op)"
| "conn_enabled (SendCompleted status) op \<longleftrightarrow> Scope (CondState op) \<noteq> []"
| "conn_enabled ScopeEmpty op \<longleftrightarrow> ConnStage (CondState op) = Joining \<and> Scope (CondState op) = []"

fun conn_run ::
    "platform \<Rightarrow> (completion \<Rightarrow> EchoConnection \<Rightarrow> EchoConnection) \<Rightarrow> conn_event list \<Rightarrow> conn_op \<Rightarrow> conn_op option" where
  "conn_run P processed [] op = Some op"
| "conn_run P processed (e # es) op =
     (if conn_enabled e op then conn_run P processed es (conn_step P processed e op) else None)"

end
