(* ===== verification/Echo_Connection_Safety.thy ===== *)
theory Echo_Connection_Safety
  imports Echo_Connection "HOL-Library.Sublist"
begin

text \<open>
  The runs of the connections of Echo_Connection: what is read is written back in order, no buffer under way is overwritten, and when a connection is
  deleted. The read callbacks are those of the library, and that no data arrives after the end rests on its contract
  (\<open>stream_op\<close>, interpreted on \<open>read_until\<close> in Read_Ops).
\<close>

section \<open>The memory of a connection\<close>

definition pending_bytes :: "EchoConnection \<Rightarrow> 8 word list" where
  "pending_bytes s = concat (map (\<lambda>p. vector_bytes p s) (Scope s))"

definition vectors_ok :: "EchoConnection \<Rightarrow> bool" where
  "vectors_ok s \<longleftrightarrow>
     distinct (Data s # Scope s) \<and>
     dom (Mem s) = set (Scope s) \<union> (if ConnStage s = Destroyed then {} else {Data s}) \<and>
     (\<forall>p \<in> dom (Mem s). p < Fresh s) \<and> Data s < Fresh s \<and>
     (ConnStage s \<noteq> Destroyed \<longrightarrow>
        (\<exists>bs. Mem s (Data s) = Some (Chars CONNECTION_BUFFER_SIZE bs) \<and> length bs = CONNECTION_BUFFER_SIZE) \<and>
        Span s = span_of (Data s))"

lemma vectors_okD:
  assumes "vectors_ok s" "ConnStage s \<noteq> Destroyed"
  obtains bs where "Mem s (Data s) = Some (Chars CONNECTION_BUFFER_SIZE bs)" "length bs = CONNECTION_BUFFER_SIZE"
    "Span s = span_of (Data s)" "Data s \<notin> set (Scope s)" "distinct (Scope s)"
  using assms by (auto simp: vectors_ok_def)

lemma fresh_vector: "vectors_ok s \<Longrightarrow> Mem s (Fresh s) = None"
  by (auto simp: vectors_ok_def)

text \<open>The whole of a read: libuv fills the span, and the condition takes the bytes.\<close>

definition taken :: "(nat \<Rightarrow> int) \<Rightarrow> 8 word list \<Rightarrow> EchoConnection \<Rightarrow> EchoConnection" where
  "taken sts bs s =
     (let t = s\<lparr>Mem := (Mem s)(Data s \<mapsto> Chars CONNECTION_BUFFER_SIZE bs,
              Fresh s \<mapsto> Chars CONNECTION_BUFFER_SIZE (replicate CONNECTION_BUFFER_SIZE 0)),
            Fresh := Suc (Fresh s), Data := Fresh s, Span := span_of (Fresh s), Spawned := Suc (Spawned s)\<rparr>
      in if sts (Spawned s) < 0 then t\<lparr>Mem := (Mem t)(Data s := None)\<rparr> else t\<lparr>Scope := Scope s @ [Data s]\<rparr>)"

lemma take_data_eq:
  assumes "vectors_ok s" "ConnStage s \<noteq> Destroyed" "length bs \<le> CONNECTION_BUFFER_SIZE"
  shows "take_data sts (length bs) (fill_span bs s) = taken sts bs s"
proof -
  obtain old where d: "Mem s (Data s) = Some (Chars CONNECTION_BUFFER_SIZE old)" "length old = CONNECTION_BUFFER_SIZE"
    "Span s = span_of (Data s)" by (rule vectors_okD [OF assms(1,2)])
  have ne: "Data s \<noteq> Fresh s" using d(1) fresh_vector [OF assms(1)] by auto
  then have upd: "m(Data s \<mapsto> a, Fresh s \<mapsto> b, Data s \<mapsto> c) = m(Data s \<mapsto> c, Fresh s \<mapsto> b)" for m :: "ptr \<Rightarrow> block option" and a b c
    by (simp add: fun_eq_iff)
  show ?thesis
    using d ne assms(2,3)
    by (simp add: take_data_def fill_span_def store_bytes_def span_of_def new_vector_def malloc_def resize_def
        vector_bytes_def assign_def spawn_send_def free_def taken_def upd Let_def)
qed

lemma vectors_ok_taken:
  assumes "vectors_ok s" "ConnStage s \<noteq> Destroyed"
  shows "vectors_ok (taken sts bs s)"
  using assms by (auto simp: vectors_ok_def taken_def Let_def less_Suc_eq)

lemma pending_taken:
  assumes "vectors_ok s" "ConnStage s \<noteq> Destroyed"
  shows "pending_bytes (taken sts bs s) = pending_bytes s @ (if sts (Spawned s) < 0 then [] else bs)"
proof -
  have "p \<noteq> Data s \<and> p \<noteq> Fresh s" if "p \<in> set (Scope s)" for p
    using that assms by (auto simp: vectors_ok_def)
  then show ?thesis
    using assms by (auto simp: pending_bytes_def taken_def vector_bytes_def Let_def vectors_ok_def cong: map_cong)
qed

lemma send_done_eq:
  assumes "vectors_ok s" "Scope s = p # ps" "ConnStage s \<noteq> Destroyed"
  shows "send_done status s =
    (let t = s\<lparr>Scope := ps, Mem := (Mem s)(p := None)\<rparr>
     in if status < 0 then t
        else t\<lparr>ProcessedBytes := ProcessedBytes s + length (vector_bytes p s), BytesOut := BytesOut s @ vector_bytes p s\<rparr>)"
proof -
  have "Mem s p \<noteq> None" using assms by (auto simp: vectors_ok_def)
  then obtain b where "Mem s p = Some b" by blast
  then show ?thesis
    using assms(2,3) by (simp add: send_done_def free_def vector_bytes_def Let_def)
qed

definition out :: "EchoConnection \<Rightarrow> 8 word list" where
  "out s = BytesOut s @ pending_bytes s"

text \<open>What a step that takes the bytes \<open>bs\<close> does to those on their way; \<open>ok\<close> when nothing fails.\<close>

definition carries :: "bool \<Rightarrow> 8 word list \<Rightarrow> EchoConnection \<Rightarrow> EchoConnection \<Rightarrow> bool" where
  "carries ok bs s t \<longleftrightarrow> (\<forall>x. subseq (out s) x \<longrightarrow> subseq (out t) (x @ bs)) \<and> (ok \<longrightarrow> out t = out s @ bs)"

lemma carries_refl: "carries ok [] s s"
  by (simp add: carries_def)

lemma carries_same: "out t = out s \<Longrightarrow> carries ok [] s t"
  by (simp add: carries_def)

lemma carries_trans: "carries ok bs s t \<Longrightarrow> carries ok' cs t u \<Longrightarrow> carries (ok \<and> ok') (bs @ cs) s u"
  unfolding carries_def by (metis append.assoc)

lemma carries_mono: "carries ok bs s t \<Longrightarrow> (ok' \<Longrightarrow> ok) \<Longrightarrow> carries ok' bs s t"
  by (auto simp: carries_def)

lemma carries_taken:
  assumes "vectors_ok s" "ConnStage s \<noteq> Destroyed"
  shows "carries (0 \<le> sts (Spawned s)) bs s (taken sts bs s)"
proof -
  have "out (taken sts bs s) = out s @ (if sts (Spawned s) < 0 then [] else bs)"
    using pending_taken [OF assms, of sts bs] by (simp add: out_def taken_def Let_def)
  then show ?thesis by (auto simp: carries_def intro: list_emb_append2 list_emb_append_mono)
qed

lemma pending_unchanged:
  assumes "Scope t = Scope s" "\<And>p. p \<in> set (Scope s) \<Longrightarrow> Mem t p = Mem s p"
  shows "pending_bytes t = pending_bytes s"
  using assms by (simp add: pending_bytes_def vector_bytes_def cong: map_cong)

lemma send_done_ok:
  assumes "vectors_ok s" "Scope s \<noteq> []" "ConnStage s \<noteq> Destroyed"
  shows "vectors_ok (send_done status s)" "carries (0 \<le> status) [] s (send_done status s)"
    "Faults (send_done status s) = Faults s" "ConnStage (send_done status s) = ConnStage s"
proof -
  obtain p ps where p: "Scope s = p # ps" using assms(2) by (cases "Scope s") auto
  note e = send_done_eq [OF assms(1) p assms(3), of status]
  show "vectors_ok (send_done status s)"
    unfolding e using assms(1,3) p by (auto simp: vectors_ok_def Let_def)
  show "Faults (send_done status s) = Faults s" "ConnStage (send_done status s) = ConnStage s"
    unfolding e by (simp_all add: Let_def)
  have rest: "map (\<lambda>q. vector_bytes q (send_done status s)) ps = map (\<lambda>q. vector_bytes q s) ps"
    unfolding e using assms(1) p by (auto simp: vectors_ok_def vector_bytes_def Let_def)
  have "Scope (send_done status s) = ps" unfolding e by (simp add: Let_def)
  then have "pending_bytes s = vector_bytes p s @ pending_bytes (send_done status s)"
    using p rest by (simp add: pending_bytes_def cong: map_cong)
  moreover have "BytesOut (send_done status s) = BytesOut s @ (if status < 0 then [] else vector_bytes p s)"
    unfolding e by (simp add: Let_def)
  moreover have "subseq (a @ c) d" if "subseq (a @ b @ c) d" for a b c d :: "8 word list"
    using that by (meson list_emb_append2 list_emb_append_mono subseq_order.dual_order.trans subseq_order.order_refl)
  ultimately show "carries (0 \<le> status) [] s (send_done status s)"
    by (auto simp: carries_def out_def)
qed

lemma deleted_ok:
  assumes "vectors_ok s" "ConnStage s \<noteq> Destroyed"
  shows "Faults (delete_connection s) = (if Scope s = [] then Faults s else Faults s @ [BadFree])"
    "vectors_ok (delete_connection s)" "Scope (delete_connection s) = Scope s"
    "ConnStage (delete_connection s) = Destroyed" "carries True [] s (delete_connection s)"
proof -
  obtain bs where d: "Mem s (Data s) = Some (Chars CONNECTION_BUFFER_SIZE bs)" "Data s \<notin> set (Scope s)"
    by (rule vectors_okD [OF assms])
  then show f: "Faults (delete_connection s) = (if Scope s = [] then Faults s else Faults s @ [BadFree])"
    "Scope (delete_connection s) = Scope s" "ConnStage (delete_connection s) = Destroyed"
    by (simp_all add: delete_connection_def free_def fault_def Let_def)
  show "vectors_ok (delete_connection s)"
    using d assms by (auto simp: vectors_ok_def delete_connection_def free_def fault_def Let_def)
  have "pending_bytes (delete_connection s) = pending_bytes s"
    by (rule pending_unchanged) (use d f in \<open>auto simp: delete_connection_def free_def fault_def Let_def\<close>)
  moreover have "BytesOut (delete_connection s) = BytesOut s"
    using d by (simp add: delete_connection_def free_def fault_def Let_def)
  ultimately show "carries True [] s (delete_connection s)" by (simp add: carries_def out_def)
qed

section \<open>The library's read callback\<close>

lemma step_cond:
  "CondState (TReadUntilOpState_step P (SBegin env b) op) = CondState op"
  "CondState (TReadUntilOpState_step P SRequestStop op) = CondState op"
  "CondState (TReadUntilOpState_step P (SRunStop env) op) = CondState op"
  "nrd \<le> 0 \<Longrightarrow> CondState (TReadUntilOpState_step P (SData env nrd) op) = CondState op"
  by (simp_all add: handler_defs read_until_defs)

lemma step_cond_data:
  assumes "0 < nrd" "fst (Condition op (CondState op) (of_int nrd)) = False"
  shows "CondState (TReadUntilOpState_step P (SData env nrd) op) =
    (if TStopOperation_bool (StopOp op) then snd (Condition op (CondState op) (of_int nrd)) else CondState op)"
    "completions (trace (TReadUntilOpState_step P (SData env nrd) op)) = completions (trace op)"
  using assms by (auto simp: handler_defs read_until_defs split: prod.splits)

text \<open>The contract of the library with the state of the condition left open: a send may change the connection at any time.\<close>

definition lib_ok :: "(EchoConnection \<Rightarrow> size_t \<Rightarrow> bool \<times> EchoConnection) \<Rightarrow> conn_op \<Rightarrow> bool" where
  "lib_ok condition op \<longleftrightarrow>
     (\<exists>p. in_sphase p (ReadTotal op, CondState op) (running (ChildOp op) (trace op)) (StopOp op) (Socket op) (trace op)) \<and>
     socket_op_wf op \<and> Condition op = condition"

lemma lib_ok_step:
  assumes "lib_ok condition op" "TReadUntilOpState_enabled e op"
  shows "lib_ok condition (TReadUntilOpState_step P e op)"
  using assms read_until.sphase_step [of _ op condition e P] unfolding lib_ok_def by blast

lemma lib_ok_cond: "lib_ok condition op \<Longrightarrow> lib_ok condition (on_connection_op f op)"
proof -
  assume l: "lib_ok condition op"
  then obtain p where p: "in_sphase p (ReadTotal op, CondState op) (running (ChildOp op) (trace op)) (StopOp op)
      (Socket op) (trace op)" by (auto simp: lib_ok_def)
  have "\<exists>q. in_sphase q (ReadTotal op, f (CondState op)) (running (ChildOp op) (trace op)) (StopOp op) (Socket op) (trace op)"
  proof (cases p)
    case (SReady a)
    with p show ?thesis by (intro exI [of _ "SReady (ReadTotal op, f (CondState op))"]) simp
  next
    case (SArmed a)
    with p show ?thesis by (intro exI [of _ "SArmed (ReadTotal op, f (CondState op))"]) simp
  next
    case SStopping
    with p show ?thesis by (intro exI [of _ SStopping]) simp
  next
    case (SDone c)
    with p show ?thesis by (intro exI [of _ "SDone c"]) simp
  qed
  then show ?thesis using l by (simp add: lib_ok_def on_connection_op_def socket_op_wf_def)
qed

lemma lib_reading:
  assumes "lib_ok condition op" "active (Socket op) (trace op) \<or> queued (SelfOp (StopOp op)) (trace op)"
  shows "completions (trace op) = []"
proof -
  obtain p where "in_sphase p (ReadTotal op, CondState op) (running (ChildOp op) (trace op)) (StopOp op)
      (Socket op) (trace op)" using assms(1) by (auto simp: lib_ok_def)
  then show ?thesis using assms(2) by (cases p) auto
qed

lemma reading_until_stop:
  assumes "lib_ok condition op" "active (Socket op) (trace op)"
  shows "TStopOperation_bool (StopOp op) \<longleftrightarrow> \<not> Token (StopOp op)"
proof -
  obtain p where "in_sphase p (ReadTotal op, CondState op) (running (ChildOp op) (trace op)) (StopOp op)
      (Socket op) (trace op)" using assms(1) by (auto simp: lib_ok_def)
  then show ?thesis using assms(2) by (cases p) (auto simp: TStopOperation_bool_def)
qed

lemma stopped_when_applied:
  assumes "completions (trace op) = []" "c \<in> set (completions (trace (TReadUntilOpState_step P e op)))"
    "\<And>env nrd. e = SData env nrd \<Longrightarrow> nrd \<le> 0"
  shows "c = SetStopped \<longleftrightarrow> (\<exists>env. e = SRunStop env)"
proof (cases e)
  case (SData env nrd)
  then show ?thesis
    using assms by (auto simp: handler_defs read_until_defs split: if_splits)
qed (use assms in \<open>auto simp: handler_defs read_until_defs split: if_splits\<close>)

lemma applied_stop_completes:
  assumes "lib_ok condition op" "queued (SelfOp (StopOp op)) (trace op)"
  shows "completions (trace (TReadUntilOpState_step P (SRunStop env) op)) = [SetStopped]"
proof -
  obtain p where p: "in_sphase p (ReadTotal op, CondState op) (running (ChildOp op) (trace op)) (StopOp op)
      (Socket op) (trace op)" "socket_op_wf op" using assms(1) by (auto simp: lib_ok_def)
  then have "HasReceiver op" "completions (trace op) = []" "StopCallback (StopOp op)"
    using assms(2) by (cases p; auto simp: socket_op_wf_def)+
  then show ?thesis by (simp add: handler_defs read_until_defs)
qed

section \<open>The invariant of runs\<close>

definition conn_inv :: "(EchoConnection \<Rightarrow> size_t \<Rightarrow> bool \<times> EchoConnection) \<Rightarrow> conn_op \<Rightarrow> bool" where
  "conn_inv condition op \<longleftrightarrow>
     lib_ok condition op \<and> vectors_ok (CondState op) \<and> Faults (CondState op) = [] \<and>
     (ConnStage (CondState op) = Processing \<longleftrightarrow> completions (trace op) = []) \<and>
     (ConnStage (CondState op) = Destroyed \<longrightarrow> Scope (CondState op) = [])"

text \<open>What both conditions do, and both ways to go on: \<open>del\<close> is the one of \<open>EchoConnection\<close>.\<close>

definition takes :: "(nat \<Rightarrow> int) \<Rightarrow> (EchoConnection \<Rightarrow> size_t \<Rightarrow> bool \<times> EchoConnection) \<Rightarrow> bool" where
  "takes sts condition \<longleftrightarrow> (\<forall>s n. n \<noteq> 0 \<longrightarrow> condition s n = (False, take_data sts (unat n) s))"

lemma conditions_take: "takes sts (EchoConnection_condition sts)" "takes sts (TcpConnection_condition sts)"
  by (simp_all add: takes_def EchoConnection_condition_def TcpConnection_condition_def)

definition goes_on :: "bool \<Rightarrow> completion \<Rightarrow> EchoConnection \<Rightarrow> EchoConnection" where
  "goes_on del = (if del then EchoConnection_processed else TcpConnection_processed)"

lemma goes_on_eq: "goes_on del c s = (if del \<and> c = SetStopped then delete_connection s else s\<lparr>ConnStage := Joining\<rparr>)"
  by (simp add: goes_on_def EchoConnection_processed_def TcpConnection_processed_def)

text \<open>\<open>u\<close>: the library's handler has run.\<close>

lemma conn_inv_pass_on:
  assumes l: "lib_ok condition u" and v: "vectors_ok (CondState u)" "Faults (CondState u) = []"
    and st: "ConnStage (CondState u) \<noteq> Processing \<Longrightarrow> completions (trace u) \<noteq> []"
      "ConnStage (CondState u) = Destroyed \<Longrightarrow> Scope (CondState u) = []"
  shows "carries True [] (CondState u) (CondState (pass_on (goes_on del) u))"
    "Faults (CondState (pass_on (goes_on del) u)) \<noteq> [] \<longleftrightarrow>
       del \<and> ConnStage (CondState u) = Processing \<and> (\<exists>cs. completions (trace u) = SetStopped # cs) \<and> Scope (CondState u) \<noteq> []"
    "Faults (CondState (pass_on (goes_on del) u)) = [] \<Longrightarrow> conn_inv condition (pass_on (goes_on del) u)"
proof -
  let ?s = "CondState u"
  have same: "carries True [] ?s ?s" by (simp add: carries_def)
  have "carries True [] ?s (CondState (pass_on (goes_on del) u)) \<and>
    (Faults (CondState (pass_on (goes_on del) u)) \<noteq> [] \<longleftrightarrow>
       del \<and> ConnStage ?s = Processing \<and> (\<exists>cs. completions (trace u) = SetStopped # cs) \<and> Scope ?s \<noteq> []) \<and>
    (Faults (CondState (pass_on (goes_on del) u)) = [] \<longrightarrow> conn_inv condition (pass_on (goes_on del) u))"
  proof (cases "completions (trace u) = [] \<or> ConnStage ?s \<noteq> Processing")
    case True
    then have "pass_on (goes_on del) u = u" by (auto simp: pass_on_def split: list.splits)
    then show ?thesis using assms True same by (auto simp: conn_inv_def)
  next
    case False
    then obtain c cs where c: "completions (trace u) = c # cs" "ConnStage ?s = Processing" by (cases "completions (trace u)") auto
    then have e: "pass_on (goes_on del) u = on_connection_op (goes_on del c) u" by (simp add: pass_on_def)
    have lib: "lib_ok condition (pass_on (goes_on del) u)" unfolding e by (rule lib_ok_cond [OF l])
    show ?thesis
    proof (cases "del \<and> c = SetStopped")
      case True
      then have f: "CondState (pass_on (goes_on del) u) = delete_connection ?s" "trace (pass_on (goes_on del) u) = trace u"
        unfolding e by (simp_all add: on_connection_op_def goes_on_eq)
      have "ConnStage ?s \<noteq> Destroyed" using c(2) by simp
      note d = deleted_ok [OF v(1) this]
      show ?thesis using True c d lib v(2) f by (auto simp: conn_inv_def)
    next
      case False
      then have f: "CondState (pass_on (goes_on del) u) = ?s\<lparr>ConnStage := Joining\<rparr>" "trace (pass_on (goes_on del) u) = trace u"
        using False unfolding e by (auto simp: on_connection_op_def goes_on_eq)
      have "vectors_ok (?s\<lparr>ConnStage := Joining\<rparr>)" using v(1) c(2) by (simp add: vectors_ok_def)
      moreover have "carries True [] ?s (?s\<lparr>ConnStage := Joining\<rparr>)"
        by (simp add: carries_def out_def pending_bytes_def vector_bytes_def)
      ultimately show ?thesis using False c lib v(2) f by (auto simp: conn_inv_def)
    qed
  qed
  then show "carries True [] ?s (CondState (pass_on (goes_on del) u))"
    "Faults (CondState (pass_on (goes_on del) u)) \<noteq> [] \<longleftrightarrow>
       del \<and> ConnStage ?s = Processing \<and> (\<exists>cs. completions (trace u) = SetStopped # cs) \<and> Scope ?s \<noteq> []"
    "Faults (CondState (pass_on (goes_on del) u)) = [] \<Longrightarrow> conn_inv condition (pass_on (goes_on del) u)"
    by auto
qed

text \<open>A read, up to the passing on of the completion.\<close>

lemma bytes_read:
  assumes inv: "conn_inv condition op" and t: "takes sts condition" and e: "conn_enabled (BytesRead env bs) op"
  shows "\<exists>u. conn_step P processed (BytesRead env bs) op = pass_on processed u \<and> lib_ok condition u \<and>
    vectors_ok (CondState u) \<and> Faults (CondState u) = [] \<and> ConnStage (CondState u) = Processing \<and>
    completions (trace u) = [] \<and> carries (\<forall>k. 0 \<le> sts k) (if Token (StopOp op) then [] else bs) (CondState op) (CondState u)"
proof -
  let ?s = "CondState op" and ?seen = "TStopOperation_bool (StopOp op)"
  let ?w = "on_connection_op (fill_span bs) op"
  let ?u = "TReadUntilOpState_step P (SData env (int (length bs))) ?w"
  have i: "lib_ok condition op" "vectors_ok ?s" "Faults ?s = []" using inv by (simp_all add: conn_inv_def)
  have a: "active (Socket op) (trace op)" "bs \<noteq> []" using e by simp_all
  have c: "completions (trace op) = []" using lib_reading [OF i(1)] a(1) by blast
  then have st: "ConnStage ?s = Processing" using inv by (simp add: conn_inv_def)
  obtain old where old: "Mem ?s (Data ?s) = Some (Chars CONNECTION_BUFFER_SIZE old)" "length old = CONNECTION_BUFFER_SIZE"
    "Span ?s = span_of (Data ?s)" "Data ?s \<notin> set (Scope ?s)" using vectors_okD [OF i(2)] st by auto
  have len: "length bs \<le> CONNECTION_BUFFER_SIZE" using e old(3) by (simp add: span_of_def CONNECTION_BUFFER_SIZE_def)
  then have small: "length bs < 2 ^ 64" by (simp add: CONNECTION_BUFFER_SIZE_def)
  then have n: "unat (word_of_int (int (length bs)) :: size_t) = length bs"
    by (simp add: unsigned_of_nat take_bit_nat_eq_self)
  then have n0: "(word_of_int (int (length bs)) :: size_t) \<noteq> 0" using a(2) by (metis length_0_conv unsigned_0)
  have w: "Condition ?w = condition" "trace ?w = trace op" "StopOp ?w = StopOp op" "CondState ?w = fill_span bs ?s"
    using i(1) by (simp_all add: on_connection_op_def lib_ok_def)
  have k: "condition s (of_int (int (length bs))) = (False, take_data sts (length bs) s)" for s
    using t n n0 by (simp add: takes_def)
  have u: "CondState ?u = (if ?seen then taken sts bs ?s else fill_span bs ?s)" "completions (trace ?u) = []"
    using step_cond_data [of "int (length bs)" ?w P env] a(2) w k c take_data_eq [OF i(2) _ len, of sts] st by auto
  have tok: "?seen \<longleftrightarrow> \<not> Token (StopOp op)" by (rule reading_until_stop [OF i(1) a(1)])
  have f: "fill_span bs ?s =
      ?s\<lparr>Mem := (Mem ?s)(Data ?s \<mapsto> Chars CONNECTION_BUFFER_SIZE (bs @ drop (length bs) old))\<rparr>"
    using old len by (simp add: fill_span_def store_bytes_def span_of_def)
  have "vectors_ok (CondState ?u) \<and> Faults (CondState ?u) = [] \<and> ConnStage (CondState ?u) = Processing \<and>
      carries (\<forall>k. 0 \<le> sts k) (if Token (StopOp op) then [] else bs) ?s (CondState ?u)"
  proof (cases ?seen)
    case True
    have "carries (\<forall>k. 0 \<le> sts k) bs ?s (taken sts bs ?s)"
      using carries_taken [OF i(2), of sts bs] st by (auto intro: carries_mono)
    then show ?thesis
      using True tok u(1) vectors_ok_taken [OF i(2)] st i(3) by (auto simp: taken_def Let_def)
  next
    case False
    have "vectors_ok (fill_span bs ?s)"
      using i(2) st old len unfolding f by (auto simp: vectors_ok_def)
    moreover have "pending_bytes (fill_span bs ?s) = pending_bytes ?s"
      by (rule pending_unchanged) (use old(4) f in auto)
    moreover have "BytesOut (fill_span bs ?s) = BytesOut ?s"
      "Faults (fill_span bs ?s) = []" "ConnStage (fill_span bs ?s) = Processing"
      using st i(3) unfolding f by simp_all
    ultimately show ?thesis using False tok u(1) by (simp add: carries_same out_def)
  qed
  moreover have "lib_ok condition ?u"
    by (rule lib_ok_step [OF lib_ok_cond [OF i(1)]]) (use a(1) in \<open>simp add: on_connection_op_def\<close>)
  moreover have "conn_step P processed (BytesRead env bs) op = pass_on processed ?u" by simp
  ultimately show ?thesis using u(2) by blast
qed

fun lossless :: "conn_event \<Rightarrow> bool" where
  "lossless (SendCompleted status) \<longleftrightarrow> 0 \<le> status"
| "lossless e \<longleftrightarrow> True"

text \<open>The other handlers of the library leave the connection as it is.\<close>

lemma quiet_step:
  assumes inv: "conn_inv condition op" and e: "TReadUntilOpState_enabled e op" and q: "\<And>env nrd. e = SData env nrd \<Longrightarrow> nrd \<le> 0"
    and t_def: "t = pass_on (goes_on del) (TReadUntilOpState_step P e op)"
  shows "carries True [] (CondState op) (CondState t)" "Faults (CondState t) = [] \<Longrightarrow> conn_inv condition t"
    "Faults (CondState t) \<noteq> [] \<longleftrightarrow> del \<and> (\<exists>env. e = SRunStop env) \<and> Scope (CondState op) \<noteq> []"
proof -
  let ?u = "TReadUntilOpState_step P e op"
  have i: "lib_ok condition op" "vectors_ok (CondState op)" "Faults (CondState op) = []"
    "ConnStage (CondState op) = Processing \<longleftrightarrow> completions (trace op) = []"
    "ConnStage (CondState op) = Destroyed \<Longrightarrow> Scope (CondState op) = []" using inv by (simp_all add: conn_inv_def)
  have c: "CondState ?u = CondState op" using q by (cases e) (simp_all add: step_cond del: TReadUntilOpState_step.simps)
  have l: "lib_ok condition ?u" by (rule lib_ok_step [OF i(1) e])
  have grow: "completions (trace op) \<noteq> [] \<Longrightarrow> completions (trace ?u) \<noteq> []"
    by (cases e) (auto simp: handler_defs read_until_defs split: prod.splits)
  have s: "ConnStage (CondState ?u) \<noteq> Processing \<Longrightarrow> completions (trace ?u) \<noteq> []" using i(4) c grow by auto
  have d: "ConnStage (CondState ?u) = Destroyed \<Longrightarrow> Scope (CondState ?u) = []" using i(5) c by simp
  have v: "vectors_ok (CondState ?u)" "Faults (CondState ?u) = []" using i(2,3) c by simp_all
  note p = conn_inv_pass_on [OF l v s d, of del]
  show "carries True [] (CondState op) (CondState t)" "Faults (CondState t) = [] \<Longrightarrow> conn_inv condition t"
    using p(1,3) c by (simp_all add: t_def)
  have "ConnStage (CondState op) = Processing \<and> (\<exists>cs. completions (trace ?u) = SetStopped # cs) \<longleftrightarrow> (\<exists>env. e = SRunStop env)"
  proof
    assume a: "ConnStage (CondState op) = Processing \<and> (\<exists>cs. completions (trace ?u) = SetStopped # cs)"
    then have "SetStopped \<in> set (completions (trace ?u))" by auto
    then show "\<exists>env. e = SRunStop env" using stopped_when_applied [of op SetStopped P e] a i(4) q by blast
  next
    assume "\<exists>env. e = SRunStop env"
    then obtain env where r: "e = SRunStop env" by blast
    then have "queued (SelfOp (StopOp op)) (trace op)" using e by simp
    then show "ConnStage (CondState op) = Processing \<and> (\<exists>cs. completions (trace ?u) = SetStopped # cs)"
      using applied_stop_completes [OF i(1)] lib_reading [OF i(1)] i(4) r by blast
  qed
  then show "Faults (CondState t) \<noteq> [] \<longleftrightarrow> del \<and> (\<exists>env. e = SRunStop env) \<and> Scope (CondState op) \<noteq> []"
    using p(2) c by (auto simp: t_def)
qed

lemma conn_step_ok:
  assumes inv: "conn_inv condition op" and t: "takes sts condition" and e: "conn_enabled e op"
  shows "carries ((\<forall>k. 0 \<le> sts k) \<and> lossless e) (read_before_stop (Token (StopOp op)) [e]) (CondState op) (CondState (conn_step P (goes_on del) e op)) \<and>
    (Faults (CondState (conn_step P (goes_on del) e op)) = [] \<longrightarrow> conn_inv condition (conn_step P (goes_on del) e op)) \<and>
    (Faults (CondState (conn_step P (goes_on del) e op)) \<noteq> [] \<longleftrightarrow>
       del \<and> (\<exists>env. e = StopApplied env) \<and> Scope (CondState op) \<noteq> [])"
proof (cases e)
  case (BytesRead env bs)
  obtain u where u: "conn_step P (goes_on del) (BytesRead env bs) op = pass_on (goes_on del) u" "lib_ok condition u"
    "vectors_ok (CondState u)" "Faults (CondState u) = []" "ConnStage (CondState u) = Processing"
    "completions (trace u) = []" "carries (\<forall>k. 0 \<le> sts k) (if Token (StopOp op) then [] else bs) (CondState op) (CondState u)"
    using bytes_read [OF inv t, of env bs P "goes_on del"] e BytesRead by blast
  have "pass_on (goes_on del) u = u" using u(6) by (simp add: pass_on_def)
  then show ?thesis using u BytesRead by (auto simp: carries_def conn_inv_def)
next
  case (SendCompleted status)
  have i: "vectors_ok (CondState op)" "ConnStage (CondState op) \<noteq> Destroyed" "Scope (CondState op) \<noteq> []"
    using inv e SendCompleted by (auto simp: conn_inv_def)
  note d = send_done_ok [OF i(1,3,2), of status]
  have "lib_ok condition (on_connection_op (send_done status) op)" using inv by (intro lib_ok_cond) (simp add: conn_inv_def)
  then show ?thesis
    using SendCompleted d inv i(2) by (auto simp: on_connection_op_def conn_inv_def carries_def)
next
  case ScopeEmpty
  have i: "vectors_ok (CondState op)" "ConnStage (CondState op) \<noteq> Destroyed" "Scope (CondState op) = []"
    using inv e ScopeEmpty by (auto simp: conn_inv_def)
  note d = deleted_ok [OF i(1,2)]
  have "lib_ok condition (on_connection_op delete_connection op)" using inv by (intro lib_ok_cond) (simp add: conn_inv_def)
  then show ?thesis
    using ScopeEmpty d inv i(3) e by (auto simp: on_connection_op_def conn_inv_def carries_def)
next
  case (ReadBegins env)
  then show ?thesis using quiet_step [OF inv _ _ refl, of "SBegin env 0" del P] e by (auto simp: carries_def)
next
  case (ReadFails env nrd)
  then show ?thesis using quiet_step [OF inv _ _ refl, of "SData env nrd" del P] e by (auto simp: carries_def)
next
  case StopAsked
  then show ?thesis using quiet_step [OF inv _ _ refl, of SRequestStop del P] e by (auto simp: carries_def)
next
  case (StopApplied env)
  then show ?thesis using quiet_step [OF inv _ _ refl, of "SRunStop env" del P] e by (auto simp: carries_def)
qed

section \<open>Properties\<close>

text \<open>The operation that \<open>process_connection\<close> starts, on the socket of a new connection.\<close>

definition process_connection ::
    "(EchoConnection \<Rightarrow> size_t \<Rightarrow> bool \<times> EchoConnection) \<Rightarrow> ptr \<Rightarrow> ptr \<Rightarrow> ptr \<Rightarrow> ptr \<Rightarrow> bool \<Rightarrow> ptr \<Rightarrow> conn_op" where
  "process_connection condition child stop_op socket loop token first =
     TReadUntilOpState_start
       (TReadUntilOpState_new child stop_op socket loop token condition (EchoConnection_new first))"

lemma conn_inv_new:
  "conn_inv condition (process_connection condition child stop_op socket loop token first)" (is "conn_inv _ ?op")
  "out (CondState (process_connection condition child stop_op socket loop token first)) = []"
  "Token (StopOp (process_connection condition child stop_op socket loop token first)) = token"
proof -
  note r = read_until_init_Ready [OF refl]
  have c: "CondState ?op = EchoConnection_new first" "completions (trace ?op) = []"
    by (simp_all add: process_connection_def read_new_defs handler_defs)
  have n: "EchoConnection_new first = \<lparr>Mem = [first \<mapsto> Chars CONNECTION_BUFFER_SIZE (replicate CONNECTION_BUFFER_SIZE 0)],
      Fresh = Suc first, Faults = [], Opened = {}, Closing = {}, Reading = {}, Writes = (\<lambda>_. []), ShuttingDown = (\<lambda>_. None),
      Connecting = (\<lambda>_. None), Data = first, Span = span_of first, Scope = [], Spawned = 0, ProcessedBytes = 0,
      ConnStage = Processing, BytesOut = []\<rparr>"
    by (simp add: EchoConnection_new_def new_vector_def malloc_def runtime_init_def runtime.defs)
  have "lib_ok condition ?op" unfolding lib_ok_def process_connection_def
    by (intro conjI exI) (rule r(1), rule conjunct1 [OF r(2)], rule conjunct2 [OF r(2)])
  then show "conn_inv condition ?op" using c n by (simp add: conn_inv_def vectors_ok_def)
  show "out (CondState ?op) = []" using c n by (simp add: out_def pending_bytes_def)
  show "Token (StopOp ?op) = token" by (simp add: process_connection_def read_new_defs handler_defs)
qed

lemma faults_stay:
  "Faults s \<noteq> [] \<Longrightarrow> Faults (take_data sts n s) \<noteq> []" "Faults s \<noteq> [] \<Longrightarrow> Faults (send_done status s) \<noteq> []"
  "Faults s \<noteq> [] \<Longrightarrow> Faults (delete_connection s) \<noteq> []" "Faults s \<noteq> [] \<Longrightarrow> Faults (fill_span bs s) \<noteq> []"
  "Faults s \<noteq> [] \<Longrightarrow> Faults (goes_on del c s) \<noteq> []"
proof -
  have call: "Faults s \<noteq> [] \<Longrightarrow> Faults (free p s) \<noteq> []" "Faults s \<noteq> [] \<Longrightarrow> Faults (resize p n s) \<noteq> []"
    "Faults s \<noteq> [] \<Longrightarrow> Faults (snd (new_vector s)) \<noteq> []" "Faults s \<noteq> [] \<Longrightarrow> Faults (store_bytes p bs s) \<noteq> []"
    for p n bs and s :: EchoConnection
    by (auto simp: free_def resize_def new_vector_def malloc_def assign_def fault_def store_bytes_def
        split: option.split block.split)
  show "Faults s \<noteq> [] \<Longrightarrow> Faults (send_done status s) \<noteq> []"
    unfolding send_done_def Let_def by (rule call(1)) (simp add: fault_def)
  show d: "Faults s \<noteq> [] \<Longrightarrow> Faults (delete_connection s) \<noteq> []"
    using call(1) [of "if Scope s \<noteq> [] then fault BadFree s else s"] by (simp add: delete_connection_def fault_def Let_def)
  show "Faults s \<noteq> [] \<Longrightarrow> Faults (fill_span bs s) \<noteq> []" using call(4) by (simp add: fill_span_def Let_def)
  show "Faults s \<noteq> [] \<Longrightarrow> Faults (goes_on del c s) \<noteq> []" using d by (simp add: goes_on_eq)
  have "Faults u \<noteq> [] \<Longrightarrow> Faults (spawn_send sts q u) \<noteq> []" for u q
    using call(1) by (simp add: spawn_send_def Let_def)
  moreover have "\<exists>u. take_data sts n s = spawn_send sts (Data s) u \<and> Faults u \<noteq> []" if "Faults s \<noteq> []"
  proof -
    let ?v = "if ConnStage s = Destroyed then fault UseAfterFree s else s"
    obtain p t where nv: "new_vector ?v = (p, t)" by fastforce
    have v: "Data ?v = Data s" "Faults ?v \<noteq> []" using that by (simp_all add: fault_def)
    then have "Faults (resize (Data s) n (t\<lparr>Data := p\<rparr>)) \<noteq> []"
      using call(3) [of ?v] nv by (intro call(2)) simp
    then show ?thesis
      unfolding take_data_def Let_def nv v(1) prod.case by (intro exI conjI) (rule refl, simp)
  qed
  ultimately show "Faults s \<noteq> [] \<Longrightarrow> Faults (take_data sts n s) \<noteq> []" by metis
qed

lemma faults_stay_step:
  assumes "takes sts (Condition op)" "conn_enabled e op" "Faults (CondState op) \<noteq> []"
  shows "Faults (CondState (conn_step P (goes_on del) e op)) \<noteq> []"
proof -
  have pass: "Faults (CondState u) \<noteq> [] \<Longrightarrow> Faults (CondState (pass_on (goes_on del) u)) \<noteq> []" for u
    using faults_stay(5) by (simp add: pass_on_def on_connection_op_def split: list.splits)
  show ?thesis
  proof (cases e)
    case (BytesRead env bs)
    let ?w = "on_connection_op (fill_span bs) op"
    have w: "Faults (CondState ?w) \<noteq> []" "Condition ?w = Condition op"
      using faults_stay(4) [OF assms(3)] by (simp_all add: on_connection_op_def)
    have "unat (len (Span (CondState op))) < 2 ^ LENGTH(64)" by (rule unsigned_less)
    then have "length bs < 2 ^ 64" using assms(2) BytesRead by simp
    then have "unat (word_of_int (int (length bs)) :: size_t) = length bs"
      by (simp add: unsigned_of_nat take_bit_nat_eq_self)
    then have n0: "(word_of_int (int (length bs)) :: size_t) \<noteq> 0" "0 < int (length bs)"
      using assms(2) BytesRead by (metis conn_enabled.simps(2) length_0_conv unsigned_0, simp)
    then have "fst (Condition ?w (CondState ?w) (of_int (int (length bs)))) = False"
      "Faults (snd (Condition ?w (CondState ?w) (of_int (int (length bs))))) \<noteq> []"
      using assms(1) w faults_stay(1) by (simp_all add: takes_def)
    then have "Faults (CondState (TReadUntilOpState_step P (SData env (int (length bs))) ?w)) \<noteq> []"
      using step_cond_data(1) [OF n0(2), of ?w P env] w(1) by simp
    then show ?thesis using pass BytesRead by simp
  next
    case (SendCompleted status)
    then show ?thesis using faults_stay(2) [OF assms(3)] by (simp add: on_connection_op_def)
  next
    case ScopeEmpty
    then show ?thesis using faults_stay(3) [OF assms(3)] by (simp add: on_connection_op_def)
  qed (use assms in \<open>auto intro!: pass simp: step_cond simp del: TReadUntilOpState_step.simps\<close>)
qed

lemma takes_step: "Condition (conn_step P (goes_on del) e op) = Condition op"
proof -
  have "Condition (TReadUntilOpState_step P e op) = Condition op" for e op
    by (cases e) (auto simp: handler_defs read_until_defs split: prod.splits)
  then show ?thesis
    by (cases e) (auto simp: pass_on_def on_connection_op_def split: list.splits simp del: TReadUntilOpState_step.simps)
qed

lemma token_step:
  "Token (StopOp (conn_step P (goes_on del) e op)) \<longleftrightarrow> Token (StopOp op) \<or> e = StopAsked"
proof -
  have pass: "StopOp (pass_on f u) = StopOp u" for f u
    by (simp add: pass_on_def on_connection_op_def split: list.splits)
  have "Token (StopOp (TReadUntilOpState_step P d u)) \<longleftrightarrow> Token (StopOp u) \<or> d = SRequestStop" for d and u :: conn_op
    by (cases d) (simp_all add: handler_defs read_until_defs split: prod.splits)
  then show ?thesis
    by (cases e) (simp_all add: pass on_connection_op_def del: TReadUntilOpState_step.simps)
qed

lemma read_before_stop_Cons:
  "read_before_stop tok (e # es) = read_before_stop tok [e] @ read_before_stop (tok \<or> e = StopAsked) es"
  by (cases e) simp_all

lemma faults_stay_run:
  "conn_run P (goes_on del) es op = Some t \<Longrightarrow> takes sts (Condition op) \<Longrightarrow> Faults (CondState op) \<noteq> [] \<Longrightarrow>
   Faults (CondState t) \<noteq> []"
proof (induction es arbitrary: op)
  case (Cons e es)
  then have e: "conn_enabled e op" "conn_run P (goes_on del) es (conn_step P (goes_on del) e op) = Some t"
    by (simp_all split: if_splits)
  show ?case
    by (rule Cons.IH [OF e(2)]) (use Cons.prems e(1) faults_stay_step in \<open>auto simp: takes_step\<close>)
qed simp

lemma conn_run_ok:
  assumes "conn_run P (goes_on del) es op = Some t" "conn_inv condition op" "takes sts condition"
    and "Faults (CondState t) = [] \<or> \<not> del"
  shows "conn_inv condition t \<and>
    carries ((\<forall>k. 0 \<le> sts k) \<and> (\<forall>e \<in> set es. lossless e)) (read_before_stop (Token (StopOp op)) es) (CondState op) (CondState t)"
  using assms(1,2)
proof (induction es arbitrary: op)
  case Nil
  then show ?case by (simp add: carries_refl)
next
  case (Cons e es)
  let ?u = "conn_step P (goes_on del) e op"
  have e: "conn_enabled e op" "conn_run P (goes_on del) es ?u = Some t" using Cons.prems(1) by (simp_all split: if_splits)
  note s = conn_step_ok [OF Cons.prems(2) assms(3) e(1), of P del]
  have "Condition ?u = condition" using Cons.prems(2) by (simp add: takes_step conn_inv_def lib_ok_def)
  then have "Faults (CondState ?u) = []" using faults_stay_run [OF e(2)] assms(3,4) s by auto
  then have i: "conn_inv condition ?u" using s by blast
  have r: "read_before_stop (Token (StopOp op)) (e # es) =
      read_before_stop (Token (StopOp op)) [e] @ read_before_stop (Token (StopOp ?u)) es"
    by (subst read_before_stop_Cons) (simp add: token_step)
  note h = Cons.IH [OF e(2) i]
  have "carries ((\<forall>k. 0 \<le> sts k) \<and> (\<forall>a \<in> set (e # es). lossless a)) (read_before_stop (Token (StopOp op)) (e # es))
      (CondState op) (CondState t)"
    unfolding r by (rule carries_mono [OF carries_trans [OF conjunct1 [OF s] conjunct2 [OF h]]]) simp
  then show ?case using h by blast
qed

lemmas conn_reached = conn_run_ok [OF _ conn_inv_new(1)]

definition echo_op :: conn_op where
  "echo_op = process_connection (EchoConnection_condition (\<lambda>_. 0)) 0 1 2 3 False 64"

definition tcp_op :: conn_op where
  "tcp_op = process_connection (TcpConnection_condition (\<lambda>_. 0)) 0 1 2 3 False 64"

lemmas conn_eval = echo_op_def tcp_op_def process_connection_def read_new_defs EchoConnection_new_def new_vector_def malloc_def
  runtime_init_def runtime.defs on_connection_op_def pass_on_def fill_span_def store_bytes_def EchoConnection_condition_def
  TcpConnection_condition_def take_data_def resize_def vector_bytes_def assign_def span_of_def spawn_send_def send_done_def
  delete_connection_def EchoConnection_processed_def TcpConnection_processed_def free_def handler_defs read_until_defs
  CONNECTION_BUFFER_SIZE_def active_def running_def queued_def

lemma echo_op_reads:
  "\<exists>op. conn_run sample_platform EchoConnection_processed [ReadBegins (\<lambda>_. 0), BytesRead (\<lambda>_. 0) [1, 2]] echo_op = Some op \<and>
     Scope (CondState op) = [64] \<and> Faults (CondState op) = []"
  by (simp add: conn_eval)

lemma echo_op_drops:
  "\<exists>op. conn_run sample_platform EchoConnection_processed
      [ReadBegins (\<lambda>_. 0), BytesRead (\<lambda>_. 0) [1, 2], StopAsked, BytesRead (\<lambda>_. 0) [7, 8, 9]] echo_op = Some op \<and>
     Faults (CondState op) = []"
  by (simp add: conn_eval)

lemma echo_op_stops:
  "\<exists>op. conn_run sample_platform EchoConnection_processed
      [ReadBegins (\<lambda>_. 0), BytesRead (\<lambda>_. 0) [1, 2], StopAsked] echo_op = Some op \<and>
     Scope (CondState op) = [64] \<and> Faults (CondState op) = [] \<and> conn_enabled (StopApplied (\<lambda>_. 0)) op"
  by (simp add: conn_eval)

lemma tcp_op_stops:
  "\<exists>op. conn_run sample_platform TcpConnection_processed
      [ReadBegins (\<lambda>_. 0), BytesRead (\<lambda>_. 0) [1, 2], StopAsked, StopApplied (\<lambda>_. 0), SendCompleted 0, ScopeEmpty] tcp_op = Some op \<and>
     ConnStage (CondState op) = Destroyed \<and> BytesOut (CondState op) = [1, 2]"
  by (simp add: conn_eval)

text \<open>
  C38: a connection of either server writes back what libuv reads until a stop is asked for, with the real read callback of the library and its
  stop race: the bytes written are a subsequence of the bytes read before the stop, and while no write fails they are all of them, in
  order, but for those of the sends under way. What libuv reads between the request of the stop and its application is dropped by the read callback.
  Of an \<open>EchoConnection\<close> this is said until it is deleted in use (\<open>Faults\<close>), which only the application of a stop during a send does.
\<close>

theorem connections_write_back_what_they_read:
  assumes "(condition = TcpConnection_condition sts \<and> processed = TcpConnection_processed) \<or>
      (condition = EchoConnection_condition sts \<and> processed = EchoConnection_processed \<and> Faults (CondState op) = [])"
    and "conn_run P processed es (process_connection condition child stop_op socket loop token first) = Some op"
  shows "subseq (BytesOut (CondState op)) (read_before_stop token es) \<and>
    ((\<forall>k. 0 \<le> sts k) \<and> (\<forall>status. SendCompleted status \<in> set es \<longrightarrow> 0 \<le> status) \<longrightarrow>
       BytesOut (CondState op) @ pending_bytes (CondState op) = read_before_stop token es)"
proof -
  obtain del where d: "processed = goes_on del" "Faults (CondState op) = [] \<or> \<not> del"
    using assms(1) by (metis goes_on_def)
  have t: "takes sts condition" using assms(1) conditions_take by blast
  have c: "carries ((\<forall>k. 0 \<le> sts k) \<and> (\<forall>e \<in> set es. lossless e)) (read_before_stop token es)
      (CondState (process_connection condition child stop_op socket loop token first)) (CondState op)"
    using conn_reached [OF assms(2) [unfolded d(1)] t d(2)] by (simp add: conn_inv_new)
  then have "\<forall>x. subseq (out (CondState op)) (x @ read_before_stop token es)"
    by (simp add: carries_def conn_inv_new)
  then have "subseq (out (CondState op)) ([] @ read_before_stop token es)" by (rule spec)
  moreover have "subseq (BytesOut (CondState op)) (out (CondState op))"
    by (rule prefix_imp_subseq) (simp add: out_def)
  ultimately have "subseq (BytesOut (CondState op)) (read_before_stop token es)"
    using subseq_order.trans by fastforce
  moreover have "\<forall>e \<in> set es. lossless e" if "\<forall>status. SendCompleted status \<in> set es \<longrightarrow> 0 \<le> status"
    using that by (metis lossless.simps(1) lossless.elims(3))
  ultimately show ?thesis using c by (auto simp: carries_def conn_inv_new out_def [symmetric])
qed

theorem connections_write_back_what_they_read_witness:
  "\<exists>op. conn_run sample_platform EchoConnection_processed
      [ReadBegins (\<lambda>_. 0), BytesRead (\<lambda>_. 0) [1, 2], StopAsked, BytesRead (\<lambda>_. 0) [7, 8, 9]] echo_op = Some op \<and>
     BytesOut (CondState op) @ pending_bytes (CondState op) = [1, 2]"
proof -
  obtain op where op: "conn_run sample_platform EchoConnection_processed
      [ReadBegins (\<lambda>_. 0), BytesRead (\<lambda>_. 0) [1, 2], StopAsked, BytesRead (\<lambda>_. 0) [7, 8, 9]] echo_op = Some op"
    "Faults (CondState op) = []" using echo_op_drops by blast
  have h: "(EchoConnection_condition (\<lambda>_. 0) = TcpConnection_condition (\<lambda>_. 0) \<and> EchoConnection_processed = TcpConnection_processed) \<or>
      (EchoConnection_condition (\<lambda>_. 0) = EchoConnection_condition (\<lambda>_. 0) \<and>
        EchoConnection_processed = EchoConnection_processed \<and> Faults (CondState op) = [])" using op(2) by blast
  show ?thesis
    using connections_write_back_what_they_read [OF h op(1) [unfolded echo_op_def]] op(1) by (auto simp: echo_op_def)
qed

text \<open>
  C39: a \<open>TcpConnection\<close> lives as long as it is used, in every run, stops included: no vector is used after it is gone, the connection is destroyed
  when its last send is over, and leaves nothing behind.
\<close>

theorem tcp_connection_outlives_its_sends:
  assumes "conn_run P TcpConnection_processed es
    (process_connection (TcpConnection_condition sts) child stop_op socket loop token first) = Some op"
  shows "Faults (CondState op) = [] \<and>
    (ConnStage (CondState op) = Destroyed \<longrightarrow> Scope (CondState op) = [] \<and> Mem (CondState op) = Map.empty \<and>
       \<not> active (Socket op) (trace op))"
proof -
  have d: "TcpConnection_processed = goes_on False" by (simp add: goes_on_def)
  have i: "conn_inv (TcpConnection_condition sts) op"
    using conn_reached [OF assms [unfolded d] conditions_take(2)] by blast
  then have l: "lib_ok (TcpConnection_condition sts) op" by (simp add: conn_inv_def)
  show ?thesis
    using i lib_reading [OF l] by (auto simp: conn_inv_def vectors_ok_def)
qed

theorem tcp_connection_outlives_its_sends_witness:
  "\<exists>op. conn_run sample_platform TcpConnection_processed
      [ReadBegins (\<lambda>_. 0), BytesRead (\<lambda>_. 0) [1, 2], StopAsked, StopApplied (\<lambda>_. 0), SendCompleted 0, ScopeEmpty] tcp_op = Some op \<and>
     BytesOut (CondState op) = [1, 2] \<and> Faults (CondState op) = [] \<and> Mem (CondState op) = Map.empty"
proof -
  obtain op where op: "conn_run sample_platform TcpConnection_processed
      [ReadBegins (\<lambda>_. 0), BytesRead (\<lambda>_. 0) [1, 2], StopAsked, StopApplied (\<lambda>_. 0), SendCompleted 0, ScopeEmpty] tcp_op = Some op"
    "ConnStage (CondState op) = Destroyed" "BytesOut (CondState op) = [1, 2]" using tcp_op_stops by blast
  then show ?thesis
    using tcp_connection_outlives_its_sends [OF op(1) [unfolded tcp_op_def]] by (auto simp: tcp_op_def)
qed

text \<open>
  the exact circumstances in which an \<open>EchoConnection\<close> is deleted under its sends: when its reading is stopped while a send is under way.
  \<open>finally\<close> deletes it then, since \<open>on_empty\<close> is only waited for after a value.
\<close>

theorem stopped_connection_is_deleted_in_use:
  assumes "conn_run P EchoConnection_processed es
      (process_connection (EchoConnection_condition sts) child stop_op socket loop token first) = Some op"
    and "Faults (CondState op) = []" "conn_enabled e op"
  shows "Faults (CondState (conn_step P EchoConnection_processed e op)) \<noteq> [] \<longleftrightarrow>
    (\<exists>env. e = StopApplied env) \<and> Scope (CondState op) \<noteq> []"
proof -
  have d: "EchoConnection_processed = goes_on True" by (simp add: goes_on_def)
  have "conn_inv (EchoConnection_condition sts) op"
    using conn_reached [OF assms(1) [unfolded d] conditions_take(1)] assms(2) by blast
  from conn_step_ok [OF this conditions_take(1) assms(3), of P True] show ?thesis by (simp add: d)
qed

theorem stopped_connection_is_deleted_in_use_witness:
  "\<exists>op. conn_run sample_platform EchoConnection_processed
      [ReadBegins (\<lambda>_. 0), BytesRead (\<lambda>_. 0) [1, 2], StopAsked] echo_op = Some op \<and> Faults (CondState op) = [] \<and>
     Faults (CondState (conn_step sample_platform EchoConnection_processed (StopApplied (\<lambda>_. 0)) op)) \<noteq> []"
proof -
  obtain op where op: "conn_run sample_platform EchoConnection_processed
      [ReadBegins (\<lambda>_. 0), BytesRead (\<lambda>_. 0) [1, 2], StopAsked] echo_op = Some op"
    "Scope (CondState op) = [64]" "Faults (CondState op) = []" "conn_enabled (StopApplied (\<lambda>_. 0)) op"
    using echo_op_stops by blast
  then show ?thesis
    using stopped_connection_is_deleted_in_use [OF op(1) [unfolded echo_op_def] op(3,4)] by auto
qed

end
