(* ===== verification/Echo_Uvexec.thy ===== *)
theory Echo_Uvexec
  imports Uv_Prelude
begin

text \<open>
  The accepting side of the C++ echo server and the C++ echo client of src/examples/echo_uvexec.cpp, on the completions of the library's
  senders: which operations their scopes hold, what each completion starts, and when a connection is deleted. The server accepts until an accept fails; the
  client starts as many connections as it was asked for, and deletes a connection under its reader when its send fails.
\<close>

section \<open>\<open>EchoServer\<close>\<close>

text \<open>
  The operations of \<open>accept_connection\<close> in the scope. \<open>Failed\<close>: some accept has completed without a connection.
\<close>

datatype accept_op = Accepting | Serving

record EchoServer =
  AcceptOps :: "ptr \<Rightarrow> accept_op option"
  NextAccept :: ptr
  AcceptedConnections :: nat
  ProcessedConnections :: nat
  Failed :: bool

text \<open>What an accept does when it is started: a connection is pending, or it waits, or it fails at once.\<close>

datatype at_once = HasConnection | Waits | FailsAtOnce

text \<open>
  \<open>EchoServer_spawn_accept\<close>: when a connection is pending the body runs at once, and spawns the next accept itself. The list has the fate of each, the
  ones not listed wait. An operation that is over is counted by \<open>then\<close>, an error included.
\<close>

definition accept_over :: "ptr \<Rightarrow> EchoServer \<Rightarrow> EchoServer" where
  "accept_over op s = s\<lparr>AcceptOps := (AcceptOps s)(op := None), ProcessedConnections := ProcessedConnections s + 1\<rparr>"

text \<open>An accept that fails. The operation 0 is the one \<open>run\<close> nests, whose error goes to the caller.\<close>

definition accept_failed :: "ptr \<Rightarrow> EchoServer \<Rightarrow> EchoServer" where
  "accept_failed op s =
     (if op = 0 then s\<lparr>AcceptOps := (AcceptOps s)(op := None), Failed := True\<rparr>
      else accept_over op (s\<lparr>Failed := True\<rparr>))"

definition start_serving :: "ptr \<Rightarrow> EchoServer \<Rightarrow> EchoServer" where
  "start_serving op s =
     s\<lparr>AcceptOps := (AcceptOps s)(op \<mapsto> Serving), AcceptedConnections := AcceptedConnections s + 1\<rparr>"

fun EchoServer_spawn_accept :: "at_once list \<Rightarrow> EchoServer \<Rightarrow> EchoServer" where
  "EchoServer_spawn_accept fates s =
     (let op = NextAccept s;
          s = s\<lparr>AcceptOps := (AcceptOps s)(op \<mapsto> Accepting), NextAccept := op + 1\<rparr>
      in case fates of
           [] \<Rightarrow> s
         | Waits # _ \<Rightarrow> s
         | FailsAtOnce # _ \<Rightarrow> accept_failed op s
         | HasConnection # fates \<Rightarrow> EchoServer_spawn_accept fates (start_serving op s))"

datatype accept_event =
    Accepted ptr "at_once list"
  | AcceptFailed ptr
  | AcceptStopped ptr
  | ConnectionOver ptr

fun accept_step :: "accept_event \<Rightarrow> EchoServer \<Rightarrow> EchoServer" where
  "accept_step (Accepted op fates) s = EchoServer_spawn_accept fates (start_serving op s)"
| "accept_step (AcceptFailed op) s = accept_failed op s"
| "accept_step (AcceptStopped op) s = s\<lparr>AcceptOps := (AcceptOps s)(op := None), Failed := True\<rparr>"
| "accept_step (ConnectionOver op) s = accept_over op s"

fun accept_enabled :: "accept_event \<Rightarrow> EchoServer \<Rightarrow> bool" where
  "accept_enabled (Accepted op fates) s \<longleftrightarrow> AcceptOps s op = Some Accepting"
| "accept_enabled (AcceptFailed op) s \<longleftrightarrow> AcceptOps s op = Some Accepting"
| "accept_enabled (AcceptStopped op) s \<longleftrightarrow> AcceptOps s op = Some Accepting"
| "accept_enabled (ConnectionOver op) s \<longleftrightarrow> AcceptOps s op = Some Serving"

text \<open>\<open>run\<close> nests the first operation of \<open>accept_connection\<close> into the scope.\<close>

definition EchoServer_run :: "at_once list \<Rightarrow> EchoServer" where
  "EchoServer_run fates =
     EchoServer_spawn_accept fates \<lparr>AcceptOps = (\<lambda>_. None), NextAccept = 0, AcceptedConnections = 0, ProcessedConnections = 0, Failed = False\<rparr>"

fun accept_run :: "accept_event list \<Rightarrow> EchoServer \<Rightarrow> EchoServer option" where
  "accept_run [] s = Some s"
| "accept_run (e # es) s = (if accept_enabled e s then accept_run es (accept_step e s) else None)"

section \<open>\<open>EchoClient\<close>\<close>

text \<open>
  A connection is being made, or it has a \<open>Connection\<close> object, whose scope holds the receive while \<open>Receiving\<close>, and a send that is under way or over. \<open>InUse\<close>
  counts the objects that were deleted while their scope was not empty.
\<close>

record Connection =
  DataLeft :: int
  DataToReceive :: nat
  Receiving :: bool
  SendOver :: bool

datatype client_op = ConnectingOp | ConnectionOp Connection

record EchoClient =
  ClientOps :: "ptr \<Rightarrow> client_op option"
  NextClient :: ptr
  ConnectionLimit :: int
  ProcessedClients :: nat
  TotalBytesReceived :: int
  PayloadSize :: nat
  InUse :: nat

definition EchoClient_new :: "nat \<Rightarrow> int \<Rightarrow> EchoClient" where
  "EchoClient_new payload connections =
     \<lparr>ClientOps = (\<lambda>_. None), NextClient = 0, ConnectionLimit = connections + 1, ProcessedClients = 0,
      TotalBytesReceived = 0, PayloadSize = payload, InUse = 0\<rparr>"

definition client_over :: "ptr \<Rightarrow> EchoClient \<Rightarrow> EchoClient" where
  "client_over op c = c\<lparr>ClientOps := (ClientOps c)(op := None)\<rparr>"

text \<open>\<open>st\<close>: \<open>connect_to\<close> fails at once when it is negative, which \<open>upon_error\<close> prints.\<close>

definition spawn_connection :: "int \<Rightarrow> EchoClient \<Rightarrow> EchoClient" where
  "spawn_connection st c =
     (let op = NextClient c;
          c = c\<lparr>ClientOps := (ClientOps c)(op \<mapsto> ConnectingOp), NextClient := op + 1\<rparr>
      in if st < 0 then client_over op c else c)"

definition set_connection :: "ptr \<Rightarrow> Connection \<Rightarrow> EchoClient \<Rightarrow> EchoClient" where
  "set_connection op k c = c\<lparr>ClientOps := (ClientOps c)(op \<mapsto> ConnectionOp k)\<rparr>"

text \<open>The \<open>then\<close> at the end of the body: the connection is counted and deleted.\<close>

definition delete_Connection :: "ptr \<Rightarrow> Connection \<Rightarrow> EchoClient \<Rightarrow> EchoClient" where
  "delete_Connection op k c =
     client_over op (c\<lparr>ProcessedClients := ProcessedClients c + 1, InUse := (if Receiving k then InUse c + 1 else InUse c)\<rparr>)"

text \<open>The end of the send: a value goes on to \<open>join\<close>, which waits until the scope is empty; an error goes past it.\<close>

definition on_sent :: "ptr \<Rightarrow> int \<Rightarrow> Connection \<Rightarrow> EchoClient \<Rightarrow> EchoClient" where
  "on_sent op status k c =
     (if status < 0 then delete_Connection op k c
      else if Receiving k then set_connection op (k\<lparr>SendOver := True\<rparr>) c
      else delete_Connection op k c)"

text \<open>The body of \<open>connect_to\<close>; \<open>st\<close>, \<open>st'\<close>: a negative one makes the receive, the send, complete with an error at once.\<close>

definition on_connected :: "int \<Rightarrow> int \<Rightarrow> ptr \<Rightarrow> EchoClient \<Rightarrow> EchoClient" where
  "on_connected st st' op c =
     (let k = \<lparr>DataLeft = int (PayloadSize c), DataToReceive = PayloadSize c, Receiving = (0 \<le> st), SendOver = False\<rparr>;
          c = set_connection op k c
      in if st' < 0 then on_sent op st' k c else c)"

text \<open>The scope of a connection has become empty: \<open>on_empty\<close> completes if it is waited for.\<close>

definition receive_over :: "ptr \<Rightarrow> Connection \<Rightarrow> EchoClient \<Rightarrow> EchoClient" where
  "receive_over op k c =
     (let k = k\<lparr>Receiving := False\<rparr>
      in if SendOver k then delete_Connection op k c else set_connection op k c)"

text \<open>\<open>receive_data\<close>: \<open>rd\<close> bytes, 0 at the end of the stream. \<open>st\<close> belongs to the connection that is spawned, \<open>st'\<close> to the next receive.\<close>

definition on_received :: "int \<Rightarrow> int \<Rightarrow> ptr \<Rightarrow> nat \<Rightarrow> Connection \<Rightarrow> EchoClient \<Rightarrow> EchoClient" where
  "on_received st st' op rd k c =
     (let first = (DataLeft k = int (DataToReceive k));
          c = (if first then c\<lparr>ConnectionLimit := ConnectionLimit c - 1\<rparr> else c);
          c = (if first \<and> ConnectionLimit c > 0 then spawn_connection st c else c);
          k = k\<lparr>DataLeft := DataLeft k - int rd\<rparr>;
          c = c\<lparr>TotalBytesReceived := TotalBytesReceived c + int rd\<rparr>
      in if rd > 0 \<and> DataLeft k > 0 \<and> 0 \<le> st' then set_connection op k c else receive_over op k c)"

datatype uvexec_event =
    ConnectOk ptr int int
  | ConnectFails ptr
  | DataReceived ptr nat int int
  | ReceiveFails ptr
  | SendEnds ptr int

fun uvexec_step :: "uvexec_event \<Rightarrow> EchoClient \<Rightarrow> EchoClient" where
  "uvexec_step (ConnectOk op st st') c = on_connected st st' op c"
| "uvexec_step (ConnectFails op) c = client_over op c"
| "uvexec_step (DataReceived op rd st st') c =
     (case ClientOps c op of Some (ConnectionOp k) \<Rightarrow> on_received st st' op rd k c | _ \<Rightarrow> c)"
| "uvexec_step (ReceiveFails op) c =
     (case ClientOps c op of Some (ConnectionOp k) \<Rightarrow> receive_over op k c | _ \<Rightarrow> c)"
| "uvexec_step (SendEnds op status) c =
     (case ClientOps c op of Some (ConnectionOp k) \<Rightarrow> on_sent op status k c | _ \<Rightarrow> c)"

fun uvexec_enabled :: "uvexec_event \<Rightarrow> EchoClient \<Rightarrow> bool" where
  "uvexec_enabled (ConnectOk op st st') c \<longleftrightarrow> ClientOps c op = Some ConnectingOp"
| "uvexec_enabled (ConnectFails op) c \<longleftrightarrow> ClientOps c op = Some ConnectingOp"
| "uvexec_enabled (DataReceived op rd st st') c \<longleftrightarrow> (\<exists>k. ClientOps c op = Some (ConnectionOp k) \<and> Receiving k)"
| "uvexec_enabled (ReceiveFails op) c \<longleftrightarrow> (\<exists>k. ClientOps c op = Some (ConnectionOp k) \<and> Receiving k)"
| "uvexec_enabled (SendEnds op status) c \<longleftrightarrow> (\<exists>k. ClientOps c op = Some (ConnectionOp k) \<and> \<not> SendOver k)"

text \<open>\<open>UvExecEchoClient\<close>: \<open>sts\<close> has one status for each of the \<open>init_conn\<close> connections it starts.\<close>

definition UvExecEchoClient_start :: "int \<Rightarrow> int list \<Rightarrow> nat \<Rightarrow> EchoClient" where
  "UvExecEchoClient_start connections sts payload =
     fold spawn_connection sts (EchoClient_new payload (connections - int (length sts)))"

fun uvexec_run :: "uvexec_event list \<Rightarrow> EchoClient \<Rightarrow> EchoClient option" where
  "uvexec_run [] c = Some c"
| "uvexec_run (e # es) c = (if uvexec_enabled e c then uvexec_run es (uvexec_step e c) else None)"

section \<open>The server accepts until an accept fails\<close>

definition accepting :: "EchoServer \<Rightarrow> ptr set" where
  "accepting s = {op. AcceptOps s op = Some Accepting}"

definition serving :: "EchoServer \<Rightarrow> ptr set" where
  "serving s = {op. AcceptOps s op = Some Serving}"

definition accept_base :: "EchoServer \<Rightarrow> bool" where
  "accept_base s \<longleftrightarrow> (\<forall>p \<ge> NextAccept s. AcceptOps s p = None) \<and> finite (serving s)"

definition echo_accept_inv :: "EchoServer \<Rightarrow> bool" where
  "echo_accept_inv s \<longleftrightarrow> accept_base s \<and>
     (if Failed s
      then accepting s = {} \<and> ProcessedConnections s + card (serving s) \<in> {AcceptedConnections s, AcceptedConnections s + 1}
      else (\<exists>op. accepting s = {op}) \<and> ProcessedConnections s + card (serving s) = AcceptedConnections s)"

lemma removed:
  assumes "AcceptOps t = (AcceptOps s)(op := None)"
  shows "accepting t = accepting s - {op}" "serving t = serving s - {op}"
  using assms by (auto simp: accepting_def serving_def split: if_splits)

lemma accept_failed_fields:
  "AcceptOps (accept_failed op s) = (AcceptOps s)(op := None)" "NextAccept (accept_failed op s) = NextAccept s"
  "Failed (accept_failed op s)" "AcceptedConnections (accept_failed op s) = AcceptedConnections s"
  "ProcessedConnections (accept_failed op s) = (if op = 0 then 0 else 1) + ProcessedConnections s"
  by (simp_all add: accept_failed_def accept_over_def)

lemma accept_inv_failed:
  assumes "accept_base s" "accepting s = {op}" "ProcessedConnections s + card (serving s) = AcceptedConnections s"
  shows "echo_accept_inv (accept_failed op s)"
proof -
  have "op \<in> accepting s" using assms(2) by simp
  then have "op \<notin> serving s" by (simp add: accepting_def serving_def)
  then have r: "accepting (accept_failed op s) = {}" "serving (accept_failed op s) = serving s"
    using removed [OF accept_failed_fields(1)] assms(2) by auto
  have "accept_base (accept_failed op s)"
    using assms(1) r(2) by (simp add: accept_base_def accept_failed_fields)
  then show ?thesis using r assms(3) by (simp add: echo_accept_inv_def accept_failed_fields)
qed

lemma accept_inv_spawn:
  assumes "accept_base s" "accepting s = {}" "\<not> Failed s" "ProcessedConnections s + card (serving s) = AcceptedConnections s"
  shows "echo_accept_inv (EchoServer_spawn_accept fates s)"
  using assms
proof (induction fates arbitrary: s)
  case Nil
  then have "accepting (EchoServer_spawn_accept [] s) = {NextAccept s}" "serving (EchoServer_spawn_accept [] s) = serving s"
    by (auto simp: accepting_def serving_def accept_base_def Let_def split: if_splits)
  then show ?case using Nil by (auto simp: echo_accept_inv_def accept_base_def Let_def)
next
  case (Cons f fates)
  let ?op = "NextAccept s"
  let ?s = "s\<lparr>AcceptOps := (AcceptOps s)(?op \<mapsto> Accepting), NextAccept := ?op + 1\<rparr>"
  have n: "AcceptOps s ?op = None" using Cons.prems(1) by (simp add: accept_base_def)
  then have v: "?op \<notin> serving s" by (simp add: serving_def)
  show ?case
  proof (cases f)
    case HasConnection
    let ?t = "start_serving ?op ?s"
    have a: "accepting ?t = {}" "serving ?t = insert ?op (serving s)"
      using Cons.prems(2) by (auto simp: accepting_def serving_def start_serving_def)
    then have "accept_base ?t" using Cons.prems(1) by (auto simp: accept_base_def start_serving_def)
    moreover have "ProcessedConnections ?t + card (serving ?t) = AcceptedConnections ?t"
      using Cons.prems(1,4) a v by (simp add: accept_base_def start_serving_def)
    ultimately have "echo_accept_inv (EchoServer_spawn_accept fates ?t)"
      using Cons.prems(3) a by (intro Cons.IH) (simp_all add: start_serving_def)
    then show ?thesis using HasConnection by (simp add: Let_def)
  next
    case Waits
    have "accepting ?s = {?op}" "serving ?s = serving s"
      using Cons.prems(2) n by (auto simp: accepting_def serving_def)
    then show ?thesis using Waits Cons.prems by (simp add: echo_accept_inv_def accept_base_def Let_def)
  next
    case FailsAtOnce
    have "accepting ?s = {?op}" "serving ?s = serving s"
      using Cons.prems(2) n by (auto simp: accepting_def serving_def)
    then have "echo_accept_inv (accept_failed ?op ?s)"
      using Cons.prems by (intro accept_inv_failed) (simp_all add: accept_base_def)
    then show ?thesis using FailsAtOnce by (simp add: Let_def)
  qed
qed

lemma accept_inv_step:
  assumes "echo_accept_inv s" "accept_enabled e s"
  shows "echo_accept_inv (accept_step e s)"
proof -
  have out: "\<not> Failed s \<and> accepting s = {op}" if "AcceptOps s op = Some Accepting" for op
  proof -
    have "op \<in> accepting s" using that by (simp add: accepting_def)
    then show ?thesis using assms(1) by (auto simp: echo_accept_inv_def split: if_splits)
  qed
  have b: "accept_base s" using assms(1) by (simp add: echo_accept_inv_def)
  show ?thesis
  proof (cases e)
    case (Accepted op fates)
    then have op: "AcceptOps s op = Some Accepting" using assms(2) by simp
    let ?t = "start_serving op s"
    have a: "accepting ?t = {}" "serving ?t = insert op (serving s)" "op \<notin> serving s"
      using out [OF op] op by (auto simp: accepting_def serving_def start_serving_def)
    have "accept_base ?t" using b op a by (auto simp: accept_base_def start_serving_def)
    moreover have "ProcessedConnections ?t + card (serving ?t) = AcceptedConnections ?t"
      using assms(1) out [OF op] a b by (simp add: echo_accept_inv_def accept_base_def start_serving_def)
    ultimately have "echo_accept_inv (EchoServer_spawn_accept fates ?t)"
      using out [OF op] a by (intro accept_inv_spawn) (simp_all add: start_serving_def)
    then show ?thesis using Accepted by simp
  next
    case (AcceptFailed op)
    then have op: "AcceptOps s op = Some Accepting" using assms(2) by simp
    have "ProcessedConnections s + card (serving s) = AcceptedConnections s"
      using assms(1) out [OF op] by (simp add: echo_accept_inv_def)
    then show ?thesis using AcceptFailed accept_inv_failed [OF b] out [OF op] by simp
  next
    case (AcceptStopped op)
    then have op: "AcceptOps s op = Some Accepting" using assms(2) by simp
    let ?t = "accept_step e s"
    have "accepting ?t = {}" "serving ?t = serving s"
      using AcceptStopped out [OF op] op by (auto simp: accepting_def serving_def)
    then show ?thesis
      using AcceptStopped assms(1) out [OF op] by (simp add: echo_accept_inv_def accept_base_def)
  next
    case (ConnectionOver op)
    then have op: "op \<in> serving s" using assms(2) by (simp add: serving_def)
    let ?t = "accept_step e s"
    have a: "accepting ?t = accepting s" "serving ?t = serving s - {op}"
      using ConnectionOver assms(2) by (auto simp: accepting_def serving_def accept_over_def)
    have "card (serving s) = Suc (card (serving s - {op}))"
      using b op card_Suc_Diff1 [of "serving s" op] by (simp only: accept_base_def)
    then show ?thesis
      using ConnectionOver assms(1) a b by (auto simp: echo_accept_inv_def accept_base_def accept_over_def split: if_splits)
  qed
qed

lemma accept_inv_run: "accept_run es s = Some t \<Longrightarrow> echo_accept_inv s \<Longrightarrow> echo_accept_inv t"
  by (induction es arbitrary: s) (auto split: if_splits dest: accept_inv_step)

lemma accept_inv_start: "echo_accept_inv (EchoServer_run fates)"
  unfolding EchoServer_run_def
  by (rule accept_inv_spawn) (simp_all add: accept_base_def accepting_def serving_def)

text \<open>
  C40: in every run exactly one operation of the server waits for a connection, until an accept fails or is stopped; from then on
  none ever does, though the connections it has are served to the end. The connections that are over and those being served are the ones that were
  accepted, but for the failed accept that is counted with them.
\<close>

theorem server_accepts_until_a_failure:
  assumes "accept_run es (EchoServer_run fates) = Some s"
  shows "card {op. AcceptOps s op = Some Accepting} = (if Failed s then 0 else 1) \<and>
    AcceptedConnections s \<le> ProcessedConnections s + card {op. AcceptOps s op = Some Serving} \<and>
    ProcessedConnections s + card {op. AcceptOps s op = Some Serving} \<le> AcceptedConnections s + (if Failed s then 1 else 0)"
  using accept_inv_run [OF assms accept_inv_start]
  by (auto simp: echo_accept_inv_def accepting_def serving_def split: if_splits)

theorem server_accepts_until_a_failure_witness:
  "\<exists>s. accept_run [Accepted 1 [Waits], AcceptFailed 2, ConnectionOver 0] (EchoServer_run [HasConnection]) = Some s \<and>
     card {op. AcceptOps s op = Some Accepting} = 0 \<and> AcceptedConnections s = 2"
proof -
  have "case accept_run [Accepted 1 [Waits], AcceptFailed 2, ConnectionOver 0] (EchoServer_run [HasConnection]) of
      None \<Rightarrow> False | Some s \<Rightarrow> Failed s \<and> AcceptedConnections s = 2"
    by (simp add: EchoServer_run_def start_serving_def accept_over_def accept_failed_def Let_def)
  then obtain s where s: "accept_run [Accepted 1 [Waits], AcceptFailed 2, ConnectionOver 0] (EchoServer_run [HasConnection]) = Some s"
    "Failed s" "AcceptedConnections s = 2" by (auto split: option.splits)
  then show ?thesis using server_accepts_until_a_failure [OF s(1)] by simp
qed

section \<open>The client\<close>

text \<open>How many connections the client has started and will start: \<open>ConnectionLimit\<close> counts down, at the first data of a connection.\<close>

definition planned :: "EchoClient \<Rightarrow> int" where
  "planned c = int (NextClient c) + max 0 (ConnectionLimit c - 1)"

lemma planned_calls [simp]:
  "planned (client_over op c) = planned c" "planned (set_connection op k c) = planned c"
  "planned (delete_Connection op k c) = planned c" "planned (on_sent op status k c) = planned c"
  "planned (on_connected st st' op c) = planned c" "planned (receive_over op k c) = planned c"
  by (simp_all add: planned_def client_over_def set_connection_def delete_Connection_def on_sent_def on_connected_def
      receive_over_def Let_def)

lemma planned_received: "planned (on_received st st' op rd k c) = planned c"
  by (simp add: planned_def on_received_def spawn_connection_def client_over_def set_connection_def delete_Connection_def
      receive_over_def Let_def)

lemma planned_step: "planned (uvexec_step e c) = planned c"
  by (cases e) (simp_all add: planned_received split: option.split client_op.split)

lemma planned_run: "uvexec_run es c = Some d \<Longrightarrow> planned d = planned c"
  by (induction es arbitrary: c) (auto simp: planned_step split: if_splits)

lemma planned_start: "planned (UvExecEchoClient_start connections sts payload) = max (int (length sts)) connections"
proof -
  have "NextClient (fold spawn_connection sts c) = NextClient c + length sts \<and>
      ConnectionLimit (fold spawn_connection sts c) = ConnectionLimit c" for c
    by (induction sts arbitrary: c) (simp_all add: spawn_connection_def client_over_def Let_def)
  then show ?thesis by (simp add: UvExecEchoClient_start_def EchoClient_new_def planned_def)
qed

text \<open>Whether an event makes the send of a connection fail while the connection receives.\<close>

fun send_fails_receiving :: "uvexec_event \<Rightarrow> EchoClient \<Rightarrow> bool" where
  "send_fails_receiving (ConnectOk op st st') c \<longleftrightarrow> 0 \<le> st \<and> st' < 0"
| "send_fails_receiving (SendEnds op status) c \<longleftrightarrow>
     status < 0 \<and> (\<exists>k. ClientOps c op = Some (ConnectionOp k) \<and> Receiving k)"
| "send_fails_receiving e c \<longleftrightarrow> False"

lemma InUse_calls [simp]:
  "InUse (client_over op c) = InUse c" "InUse (set_connection op k c) = InUse c" "InUse (receive_over op k c) = InUse c"
  "InUse (spawn_connection st c) = InUse c"
  by (simp_all add: client_over_def set_connection_def receive_over_def delete_Connection_def spawn_connection_def Let_def)

lemma InUse_received: "InUse (on_received st st' op rd k c) = InUse c"
  by (simp add: on_received_def Let_def)

text \<open>
  the exact circumstances in which the client deletes a connection whose scope still holds its receive: when the send fails, at once or later,
  while the connection receives, since \<open>join\<close> is only waited for after a value. Otherwise the connection is deleted when both are over.
\<close>

theorem failed_send_deletes_receiving_connection:
  assumes "uvexec_enabled e c"
  shows "InUse (uvexec_step e c) = (if send_fails_receiving e c then InUse c + 1 else InUse c)"
  using assms
  by (cases e) (auto simp: on_connected_def on_sent_def delete_Connection_def InUse_received Let_def split: option.split client_op.split)

definition sample_client :: EchoClient where
  "sample_client = UvExecEchoClient_start 3 [0] 10"

theorem failed_send_deletes_receiving_connection_witness:
  "\<exists>c. uvexec_run [ConnectOk 0 0 0, DataReceived 0 4 0 0] sample_client = Some c \<and> InUse c = 0 \<and>
     InUse (uvexec_step (SendEnds 0 (- 32)) c) = 1"
proof -
  have "case uvexec_run [ConnectOk 0 0 0, DataReceived 0 4 0 0] sample_client of None \<Rightarrow> False
      | Some c \<Rightarrow> InUse c = 0 \<and> uvexec_enabled (SendEnds 0 (- 32)) c \<and> send_fails_receiving (SendEnds 0 (- 32)) c"
    by (simp add: sample_client_def UvExecEchoClient_start_def EchoClient_new_def spawn_connection_def on_connected_def
        set_connection_def on_received_def Let_def)
  then obtain c where c: "uvexec_run [ConnectOk 0 0 0, DataReceived 0 4 0 0] sample_client = Some c" "InUse c = 0"
    "uvexec_enabled (SendEnds 0 (- 32)) c" "send_fails_receiving (SendEnds 0 (- 32)) c" by (auto split: option.splits)
  then show ?thesis using failed_send_deletes_receiving_connection [OF c(3)] by simp
qed

text \<open>
  in every run the connections started and those still to be started are as many as asked for, the larger of \<open>connections\<close> and
  \<open>init_conn\<close>: only the first data of a connection starts another one.
\<close>

theorem uvexec_client_starts_as_many_as_asked:
  assumes "uvexec_run es (UvExecEchoClient_start connections sts payload) = Some c"
  shows "int (NextClient c) + max 0 (ConnectionLimit c - 1) = max (int (length sts)) connections \<and>
    int (NextClient c) \<le> max (int (length sts)) connections"
proof -
  have "planned c = max (int (length sts)) connections"
    using planned_run [OF assms] by (simp add: planned_start)
  then show ?thesis unfolding planned_def by linarith
qed

theorem uvexec_client_starts_as_many_as_asked_witness:
  "\<exists>c. uvexec_run [ConnectOk 0 0 0, DataReceived 0 4 0 0] sample_client = Some c \<and> NextClient c = 2 \<and> int (NextClient c) \<le> 3"
proof -
  have "case uvexec_run [ConnectOk 0 0 0, DataReceived 0 4 0 0] sample_client of None \<Rightarrow> False | Some c \<Rightarrow> NextClient c = 2"
    by (simp add: sample_client_def UvExecEchoClient_start_def EchoClient_new_def spawn_connection_def on_connected_def
        set_connection_def on_received_def Let_def)
  then obtain c where c: "uvexec_run [ConnectOk 0 0 0, DataReceived 0 4 0 0] sample_client = Some c" "NextClient c = 2"
    by (auto split: option.splits)
  then show ?thesis using uvexec_client_starts_as_many_as_asked [OF c(1) [unfolded sample_client_def]] by simp
qed

end
