(* ===== verification/Spec2Isabelle.thy ===== *)
theory Spec2Isabelle
  imports Loop_Protocol Handle_Data Async_Value Signatures Loop_Env Lazy_Construct Meta_Types
  Echo_Server_Safety Echo_Client_Safety Echo_Udp Echo_Connection_Safety Echo_Uvexec
begin

text \<open>
  uvexec is a C++ library of stdexec senders that run on a libuv event loop. This development models the library
  (src/include/uvexec, src/src) between the two pieces of foreign code it joins. Below it is libuv: each call is recorded in a trace with the
  status it returned, and the statuses are given by an environment, an argument of the definitions. Above it are stdexec receivers and
  child senders: a completion of the receiver is an effect in the trace, and the child's completion is an event of the run.

  \<^bold>\<open>The loop.\<close> \<open>TLoop\<close> (src/execution/loop.cpp, include/uvexec/execution/loop.hpp) is reached from any thread.

  \<^item> Operation_List: the lock-free list of scheduled
  operations, \<open>Schedule\<close> and \<open>ApplyOperations\<close>, once as functions on the list's pointers and once as a system of any number of threads with one
  step for each access to shared memory. The invariant of the system shows that operations are applied in the order of the successful
  compare-and-exchanges, exactly once, and that a non-empty list always has a wake-up on its way.

  \<^item> Intrusive_List: the doubly linked list of
  include/uvexec/util/intrusive_list.hpp on its three pointer fields, which refines sequences.

  \<^item> Runner: src/execution/runner.cpp, the threads that wait for the
  loop.

  \<^item> Loop_Protocol: \<open>run\<close>, \<open>run_once\<close>, \<open>drain\<close>, \<open>RunnerSteal\<close> and the wake-up of \<open>sync_wait\<close> as steps of any number of threads: mutual
  exclusion, no dangling runner, no early return, and the one deadlock there is.

  \<^item> Stop_Operation: \<open>TStopOperation\<close>, how an operation hears of a
  stop request, and the race of \<open>Reset\<close> with the stop callback.

  \<^item> Scheduling: the constructor and destructor of a loop, \<open>schedule\<close>, and the receiver
  of \<open>sync_wait\<close> with what it holds and throws (include/uvexec/execution/sync_wait_receiver.hpp).

  \<^bold>\<open>Calls of libuv.\<close>

  \<^item> Uv_Prelude: machine types, effects, environments, runs of handlers.

  \<^item> Uv_Errors: src/uv_util/errors.cpp, the address copies of
  src/uv_util/safe_uv.c, \<open>EErrc\<close> and its category.

  \<^item> Uv_Requests: src/uv_util/reqs.cpp over safe_uv.c.

  \<^bold>\<open>Operation states\<close>, one record for each class and one definition for each of its handlers; a run is a list of events (the
  child completes, libuv calls back, a stop is requested, the operation is applied), each admitted by what libuv and stdexec
  document, stated on the trace. Each family has a contract, an abstract machine or an outcome function, and a locale that is
  interpreted on the handlers of every member.

  \<^item> Oneshot: the contract of timers and signals. Timer_Ops: after_op_state.hpp. Signal_Ops: upon_signal_op_state.hpp.

  \<^item> Stream_Op: the contract of reading operations. Read_Ops: read_some_op_state.hpp, read_until_op_state.hpp. Receive_Ops: receive_op_state.hpp.

  \<^item> Request_Ops: the receivers
  that issue one request (write, send, shutdown, connect, close).

  \<^item> Listener: sockets/tcp_listener.hpp and tcp_listener.cpp, with the operations of
  \<open>accept\<close>, their list and the pending connections.

  \<^item> Sockets: constructors of sockets and addresses.

  \<^item> Scoped_Ops: bind_to, connect_to and
  accept_from, whose operations hold a socket while a body runs.

  \<^item> Async_Value: async_value_op_state.hpp.

  The outcome theorems say of every run: at most one completion, which is the one owed; the handle is closed, or reading is off, before
  it. Nothing undefined happens, except where the code does something undefined: then the exact condition is in the statement. This is so
  for \<open>accept\<close>, which may use an operation that has completed (the model keeps such operations alive); for \<open>bind_to\<close>,
  \<open>connect_to\<close>, \<open>accept_from\<close> and \<open>async_value\<close>, which on their ordinary way to the body move the receiver out of an operation that has
  just been destroyed (the model takes the receiver to be read all the same); and for the stop request that meets an empty
  optional in \<open>async_value\<close>. Where \<open>uv_timer_init\<close> or \<open>uv_signal_init\<close> fails the code completes and goes on; the runs of the contract are
  those in which they succeed, and the theorems on them state the step that fails as well.

  \<^bold>\<open>Senders.\<close>

  \<^item> Sender_Classes: every sender class with its specialisation over \<open>just()\<close>, the packages of interface/domain.hpp, the tags and the
  completion signatures.

  \<^item> Senders: the algorithms of interface/uvexec.hpp in their call and closure forms (interface/closure.hpp), the
  customisations for a loop's domain, early and late, and \<open>connect\<close>: which operation state is found for a sender. Whether the values of a child
  fit the receiver's \<open>set_value\<close>, which C++ checks as well, is not modelled.

  \<^item> Signatures: the declared signatures cover what the operation states send, those of the operations with a body apart.

  \<^item> Loop_Env: the scheduler of a loop and the environments that lead to it; which loop \<open>sync_wait\<close> runs for a pipeline of algorithms.

  \<^item> Lazy_Construct: util/lazy.hpp.

  \<^item> Meta_Types: the type functions of include/uvexec/meta.

  \<^bold>\<open>Together.\<close> An operation state is modelled on its own, with the loop's list and libuv as what delivers its events. These theories put the parts
  together and turn what the parts assume of each other into theorems.

  \<^item> Loop_Clients: the interface between the list and the operations that are scheduled on it (\<open>loop_client\<close>), interpreted on the nine
  classes that use it and on the datatype \<open>loop_op\<close> of all of them; what each owes its receiver (\<open>op_outcome\<close>).

  \<^item> Loop_System: any number of operations of all classes on one list, on any number of threads, every access to the list a step of its own
  (\<open>psys_do\<close>). The list keeps its invariant, every operation goes through a run its contract admits, completes as owed and is applied in the order of the
  list; from every state the library alone reaches a state of rest, and at rest nothing waits; \<open>sync_wait\<close> on one of its operations returns what that completed with.

  \<^item> Handle_Data: the \<open>data\<close> and \<open>loop\<close> fields of libuv's objects (uv_util/misc.cpp): callbacks find their operation, operations find their loop.

  \<^item> This theory: one turn of the loop as a function, for the operations of \<open>schedule\<close> and what their receivers start in it.

  \<^bold>\<open>The echo programs on libuv\<close> of src/examples/echo_uv.c, which the library's own are measured against.

  \<^item> C_Runtime: a memory of \<open>malloc\<close> and \<open>free\<close>, and libuv's streams with their queues of requests; a wrong use of either is a fault.

  \<^item> Echo_Uv_Server: the callbacks of the server, one definition each, and its runs. Echo_Server_Memory: which blocks belong to which stream.
  Echo_Server_Safety: the server echoes, its memory is safe, and exactly when it closes a handle twice.

  \<^item> Echo_Uv_Client: the callbacks of the client. Echo_Client_Invariant, Echo_Client_Steps: the reference counts, and that every callback keeps them.
  Echo_Client_Safety: its memory is safe, it starts as many connections as asked for, and what a refused one leaves behind.

  \<^bold>\<open>The echo programs on the library\<close>, as clients of its contracts. The \<open>async_scope\<close> they use is the set of the operations that are under way; it is joined when
  it is empty.

  \<^item> Echo_Udp: echo_uvexec_udp.cpp on the completions of \<open>receive_from\<close>; it answers every datagram while its steps return, and exactly which of them do not.

  \<^item> Echo_Connection, Echo_Connection_Safety: the connections of echo_uvexec.cpp and echo_with_async_value.cpp, whose condition runs in the read callback of
  \<open>read_until\<close> as it is modelled in Read_Ops; they write back what was read until a stop is requested, and which of them may be destroyed under its sends.

  \<^item> Echo_Uvexec: the accepting server and the client of echo_uvexec.cpp.

  \<^bold>\<open>Bounds.\<close> There is no fuel: runs are lists of actions of any length; the loops over chains of nodes (\<open>grab_loop\<close>, \<open>apply_loop\<close>, \<open>pop_until\<close>) are partial functions, \<open>None\<close> when they do not
  return, and the theorems show that they return on every well-formed chain. \<open>push_loop\<close> is given the spurious failures of its weak
  compare-and-exchange. In the library counters and lengths are words of the width the code has (64-bit sizes and runner counters, 32-bit buffer
  counts); statuses are integers. In the echo programs the \<open>int\<close> counters are unbounded: integers in those on libuv, natural numbers in
  \<open>EchoServer\<close> and \<open>EchoClient\<close>.

  \<^bold>\<open>Assumptions.\<close> Memory is sequentially consistent; the memory orders of the atomics are not modelled. libuv calls back only what was started and not
  stopped or closed. \<open>uv_timer_init\<close> and \<open>uv_signal_init\<close> succeed in the runs of the contract (\<open>TAfterScheduleOpState_enabled\<close> and its like); the former always does, the latter can
  fail. A stop callback runs at most once, and its destructor waits for it. \<open>stdexec::make_completion_signatures\<close> is a
  parameter with its documented meaning. In the echo programs
  \<open>malloc\<close> succeeds; libuv fills the buffer it was given and calls back requests in their order, those of a closed stream with an error and before the close callback
  (\<open>server_enabled\<close>, \<open>client_enabled\<close>); no counter overflows. A UDP socket that
  is receiving refuses a second \<open>uv_udp_recv_start\<close> (\<open>busy_refused\<close>).

  \<^bold>\<open>Not modelled.\<close> \<open>RawUvObject\<close>, which names the libuv object inside one of the library (the model has one address for both); the list operations of \<open>accept\<close> on the
  composed system, whose stop operations Listener has among its own events; \<open>TLoop::Walk\<close>, which
  passes its arguments on; the prototypes of uv_util headers; \<open>noexcept\<close> specifications except where a throw meets one; \<open>drop\<close>, which is only a
  customisation point; the overloads of \<open>operator|\<close>, which call the closure on the sender; the alternative \<open>stdexec\<close> takes when a user's domain is neither the default nor a loop's. The accepting
  side of echo_with_async_value.cpp, which is that of echo_uvexec.cpp with \<open>async_value\<close>; \<open>process_connection_sequentially\<close>, which nothing calls; what the echo programs print; the
  benchmarks and the tests.
\<close>

section \<open>Scheduling through the operation list\<close>

text \<open>
  The operations of \<open>schedule\<close> (Scheduling) on the list of their loop (Operation_List). Starting one pushes it; applying one completes
  its receiver, which may start further operations: \<open>again op\<close> are those that the receiver of \<open>op\<close> starts.
\<close>

type_synonym sched_sys = "ptr oplist \<times> (ptr \<Rightarrow> TScheduleOpState)"

definition start_scheduled :: "ptr \<Rightarrow> sched_sys \<Rightarrow> sched_sys" where
  "start_scheduled op = (\<lambda>(l, sts). (push_once op l, sts(op := TScheduleOpState_start (sts op))))"

definition apply_scheduled :: "(ptr \<Rightarrow> ptr list) \<Rightarrow> ptr \<Rightarrow> sched_sys \<Rightarrow> sched_sys" where
  "apply_scheduled again op = (\<lambda>(l, sts).
     fold start_scheduled (again op) (l, sts(op := TScheduleOpState_step ScApply (sts op))))"

lemma push_once_eq: "push_once op l = \<lparr>OpHead = Some op, OpNext = (OpNext l)(op := OpHead l)\<rparr>"
  by (simp add: push_once_def TOperationList_PushBack_def push_store_def push_cas_def)

lemma push_all_frame: "x \<notin> set xs \<Longrightarrow> OpNext (fold push_once xs l) x = OpNext l x"
  by (induction xs arbitrary: l) (simp_all add: push_once_eq)

lemma start_all:
  "distinct xs \<Longrightarrow> fold start_scheduled xs (l, sts) =
     (fold push_once xs l, \<lambda>x. if x \<in> set xs then TScheduleOpState_start (sts x) else sts x)"
  by (induction xs arbitrary: l sts) (auto simp: start_scheduled_def fun_eq_iff)

lemma apply_all:
  "distinct (ops @ concat (map again ops)) \<Longrightarrow> fold (apply_scheduled again) ops (l, sts) =
     (fold push_once (concat (map again ops)) l, \<lambda>x.
        if x \<in> set ops then TScheduleOpState_step ScApply (sts x)
        else if x \<in> set (concat (map again ops)) then TScheduleOpState_start (sts x) else sts x)"
proof (induction ops arbitrary: l sts)
  case (Cons op ops)
  then have "distinct (again op)" "distinct (ops @ concat (map again ops))" by auto
  with Cons show ?case by (auto simp: apply_scheduled_def start_all fun_eq_iff)
qed simp

lemma apply_scheduled_frame:
  assumes "\<forall>op. distinct (again op) \<and> set (again op) \<inter> set ops = {}"
  shows "apply_frame (apply_scheduled again) (set ops)"
proof -
  have "OpNext (fst (apply_scheduled again op st)) x = OpNext (fst st) x" if "x \<in> set ops" for op st x
    using assms that push_all_frame [of x "again op" "fst st"]
    by (cases st) (auto simp: apply_scheduled_def start_all)
  then show ?thesis by (simp add: apply_frame_def)
qed

text \<open>
  C7: operations started on an idle loop are completed by the next \<open>ApplyOperations\<close>, each exactly once, with a value or, where a stop was
  requested, stopped; what their receivers start in the meantime is not applied in this turn but is in the list, in the order it was
  started, for the next one.
\<close>

theorem scheduled_operations_complete_in_their_turn:
  assumes "OpHead l = None" "distinct (ops @ concat (map again ops))"
    "\<forall>op. distinct (again op) \<and> set (again op) \<inter> set ops = {}"
    "\<forall>op. completions (trace (sts op)) = []"
  shows "\<exists>l' sts'. TLoop_ApplyOperations (apply_scheduled again) (fold start_scheduled ops (l, sts)) = Some (l', sts') \<and>
     (\<forall>op \<in> set ops. completions (trace (sts' op)) =
        [if StopRequested (sts op) then SetStopped else SetValue []]) \<and>
     (\<forall>op \<in> - set ops. completions (trace (sts' op)) = []) \<and>
     (\<exists>q. grab_list l' = Some (concat (map again ops), q) \<and> OpHead q = None)"
proof -
  have d: "distinct ops" "distinct (concat (map again ops))" using assms(2) by simp_all
  have "op_stack (fold push_once ops l) (rev ([] @ ops))"
    using assms(1) d(1) by (intro oq.rep_push_all) (simp_all add: op_stack_def)
  then obtain k where k: "OpHead k = None"
    "TLoop_ApplyOperations (apply_scheduled again) (fold start_scheduled ops (l, sts)) =
      Some (fold (apply_scheduled again) ops (k, \<lambda>x. if x \<in> set ops then TScheduleOpState_start (sts x) else sts x))"
    using ApplyOperations_returns [OF _ apply_scheduled_frame [OF assms(3)], of "fold push_once ops l"]
    by (auto simp: start_all [OF d(1)])
  obtain q where "grab_list (fold push_once (concat (map again ops)) k) = Some (concat (map again ops), q)"
      "op_stack q (rev [])"
    using oq.grab_after_pushes [of k "concat (map again ops)"] k(1) d(2) by (auto simp: op_stack_def)
  then show ?thesis
    using k(2) assms(4)
    by (auto simp: apply_all [OF assms(2)] op_stack_def TScheduleOpState_start_def TScheduleOpState_Apply_def
        Schedule_def emit_def)
qed

theorem scheduled_operations_complete_in_their_turn_witness:
  "\<exists>l' sts'. TLoop_ApplyOperations (apply_scheduled (\<lambda>op. if op = 1 then [3] else []))
      (fold start_scheduled [1, 2] (TOperationList (\<lambda>_. None), \<lambda>op. TScheduleOpState_new op (op = 2))) = Some (l', sts') \<and>
     completions (trace (sts' 1)) = [SetValue []] \<and> completions (trace (sts' 2)) = [SetStopped] \<and>
     (\<exists>q. grab_list l' = Some ([3], q))"
proof -
  let ?again = "\<lambda>op::ptr. if op = 1 then [3::ptr] else []" and ?sts = "\<lambda>op::ptr. TScheduleOpState_new op (op = 2)"
  have h: "OpHead (TOperationList (\<lambda>_. None)) = None" "distinct ([1, 2] @ concat (map ?again [1, 2::ptr]))"
      "\<forall>op. distinct (?again op) \<and> set (?again op) \<inter> set [1, 2] = {}" "\<forall>op. completions (trace (?sts op)) = []"
    by (simp_all add: TOperationList_def TScheduleOpState_new_def)
  obtain l' sts' q where r: "TLoop_ApplyOperations (apply_scheduled ?again)
        (fold start_scheduled [1, 2] (TOperationList (\<lambda>_. None), ?sts)) = Some (l', sts')"
      "\<forall>op \<in> set [1, 2]. completions (trace (sts' op)) = [if StopRequested (?sts op) then SetStopped else SetValue []]"
      "grab_list l' = Some (concat (map ?again [1, 2]), q)"
    using scheduled_operations_complete_in_their_turn [OF h] by (elim exE conjE) (rule that)
  then show ?thesis
    by (intro exI [of _ l'] exI [of _ sts'] exI [of _ q] conjI) (simp_all add: TScheduleOpState_new_def)
qed

end
